(* ===== verification/Prelude.thy ===== *)
theory Prelude
  imports Main "HOL-Library.Multiset"
begin

text \<open>
  Shared vocabulary of the development.

  \<^item> \<open>df_error\<close> and \<open>result\<close>: the error values of the crate
    (\<open>DataFusionError\<close>) and Rust's \<open>Result\<close>.  A panic of the source (a failed
    \<open>unwrap\<close>, \<open>expect\<close>, \<open>assert!\<close>, a division by zero) is the error
    \<open>Panic\<close>, so every early exit of the code is a value of the model.  Error
    texts keep the fixed words of the source; interpolated values are left out.
  \<^item> \<open>usize\<close> arithmetic: a \<open>usize\<close> or \<open>u64\<close> of the source is a natural
    number, and the operations of the source that may leave the 64 bit range are
    written with the wrap-around of the release profile.
  \<^item> generic facts on \<open>result\<close>, on lists of results and on intervals that the
    component theories share, collected in \<open>result_simps\<close>, \<open>usize_simps\<close> and
    \<open>tile_intros\<close>.
\<close>

named_theorems result_simps \<open>evaluation of the result combinators\<close>
named_theorems usize_simps \<open>64 bit arithmetic inside its range\<close>
named_theorems tile_intros \<open>introduction rules for tilings of an interval\<close>

subsection \<open>Errors and results\<close>

datatype external_error =
    OutOfOrderGenerations string
  | OtherExternal string

datatype df_error =
    Execution string
  | Internal string
  | Plan string
  | ArrowErr string
  | IoErr string
  | External external_error
  | Panic string

datatype 'a result = Ok 'a | Err df_error

fun bind_result :: "'a result \<Rightarrow> ('a \<Rightarrow> 'b result) \<Rightarrow> 'b result" where
  "bind_result (Ok x) f = f x"
| "bind_result (Err e) f = Err e"

fun is_ok :: "'a result \<Rightarrow> bool" where
  "is_ok (Ok x) = True"
| "is_ok (Err e) = False"

fun ok_or :: "'a option \<Rightarrow> df_error \<Rightarrow> 'a result" where
  "ok_or (Some x) e = Ok x"
| "ok_or None e = Err e"

text \<open>The \<open>collect::<Result<Vec<_>, _>>()\<close> idiom: the first error wins.\<close>

fun collect_results :: "'a result list \<Rightarrow> 'a list result" where
  "collect_results [] = Ok []"
| "collect_results (Err e # rs) = Err e"
| "collect_results (Ok x # rs) = map_result (Cons x) (collect_results rs)"

text \<open>A loop over a list whose body may fail with \<open>?\<close>.\<close>

fun fold_result :: "('s \<Rightarrow> 'a \<Rightarrow> 's result) \<Rightarrow> 's \<Rightarrow> 'a list \<Rightarrow> 's result" where
  "fold_result f s [] = Ok s"
| "fold_result f s (x # xs) = bind_result (f s x) (\<lambda>s'. fold_result f s' xs)"

subsection \<open>Machine integers\<close>

type_synonym usize = nat
type_synonym u64 = nat

definition usize_limit :: nat where
  "usize_limit = 2 ^ 64"

definition usize_add :: "usize \<Rightarrow> usize \<Rightarrow> usize" where
  "usize_add a b = (a + b) mod usize_limit"

definition usize_sub :: "usize \<Rightarrow> usize \<Rightarrow> usize" where
  "usize_sub a b = (if b \<le> a then a - b else a + usize_limit - b) mod usize_limit"

definition usize_mul :: "usize \<Rightarrow> usize \<Rightarrow> usize" where
  "usize_mul a b = (a * b) mod usize_limit"

definition usize_div :: "usize \<Rightarrow> usize \<Rightarrow> usize result" where
  "usize_div a b = (if b = 0 then Err (Panic ''attempt to divide by zero'') else Ok (a div b))"

definition usize_rem :: "usize \<Rightarrow> usize \<Rightarrow> usize result" where
  "usize_rem a b =
     (if b = 0 then Err (Panic ''attempt to calculate the remainder with a divisor of zero'')
      else Ok (a mod b))"

definition usize_sum :: "usize list \<Rightarrow> usize" where
  "usize_sum xs = foldl usize_add 0 xs"

subsection \<open>Interval tilings\<close>

text \<open>
  \<open>tiles a b ps\<close>: the half open intervals of \<open>ps\<close>, in order, are non-empty,
  adjacent, and cover \<open>[a, b)\<close>.
\<close>

fun tiles :: "nat \<Rightarrow> nat \<Rightarrow> (nat \<times> nat) list \<Rightarrow> bool" where
  "tiles a b [] = (a = b)"
| "tiles a b ((s, e) # ps) = (s = a \<and> s < e \<and> tiles e b ps)"

subsection \<open>Facts on results\<close>

lemma bind_result_eq_Ok [result_simps]:
  "bind_result r f = Ok y \<longleftrightarrow> (\<exists>x. r = Ok x \<and> f x = Ok y)"
  by (cases r) auto

lemma bind_result_eq_Err:
  "bind_result r f = Err e \<longleftrightarrow> r = Err e \<or> (\<exists>x. r = Ok x \<and> f x = Err e)"
  by (cases r) auto

lemma map_result_eq_Ok [result_simps]:
  "map_result f r = Ok y \<longleftrightarrow> (\<exists>x. r = Ok x \<and> f x = y)"
  by (cases r) auto

lemma ok_or_eq_Ok [result_simps]: "ok_or x e = Ok y \<longleftrightarrow> x = Some y"
  by (cases x) auto

lemma is_ok_iff [result_simps]: "is_ok r \<longleftrightarrow> (\<exists>x. r = Ok x)"
  by (cases r) auto

lemma collect_results_Ok_iff:
  "collect_results rs = Ok xs \<longleftrightarrow> rs = map Ok xs"
proof (induction rs arbitrary: xs rule: collect_results.induct)
  case (3 x rs)
  then show ?case by (cases xs) (auto simp: result_simps)
qed auto

lemma collect_results_map_Ok [simp]: "collect_results (map (\<lambda>x. Ok (f x)) xs) = Ok (map f xs)"
  by (induction xs) auto

lemma fold_result_append:
  "fold_result f s (xs @ ys) = bind_result (fold_result f s xs) (\<lambda>s'. fold_result f s' ys)"
proof (induction xs arbitrary: s)
  case (Cons x xs)
  then show ?case by (cases "f s x") auto
qed simp

lemma fold_result_invariant:
  assumes "fold_result f s xs = Ok s'" and "P s"
    and "\<And>s x s'. x \<in> set xs \<Longrightarrow> P s \<Longrightarrow> f s x = Ok s' \<Longrightarrow> P s'"
  shows "P s'"
  using assms
proof (induction xs arbitrary: s)
  case (Cons x xs)
  then obtain t where "f s x = Ok t" "fold_result f t xs = Ok s'" by (auto simp: result_simps)
  with Cons.prems(2,3) show ?case by (intro Cons.IH [of t]) auto
qed simp

subsection \<open>Facts on machine integers\<close>

lemma usize_limit_pos [simp]: "0 < usize_limit"
  by (simp add: usize_limit_def)

lemma usize_add_exact [usize_simps]: "a + b < usize_limit \<Longrightarrow> usize_add a b = a + b"
  by (simp add: usize_add_def)

lemma usize_sub_exact [usize_simps]: "b \<le> a \<Longrightarrow> a < usize_limit \<Longrightarrow> usize_sub a b = a - b"
  by (simp add: usize_sub_def)

lemma usize_mul_exact [usize_simps]: "a * b < usize_limit \<Longrightarrow> usize_mul a b = a * b"
  by (simp add: usize_mul_def)

lemma usize_sub_wraps: "a < b \<Longrightarrow> b < usize_limit \<Longrightarrow> usize_sub a b = usize_limit - (b - a)"
  by (simp add: usize_sub_def)

lemma foldl_usize_add:
  "foldl usize_add (a mod usize_limit) xs = (a + sum_list xs) mod usize_limit"
proof (induction xs arbitrary: a)
  case (Cons x xs)
  have "usize_add (a mod usize_limit) x = (a + x) mod usize_limit"
    by (simp add: usize_add_def mod_add_left_eq)
  with Cons.IH [of "a + x"] show ?case by (simp add: add.assoc)
qed simp

lemma usize_sum_mod: "usize_sum xs = sum_list xs mod usize_limit"
  using foldl_usize_add [of 0 xs] by (simp add: usize_sum_def)

lemma usize_sum_exact [usize_simps]: "sum_list xs < usize_limit \<Longrightarrow> usize_sum xs = sum_list xs"
  by (simp add: usize_sum_mod)

subsection \<open>Facts on tilings\<close>

lemma tiles_Nil_intro [tile_intros]: "tiles a a []"
  by simp

lemma tiles_Cons_intro [tile_intros]: "a < e \<Longrightarrow> tiles e b ps \<Longrightarrow> tiles a b ((a, e) # ps)"
  by simp

lemma tiles_append [tile_intros]: "tiles a m ps \<Longrightarrow> tiles m b qs \<Longrightarrow> tiles a b (ps @ qs)"
  by (induction a m ps rule: tiles.induct) auto

lemma tiles_le: "tiles a b ps \<Longrightarrow> a \<le> b"
  by (induction a b ps rule: tiles.induct) auto

lemma tiles_inside: "tiles a b ps \<Longrightarrow> (s, e) \<in> set ps \<Longrightarrow> a \<le> s \<and> s < e \<and> e \<le> b"
proof (induction a b ps rule: tiles.induct)
  case (2 a b s' e' ps)
  then show ?case by (auto dest: tiles_le)
qed simp

lemma tiles_cover: "tiles a b ps \<Longrightarrow> a \<le> x \<Longrightarrow> x < b \<Longrightarrow> \<exists>(s, e) \<in> set ps. s \<le> x \<and> x < e"
proof (induction a b ps rule: tiles.induct)
  case (2 a b s e ps)
  then show ?case by (cases "x < e") auto
qed simp

lemma tiles_count:
  "tiles a b ps \<Longrightarrow>
   length (filter (\<lambda>(s, e). s \<le> x \<and> x < e) ps) = (if a \<le> x \<and> x < b then 1 else 0)"
proof (induction a b ps rule: tiles.induct)
  case (2 a b s e ps)
  then have "tiles e b ps" and "e \<le> b" by (auto dest: tiles_le)
  with 2 show ?case by auto
qed simp

lemma tiles_sum: "tiles a b ps \<Longrightarrow> (\<Sum>(s, e) \<leftarrow> ps. e - s) = b - a"
proof (induction a b ps rule: tiles.induct)
  case (2 a b s e ps)
  then have "e \<le> b" by (auto dest: tiles_le)
  with 2 show ?case by simp
qed simp

subsection \<open>Transition systems and their invariants\<close>

text \<open>
  The contract every step relation of the development meets: an invariant that holds
  initially and that each step keeps.
\<close>

locale invariant_system =
  fixes init :: "'s \<Rightarrow> bool" and step :: "'s \<Rightarrow> 's \<Rightarrow> bool" and inv :: "'s \<Rightarrow> bool"
  assumes inv_init: "init s \<Longrightarrow> inv s"
    and inv_step: "inv s \<Longrightarrow> step s s' \<Longrightarrow> inv s'"
begin

lemma inv_steps: "step\<^sup>*\<^sup>* s s' \<Longrightarrow> inv s \<Longrightarrow> inv s'"
  by (induction rule: rtranclp_induct) (auto intro: inv_step)

lemma inv_reachable: "init s \<Longrightarrow> step\<^sup>*\<^sup>* s s' \<Longrightarrow> inv s'"
  by (blast intro: inv_steps inv_init)

end

end
