(* ===== verification/Partitioning.thy ===== *)
theory Partitioning
  imports Prelude
begin

unbundle bit_operations_syntax

text \<open>
  \<open>src/streaming/partitioning.rs\<close>: partition ranges, the hash test that routes a
  row to a range, and \<open>filter_by_partition_range\<close>.

  Arrow and DataFusion are outside the repository: the operations the filter calls
  are the fields of \<open>arrow_lib\<close>, an argument of the model.  \<open>takes_rows\<close> and
  \<open>hashes_rows\<close> state what their documentation promises, through the list of rows
  a batch holds; \<open>list_arrow\<close> is a concrete library that keeps both promises.

  The theorems show how a range is intersected, that the routing test partitions the
  hash space when the ranges tile it (locale \<open>range_cover\<close>), and that the batches
  selected by such ranges hold every row of the input exactly once.
\<close>

subsection \<open>Partition ranges\<close>

record partition_range =
  pr_start :: usize
  pr_end :: usize
  pr_partitions :: usize

definition pr_new :: "usize \<Rightarrow> usize \<Rightarrow> usize \<Rightarrow> partition_range" where
  "pr_new s e p = \<lparr>pr_start = s, pr_end = e, pr_partitions = p\<rparr>"

definition pr_empty :: partition_range where
  "pr_empty = \<lparr>pr_start = 0, pr_end = 0, pr_partitions = 0\<rparr>"

definition pr_unit :: partition_range where
  "pr_unit = \<lparr>pr_start = 0, pr_end = 1, pr_partitions = 1\<rparr>"

text \<open>The source writes \<open>2^32\<close>; in Rust \<open>^\<close> is exclusive or.\<close>

definition pr_full :: partition_range where
  "pr_full = pr_new 0 (2 XOR 32) (2 XOR 32)"

definition pr_new_from_index :: "usize \<Rightarrow> usize \<Rightarrow> partition_range" where
  "pr_new_from_index index p =
     \<lparr>pr_start = index, pr_end = usize_add index 1, pr_partitions = p\<rparr>"

definition pr_intersection :: "partition_range \<Rightarrow> partition_range \<Rightarrow> partition_range" where
  "pr_intersection r other =
     (let s = max (pr_start r) (pr_start other);
          e = min (pr_end r) (pr_end other)
      in if s < e then \<lparr>pr_start = s, pr_end = e, pr_partitions = pr_partitions r\<rparr>
         else pr_empty)"

definition pr_is_empty :: "partition_range \<Rightarrow> bool" where
  "pr_is_empty r = (pr_start r = pr_end r)"

definition pr_size :: "partition_range \<Rightarrow> usize" where
  "pr_size r = usize_sub (pr_end r) (pr_start r)"

definition contains_hash :: "partition_range \<Rightarrow> u64 \<Rightarrow> bool result" where
  "contains_hash r hash =
     bind_result (usize_rem hash (pr_partitions r))
       (\<lambda>partition. Ok (pr_start r \<le> partition \<and> partition < pr_end r))"

definition contains_partition_indices :: "partition_range \<Rightarrow> usize list \<Rightarrow> bool" where
  "contains_partition_indices r indices =
     list_ex (\<lambda>index. pr_start r \<le> index \<and> index < pr_end r) indices"

subsection \<open>The protobuf form of a range\<close>

record proto_partition_range =
  proto_start :: u64
  proto_end :: u64
  proto_partitions :: u64

definition pr_from_proto :: "proto_partition_range \<Rightarrow> partition_range" where
  "pr_from_proto proto =
     \<lparr>pr_start = proto_start proto, pr_end = proto_end proto,
      pr_partitions = proto_partitions proto\<rparr>"

definition pr_into_proto :: "partition_range \<Rightarrow> proto_partition_range" where
  "pr_into_proto r =
     \<lparr>proto_start = pr_start r, proto_end = pr_end r, proto_partitions = pr_partitions r\<rparr>"

subsection \<open>Filtering a record batch\<close>

text \<open>
  Batches \<open>'b\<close>, schemas \<open>'s\<close>, columns \<open>'c\<close> and expressions \<open>'e\<close> belong to the
  libraries.  \<open>evaluate\<close> is \<open>expr.evaluate(&batch)?.into_array(batch.num_rows())\<close>;
  \<open>create_hashes\<close> is the hashing kernel at the fixed seeds of the source, with the
  buffer it fills as its second argument.
\<close>

record ('b, 's, 'c, 'e) arrow_lib =
  num_rows :: "'b \<Rightarrow> nat"
  batch_schema :: "'b \<Rightarrow> 's"
  batch_columns :: "'b \<Rightarrow> 'c list"
  evaluate :: "'e \<Rightarrow> 'b \<Rightarrow> 'c result"
  create_hashes :: "'c list \<Rightarrow> u64 list \<Rightarrow> u64 list result"
  take_arrays :: "'c list \<Rightarrow> nat list \<Rightarrow> 'c list result"
  try_new_with_options :: "'s \<Rightarrow> 'c list \<Rightarrow> nat \<Rightarrow> 'b result"

record 'e partitioning_spec =
  expressions :: "'e list"

text \<open>The loop over \<open>hash_buffer.iter().enumerate()\<close>; an index is cast to \<open>u32\<close>.\<close>

fun select_indices :: "partition_range \<Rightarrow> nat \<Rightarrow> u64 list \<Rightarrow> nat list result" where
  "select_indices r index [] = Ok []"
| "select_indices r index (hash # hashes) =
     bind_result (contains_hash r hash) (\<lambda>c.
       map_result (\<lambda>indices. if c then (index mod 2 ^ 32) # indices else indices)
         (select_indices r (Suc index) hashes))"

definition filter_by_partition_range ::
  "('b, 's, 'c, 'e) arrow_lib \<Rightarrow> 'b \<Rightarrow> partition_range \<Rightarrow> 'e list \<Rightarrow> 'b result" where
  "filter_by_partition_range A batch r exprs =
     bind_result (collect_results (map (\<lambda>expr. evaluate A expr batch) exprs)) (\<lambda>arrays.
     bind_result (create_hashes A arrays (replicate (num_rows A batch) 0)) (\<lambda>hash_buffer.
     bind_result (select_indices r 0 hash_buffer) (\<lambda>indices.
     bind_result (take_arrays A (batch_columns A batch) indices) (\<lambda>columns.
     try_new_with_options A (batch_schema A batch) columns (length indices)))))"

subsection \<open>What the libraries promise\<close>

definition takes_rows :: "('b, 's, 'c, 'e) arrow_lib \<Rightarrow> ('b \<Rightarrow> 'r list) \<Rightarrow> bool" where
  "takes_rows A rows \<longleftrightarrow>
     (\<forall>b. num_rows A b = length (rows b)) \<and>
     (\<forall>b is. (\<forall>i \<in> set is. i < length (rows b)) \<longrightarrow>
        (\<exists>cs b'. take_arrays A (batch_columns A b) is = Ok cs \<and>
           try_new_with_options A (batch_schema A b) cs (length is) = Ok b' \<and>
           rows b' = map (\<lambda>i. rows b ! i) is))"

definition hashes_rows ::
  "('b, 's, 'c, 'e) arrow_lib \<Rightarrow> ('b \<Rightarrow> 'r list) \<Rightarrow> 'e list \<Rightarrow> ('r \<Rightarrow> u64) \<Rightarrow> bool" where
  "hashes_rows A rows exprs h \<longleftrightarrow>
     (\<forall>b. \<exists>cs. collect_results (map (\<lambda>expr. evaluate A expr b) exprs) = Ok cs \<and>
        create_hashes A cs (replicate (num_rows A b) 0) = Ok (map h (rows b)))"

text \<open>A library whose batches are single columns of numbers, hashed by value.\<close>

definition list_arrow :: "(nat list, unit, nat list, unit) arrow_lib" where
  "list_arrow =
     \<lparr>num_rows = length, batch_schema = (\<lambda>b. ()), batch_columns = (\<lambda>b. [b]),
      evaluate = (\<lambda>e b. Ok b),
      create_hashes = (\<lambda>cs buffer. Ok (case cs of [] \<Rightarrow> buffer | c # _ \<Rightarrow> c)),
      take_arrays = (\<lambda>cs is. Ok (map (\<lambda>c. map (\<lambda>i. c ! i) is) cs)),
      try_new_with_options =
        (\<lambda>s cs n. case cs of [c] \<Rightarrow> Ok c | _ \<Rightarrow> Err (ArrowErr ''column count''))\<rparr>"

subsection \<open>Well-formed ranges and their members\<close>

definition range_ok :: "partition_range \<Rightarrow> bool" where
  "range_ok r \<longleftrightarrow>
     pr_start r \<le> pr_end r \<and> pr_end r \<le> pr_partitions r \<and> pr_partitions r < usize_limit"

definition in_range :: "partition_range \<Rightarrow> nat \<Rightarrow> bool" where
  "in_range r i \<longleftrightarrow> pr_start r \<le> i \<and> i < pr_end r"

definition range_bounds :: "partition_range \<Rightarrow> nat \<times> nat" where
  "range_bounds r = (pr_start r, pr_end r)"

lemmas range_defs = pr_new_def pr_empty_def pr_unit_def pr_new_from_index_def pr_is_empty_def

lemma pr_full_value: "pr_full = pr_new 0 34 34"
  by (simp add: pr_full_def)

lemma contains_hash_eq [result_simps]:
  "0 < pr_partitions r \<Longrightarrow> contains_hash r hash = Ok (in_range r (hash mod pr_partitions r))"
  by (simp add: contains_hash_def usize_rem_def in_range_def)

lemma in_range_intersection [simp]:
  "in_range (pr_intersection a b) i \<longleftrightarrow> in_range a i \<and> in_range b i"
  by (auto simp: pr_intersection_def in_range_def pr_empty_def Let_def)

lemma intersection_partitions:
  "\<not> pr_is_empty (pr_intersection a b) \<Longrightarrow> pr_partitions (pr_intersection a b) = pr_partitions a"
  by (auto simp: pr_intersection_def pr_is_empty_def pr_empty_def Let_def)

lemma intersection_nonempty_iff:
  "\<not> pr_is_empty (pr_intersection a b) \<longleftrightarrow> (\<exists>i. in_range a i \<and> in_range b i)"
proof
  assume "\<not> pr_is_empty (pr_intersection a b)"
  then have "in_range a (max (pr_start a) (pr_start b)) \<and> in_range b (max (pr_start a) (pr_start b))"
    by (auto simp: pr_intersection_def pr_is_empty_def pr_empty_def in_range_def Let_def
        split: if_splits)
  then show "\<exists>i. in_range a i \<and> in_range b i" by blast
qed (auto simp: pr_intersection_def pr_is_empty_def pr_empty_def in_range_def Let_def)

lemma intersection_ok: "range_ok a \<Longrightarrow> range_ok b \<Longrightarrow> range_ok (pr_intersection a b)"
  by (auto simp: range_ok_def pr_intersection_def pr_empty_def Let_def)

lemma intersection_assoc:
  "pr_intersection (pr_intersection a b) c = pr_intersection a (pr_intersection b c)"
  by (auto simp: pr_intersection_def pr_empty_def Let_def)

lemma intersection_commute:
  "pr_partitions a = pr_partitions b \<Longrightarrow> pr_intersection a b = pr_intersection b a"
  by (auto simp: pr_intersection_def Let_def max.commute min.commute)

lemma pr_size_exact [usize_simps]: "range_ok r \<Longrightarrow> pr_size r = pr_end r - pr_start r"
  by (simp add: pr_size_def range_ok_def usize_simps)

lemma pr_size_card: "range_ok r \<Longrightarrow> pr_size r = card {i. in_range r i}"
  using card_atLeastLessThan [of "pr_start r" "pr_end r"]
  by (simp add: usize_simps in_range_def atLeastLessThan_def Collect_conj_eq lessThan_def atLeast_def)

subsection \<open>The selection loop\<close>

lemma select_indices_eq:
  assumes "0 < pr_partitions r" and "index + length hs \<le> 2 ^ 32"
  shows "select_indices r index hs =
    Ok (filter (\<lambda>i. in_range r (hs ! (i - index) mod pr_partitions r))
          [index ..< index + length hs])"
  using assms
proof (induction hs arbitrary: index)
  case (Cons h hs)
  have "select_indices r (Suc index) hs =
    Ok (filter (\<lambda>i. in_range r (hs ! (i - Suc index) mod pr_partitions r))
          [Suc index ..< Suc index + length hs])"
    using Cons by auto
  moreover have "filter (\<lambda>i. in_range r (hs ! (i - Suc index) mod pr_partitions r))
      [Suc index ..< Suc index + length hs] =
    filter (\<lambda>i. in_range r ((h # hs) ! (i - index) mod pr_partitions r))
      [Suc index ..< Suc index + length hs]"
    by (rule filter_cong) (auto simp: nth_Cons')
  moreover have "[index ..< index + length (h # hs)] = index # [Suc index ..< Suc index + length hs]"
    by (simp add: upt_conv_Cons del: upt_Suc)
  moreover have "index mod 2 ^ 32 = index" using Cons.prems(2) by simp
  ultimately show ?case
    using Cons.prems(1) by (simp add: contains_hash_eq del: upt_Suc)
qed simp

lemma map_nth_filter_upt:
  "map (\<lambda>i. xs ! i) (filter (\<lambda>i. P (xs ! i)) [0 ..< length xs]) = filter P xs"
proof -
  have "map (\<lambda>i. xs ! i) (filter (P \<circ> (\<lambda>i. xs ! i)) [0 ..< length xs]) =
    filter P (map (\<lambda>i. xs ! i) [0 ..< length xs])"
    by (simp add: filter_map)
  then show ?thesis by (simp add: comp_def map_nth)
qed

lemma filter_by_partition_range_rows:
  assumes lib: "takes_rows A rows" "hashes_rows A rows exprs h"
    and parts: "0 < pr_partitions r" and len: "length (rows b) \<le> 2 ^ 32"
  shows "\<exists>b'. filter_by_partition_range A b r exprs = Ok b' \<and>
    rows b' = filter (\<lambda>row. in_range r (h row mod pr_partitions r)) (rows b)"
proof -
  obtain cs where cs: "collect_results (map (\<lambda>expr. evaluate A expr b) exprs) = Ok cs"
    and hashes: "create_hashes A cs (replicate (num_rows A b) 0) = Ok (map h (rows b))"
    using lib(2) unfolding hashes_rows_def by blast
  define sel_is where "sel_is = filter (\<lambda>i. in_range r (map h (rows b) ! i mod pr_partitions r))
    [0 ..< length (rows b)]"
  have sel: "select_indices r 0 (map h (rows b)) = Ok sel_is"
    using select_indices_eq [OF parts, of 0 "map h (rows b)"] len by (simp add: sel_is_def)
  have "sel_is = filter (\<lambda>i. in_range r (h (rows b ! i) mod pr_partitions r)) [0 ..< length (rows b)]"
    unfolding sel_is_def by (rule filter_cong) auto
  then have rows_is: "map (\<lambda>i. rows b ! i) sel_is =
      filter (\<lambda>row. in_range r (h row mod pr_partitions r)) (rows b)"
    using map_nth_filter_upt [of "rows b" "\<lambda>row. in_range r (h row mod pr_partitions r)"] by simp
  have "\<forall>i \<in> set sel_is. i < length (rows b)" by (simp add: sel_is_def)
  then obtain cols b' where "take_arrays A (batch_columns A b) sel_is = Ok cols"
    and "try_new_with_options A (batch_schema A b) cols (length sel_is) = Ok b'"
    and "rows b' = map (\<lambda>i. rows b ! i) sel_is"
    using lib(1) unfolding takes_rows_def by blast
  with cs hashes sel rows_is show ?thesis by (simp add: filter_by_partition_range_def)
qed

subsection \<open>Ranges that cover the hash space\<close>

text \<open>
  The contract between the scheduler, which hands out ranges, and the exchange, which
  filters by them: all ranges count the same number of partitions and together they
  tile it.
\<close>

locale range_cover =
  fixes ranges :: "partition_range list" and np :: nat
  assumes np_pos: "0 < np"
    and same_np: "\<And>r. r \<in> set ranges \<Longrightarrow> pr_partitions r = np"
    and tiling: "tiles 0 np (map range_bounds ranges)"
begin

lemma hash_in_one_range:
  "length (filter (\<lambda>r. contains_hash r hash = Ok True) ranges) = 1"
proof -
  have "filter (\<lambda>r. contains_hash r hash = Ok True) ranges =
      filter (\<lambda>r. in_range r (hash mod np)) ranges"
    using np_pos same_np by (intro filter_cong) (auto simp: contains_hash_eq)
  moreover have "length (filter (\<lambda>r. in_range r (hash mod np)) ranges) =
      length (filter (\<lambda>(s, e). s \<le> hash mod np \<and> hash mod np < e) (map range_bounds ranges))"
    by (simp add: filter_map comp_def range_bounds_def in_range_def)
  ultimately show ?thesis using tiles_count [OF tiling] np_pos by simp
qed

lemma rows_split:
  "(\<Sum>r \<leftarrow> ranges. mset (filter (\<lambda>row. in_range r (h row mod np)) rows)) = mset rows"
proof (induction rows)
  case Nil
  then show ?case by (induction ranges) auto
next
  case (Cons row rows)
  have one: "length (filter (\<lambda>r. in_range r (h row mod np)) ranges) = 1"
    using hash_in_one_range [of "h row"] np_pos same_np
    by (simp add: contains_hash_eq cong: filter_cong)
  have "(\<Sum>r \<leftarrow> rs. mset (filter (\<lambda>row. in_range r (h row mod np)) (row # rows))) =
      replicate_mset (length (filter (\<lambda>r. in_range r (h row mod np)) rs)) row +
      (\<Sum>r \<leftarrow> rs. mset (filter (\<lambda>row. in_range r (h row mod np)) rows))" for rs
    by (induction rs) auto
  from this [of ranges] one Cons.IH show ?case by simp
qed

end

interpretation unit_range: range_cover "[pr_unit]" 1
  by unfold_locales (simp_all add: pr_unit_def range_bounds_def)

lemma list_arrow_takes_rows: "takes_rows list_arrow (\<lambda>b. b)"
  by (simp add: takes_rows_def list_arrow_def)

lemma list_arrow_hashes_rows: "hashes_rows list_arrow (\<lambda>b. b) [()] (\<lambda>row. row)"
  by (simp add: hashes_rows_def list_arrow_def)

lemma covering_filters:
  assumes "takes_rows A rows" and "hashes_rows A rows exprs h" and "length (rows b) \<le> 2 ^ 32"
    and "0 < np" and "\<forall>r \<in> set ranges. pr_partitions r = np"
    and "tiles 0 np (map range_bounds ranges)"
  shows "\<exists>f. (\<forall>r \<in> set ranges. filter_by_partition_range A b r exprs = Ok (f r)) \<and>
    (\<Sum>r \<leftarrow> ranges. mset (rows (f r))) = mset (rows b)"
proof -
  let ?sel = "\<lambda>r. filter (\<lambda>row. in_range r (h row mod np)) (rows b)"
  have "\<forall>r \<in> set ranges. \<exists>b'. filter_by_partition_range A b r exprs = Ok b' \<and> rows b' = ?sel r"
    using filter_by_partition_range_rows [OF assms(1,2) _ assms(3)] assms(4,5) by metis
  then obtain f where f: "\<forall>r \<in> set ranges. filter_by_partition_range A b r exprs = Ok (f r) \<and>
      rows (f r) = ?sel r" by metis
  have "(\<Sum>r \<leftarrow> ranges. mset (rows (f r))) = (\<Sum>r \<leftarrow> ranges. mset (?sel r))"
    using f by (intro arg_cong [where f = sum_list] map_cong) auto
  also have "\<dots> = mset (rows b)"
    using range_cover.rows_split [OF range_cover.intro] assms(4-6) by blast
  finally show ?thesis using f by blast
qed

subsection \<open>Properties\<close>

text \<open>
  C10: routing loses and duplicates nothing.  If the ranges handed out count the same
  number of partitions and tile it, then filtering one batch by each of them succeeds
  and the selected batches together hold every row of the batch exactly once.
\<close>

theorem filter_covering_ranges:
  assumes "takes_rows A rows" and "hashes_rows A rows exprs h" and "length (rows b) \<le> 2 ^ 32"
    and "0 < np" and "\<forall>r \<in> set ranges. pr_partitions r = np"
    and "tiles 0 np (map range_bounds ranges)"
  shows "\<exists>bs. map (\<lambda>r. filter_by_partition_range A b r exprs) ranges = map Ok bs \<and>
    (\<Sum>b' \<leftarrow> bs. mset (rows b')) = mset (rows b)"
proof -
  obtain f where "\<forall>r \<in> set ranges. filter_by_partition_range A b r exprs = Ok (f r)"
    "(\<Sum>r \<leftarrow> ranges. mset (rows (f r))) = mset (rows b)"
    using covering_filters [OF assms] by blast
  then show ?thesis by (intro exI [of _ "map f ranges"]) (simp add: comp_def)
qed

theorem filter_covering_ranges_witness:
  "\<exists>bs. map (\<lambda>r. filter_by_partition_range list_arrow [3, 5, 8, 12] r [()])
      [pr_new 0 2 5, pr_new 2 5 5] = map Ok bs \<and>
    (\<Sum>b' \<leftarrow> bs. mset b') = mset [3, 5, 8, 12]"
  using filter_covering_ranges [OF list_arrow_takes_rows list_arrow_hashes_rows,
      of "[3, 5, 8, 12]" 5 "[pr_new 0 2 5, pr_new 2 5 5]"]
  by (simp add: pr_new_def range_bounds_def)

text \<open>
  The intersection of two ranges over the same number of partitions selects exactly
  the hashes both select; when it is empty no hash is selected by both.
\<close>

theorem intersection_contains_hash:
  assumes "pr_partitions a = pr_partitions b" and "contains_hash a hash = Ok x"
    and "contains_hash b hash = Ok y"
  shows "(if pr_is_empty (pr_intersection a b) then \<not> (x \<and> y)
    else contains_hash (pr_intersection a b) hash = Ok (x \<and> y))"
proof -
  have pos: "0 < pr_partitions a"
    using assms(2) by (auto simp: contains_hash_def usize_rem_def result_simps split: if_splits)
  then have "x = in_range a (hash mod pr_partitions a)" "y = in_range b (hash mod pr_partitions a)"
    using assms by (auto simp: contains_hash_eq)
  then show ?thesis
    using pos intersection_nonempty_iff [of a b] intersection_partitions [of a b]
    by (auto simp: contains_hash_eq)
qed

theorem intersection_contains_hash_witness:
  "contains_hash (pr_intersection (pr_new 2 6 10) (pr_new 4 9 10)) 35 = Ok True"
  using intersection_contains_hash [of "pr_new 2 6 10" "pr_new 4 9 10" 35 True True]
  by (simp add: pr_new_def contains_hash_def usize_rem_def pr_intersection_def pr_is_empty_def)

end
