(* ===== verification/Generation.thy ===== *)
theory Generation
  imports Partitioning
begin

text \<open>
  \<open>src/streaming/generation.rs\<close> (the scheduling data of a task) and
  \<open>src/streaming/operators/remote_source/utils.rs\<close> (which generation is current at a
  marker, and which addresses serve its partitions).

  The theorems characterise \<open>find_current_generation\<close> as the last generation whose
  start conditions hold, show that it only moves forward as markers grow, and show that
  a successful \<open>get_addresses_for_stream\<close> covers every requested partition by exactly
  one address when the advertised locations do not overlap; a concrete pair of
  overlapping locations shows that the size comparison alone does not give coverage.
\<close>

subsection \<open>Scheduling data\<close>

record generation_input_location =
  gil_address :: string
  gil_offset_range :: "usize \<times> usize"
  gil_partitions :: partition_range

record generation_input_detail =
  gid_stream_id :: string
  gid_locations :: "generation_input_location list"

datatype generation_start_offset = AnyTimeAfter usize

record generation_spec =
  gs_id :: string
  gs_partitions :: partition_range
  gs_start_conditions :: "(string \<times> generation_start_offset) list"

record task_scheduling_details_update =
  tsu_generation :: "generation_spec option"
  tsu_input_details :: "generation_input_detail list option"

text \<open>The value held by the \<open>SharedObservable\<close> a task watches.\<close>

type_synonym scheduling_details =
  "generation_spec list option \<times> generation_input_detail list option"

text \<open>A resolved input: stream id, address and the partitions read from it.\<close>

type_synonym stream_address = "string \<times> string \<times> partition_range"

subsection \<open>The current generation\<close>

fun start_condition_met :: "usize \<Rightarrow> generation_start_offset \<Rightarrow> bool" where
  "start_condition_met current_marker (AnyTimeAfter minimum_checkpoint) =
     (minimum_checkpoint \<le> current_marker)"

definition generation_valid :: "string list \<Rightarrow> usize \<Rightarrow> generation_spec \<Rightarrow> bool" where
  "generation_valid stream_ids current_marker g =
     list_all (\<lambda>(condition_stream_id, start_condition).
         start_condition_met current_marker start_condition)
       (filter (\<lambda>(condition_stream_id, start_condition). condition_stream_id \<in> set stream_ids)
         (gs_start_conditions g))"

definition find_current_generation ::
  "string list \<Rightarrow> generation_spec list \<Rightarrow> usize \<Rightarrow> generation_spec result" where
  "find_current_generation stream_ids generations current_marker =
     ok_or (find (generation_valid stream_ids current_marker) (rev generations))
       (Execution ''No generation found for the current marker'')"

subsection \<open>Addresses for a stream\<close>

definition location_active :: "usize \<Rightarrow> generation_input_location \<Rightarrow> bool" where
  "location_active checkpoint location =
     (fst (gil_offset_range location) \<le> checkpoint \<and> snd (gil_offset_range location) > checkpoint)"

text \<open>
  The closure of \<open>filter_map\<close>: the resolved address, with the range it pushes on
  \<open>all_found_partitions\<close> (nothing for an unpartitioned location).
\<close>

definition match_location ::
  "partition_range \<Rightarrow> string \<Rightarrow> generation_input_location
     \<Rightarrow> (stream_address \<times> partition_range list) option" where
  "match_location partitions stream_id location =
     (if pr_is_empty (gil_partitions location) \<and> pr_is_empty partitions
      then Some ((stream_id, gil_address location, pr_empty), [])
      else let overlapping = pr_intersection partitions (gil_partitions location)
           in if pr_is_empty overlapping then None
              else Some ((stream_id, gil_address location, overlapping), [overlapping]))"

definition get_addresses_for_stream ::
  "partition_range \<Rightarrow> usize \<Rightarrow> generation_input_detail \<Rightarrow> stream_address list result" where
  "get_addresses_for_stream partitions checkpoint detail =
     (let matched = List.map_filter (match_location partitions (gid_stream_id detail))
            (filter (location_active checkpoint) (gid_locations detail));
          addresses = map fst matched;
          all_found_partitions = concat (map snd matched);
          found_partition_count = usize_sum (map pr_size all_found_partitions)
      in if found_partition_count \<noteq> pr_size partitions
         then Err (Execution ''Missing partitions for stream'')
         else Ok addresses)"

definition get_addresses ::
  "partition_range \<Rightarrow> usize \<Rightarrow> string list \<Rightarrow> generation_input_detail list
     \<Rightarrow> stream_address list result" where
  "get_addresses partitions checkpoint stream_ids input_details =
     bind_result
       (collect_results
         (map (\<lambda>stream_id. ok_or (find (\<lambda>d. gid_stream_id d = stream_id) input_details)
            (Execution ''No input detail found for stream ID'')) stream_ids))
       (\<lambda>details. map_result concat
          (collect_results (map (get_addresses_for_stream partitions checkpoint) details)))"

subsection \<open>Choosing the last valid generation\<close>

lemma find_skip: "\<forall>y \<in> set ys. \<not> P y \<Longrightarrow> P x \<Longrightarrow> find P (ys @ x # zs) = Some x"
  by (induction ys) auto

lemma find_Some_split:
  "find P xs = Some x \<Longrightarrow> \<exists>ys zs. xs = ys @ x # zs \<and> P x \<and> (\<forall>y \<in> set ys. \<not> P y)"
proof (induction xs)
  case (Cons y xs)
  show ?case
  proof (cases "P y")
    case True
    with Cons.prems show ?thesis by (intro exI [of _ "[]"] exI [of _ xs]) auto
  next
    case False
    with Cons obtain ys zs where "xs = ys @ x # zs" "P x" "\<forall>y \<in> set ys. \<not> P y" by auto
    with False show ?thesis by (intro exI [of _ "y # ys"] exI [of _ zs]) auto
  qed
qed simp

lemma find_rev_Some_iff:
  "find P (rev xs) = Some x \<longleftrightarrow> (\<exists>ys zs. xs = ys @ x # zs \<and> P x \<and> (\<forall>z \<in> set zs. \<not> P z))"
  (is "?l \<longleftrightarrow> ?r")
proof
  assume ?l
  from find_Some_split [OF this]
  obtain us vs where *: "rev xs = us @ x # vs" "P x" "\<forall>u \<in> set us. \<not> P u" by blast
  from arg_cong [OF *(1), of rev] have "xs = rev vs @ x # rev us" by simp
  with *(2,3) show ?r by (intro exI [of _ "rev vs"] exI [of _ "rev us"]) auto
next
  assume ?r
  then obtain ys zs where "xs = ys @ x # zs" "P x" "\<forall>z \<in> set zs. \<not> P z" by blast
  then show ?l using find_skip [of "rev zs" P x "rev ys"] by simp
qed

lemma generation_valid_iff:
  "generation_valid ids n g \<longleftrightarrow>
     (\<forall>(sid, c) \<in> set (gs_start_conditions g). sid \<in> set ids \<longrightarrow> start_condition_met n c)"
  by (auto simp: generation_valid_def list_all_iff)

lemma start_condition_mono: "start_condition_met n c \<Longrightarrow> n \<le> m \<Longrightarrow> start_condition_met m c"
  by (cases c) auto

lemma generation_valid_mono: "generation_valid ids n g \<Longrightarrow> n \<le> m \<Longrightarrow> generation_valid ids m g"
  by (auto simp: generation_valid_iff intro: start_condition_mono)

lemma find_current_generation_Ok_iff:
  "find_current_generation ids gens n = Ok g \<longleftrightarrow>
     (\<exists>before after. gens = before @ g # after \<and> generation_valid ids n g \<and>
        (\<forall>g' \<in> set after. \<not> generation_valid ids n g'))"
  by (simp add: find_current_generation_def result_simps find_rev_Some_iff)

lemma find_current_generation_Err_iff:
  "(\<exists>e. find_current_generation ids gens n = Err e) \<longleftrightarrow>
     (\<forall>g \<in> set gens. \<not> generation_valid ids n g)"
proof (cases "find (generation_valid ids n) (rev gens)")
  case None
  then have "\<forall>g \<in> set gens. \<not> generation_valid ids n g" by (auto simp: find_None_iff)
  with None show ?thesis by (simp add: find_current_generation_def)
next
  case (Some g)
  then have "g \<in> set gens \<and> generation_valid ids n g" by (auto simp: find_rev_Some_iff)
  with Some show ?thesis by (auto simp: find_current_generation_def)
qed

subsection \<open>Coverage by disjoint ranges\<close>

definition serves :: "partition_range list \<Rightarrow> nat \<Rightarrow> nat" where
  "serves rs i = length (filter (\<lambda>r. in_range r i) rs)"

lemma serves_simps [simp]:
  "serves [] i = 0"
  "serves (r # rs) i = (if in_range r i then Suc (serves rs i) else serves rs i)"
  by (simp_all add: serves_def)

lemma serves_pos_iff: "0 < serves rs i \<longleftrightarrow> (\<exists>r \<in> set rs. in_range r i)"
  by (auto simp: serves_def filter_empty_conv)

lemma finite_in_range [simp]: "finite {i. in_range r i}"
  by (rule finite_subset [of _ "{..< pr_end r}"]) (auto simp: in_range_def)

lemma disjoint_sizes_card:
  assumes "\<forall>r \<in> set rs. range_ok r" and "\<forall>i. serves rs i \<le> 1"
  shows "sum_list (map pr_size rs) = card {i. 0 < serves rs i}"
  using assms
proof (induction rs)
  case (Cons r rs)
  have le: "serves rs i \<le> 1" for i
    using Cons.prems(2) [rule_format, of i] by (auto split: if_splits)
  have disj: "{i. in_range r i} \<inter> {i. 0 < serves rs i} = {}"
    using Cons.prems(2) by (fastforce split: if_splits)
  have fin: "finite {i. 0 < serves rs i}"
    by (simp add: serves_pos_iff)
  have "{i. 0 < serves (r # rs) i} = {i. in_range r i} \<union> {i. 0 < serves rs i}" by auto
  with disj fin have "card {i. 0 < serves (r # rs) i} =
      card {i. in_range r i} + card {i. 0 < serves rs i}"
    by (simp add: card_Un_disjoint)
  with Cons le show ?case by (simp add: pr_size_card)
qed simp

definition found_ranges :: "partition_range \<Rightarrow> generation_input_location list \<Rightarrow> partition_range list" where
  "found_ranges partitions locations =
     filter (\<lambda>r. \<not> pr_is_empty r) (map (\<lambda>l. pr_intersection partitions (gil_partitions l)) locations)"

lemma serves_filter_nonempty:
  "\<forall>r \<in> set rs. range_ok r \<Longrightarrow> serves (filter (\<lambda>r. \<not> pr_is_empty r) rs) i = serves rs i"
  by (induction rs) (auto simp: pr_is_empty_def in_range_def range_ok_def)

lemma serves_map_intersection:
  "serves (map (pr_intersection r) rs) i = (if in_range r i then serves rs i else 0)"
  by (induction rs) auto

lemma serves_found_ranges:
  assumes "range_ok partitions" and "\<forall>l \<in> set locs. range_ok (gil_partitions l)"
  shows "serves (found_ranges partitions locs) i =
    (if in_range partitions i then serves (map gil_partitions locs) i else 0)"
proof -
  have "serves (found_ranges partitions locs) i =
      serves (map (pr_intersection partitions) (map gil_partitions locs)) i"
    unfolding found_ranges_def using assms by (subst serves_filter_nonempty) (auto intro: intersection_ok simp: comp_def)
  then show ?thesis by (simp only: serves_map_intersection)
qed

lemma found_ranges_size:
  assumes "range_ok partitions" and "\<forall>l \<in> set locs. range_ok (gil_partitions l)"
    and "\<forall>i. serves (map gil_partitions locs) i \<le> 1"
  shows "usize_sum (map pr_size (found_ranges partitions locs)) =
    card {i. in_range partitions i \<and> 0 < serves (map gil_partitions locs) i}"
proof -
  let ?fs = "found_ranges partitions locs"
  have "sum_list (map pr_size ?fs) = card {i. 0 < serves ?fs i}"
  proof (rule disjoint_sizes_card)
    show "\<forall>r \<in> set ?fs. range_ok r"
      using assms by (auto simp: found_ranges_def intro: intersection_ok)
    show "\<forall>i. serves ?fs i \<le> 1"
      using assms by (simp add: serves_found_ranges)
  qed
  also have "{i. 0 < serves ?fs i} =
      {i. in_range partitions i \<and> 0 < serves (map gil_partitions locs) i}"
    using assms by (auto simp: serves_found_ranges)
  finally have sum: "sum_list (map pr_size ?fs) =
      card {i. in_range partitions i \<and> 0 < serves (map gil_partitions locs) i}" .
  also have "\<dots> \<le> card {i. in_range partitions i}" by (intro card_mono) auto
  also have "\<dots> < usize_limit"
    using pr_size_card [OF assms(1)] pr_size_exact [OF assms(1)] assms(1) unfolding range_ok_def by linarith
  finally show ?thesis using sum by (simp add: usize_simps)
qed

lemma matched_ranges:
  assumes "\<not> pr_is_empty partitions"
  shows "concat (map snd (List.map_filter (match_location partitions sid) locs)) =
    found_ranges partitions locs"
  using assms
  by (induction locs) (simp_all add: match_location_def found_ranges_def Let_def)

lemma matched_address_ranges:
  assumes "\<not> pr_is_empty partitions"
  shows "map (\<lambda>a. snd (snd (fst a))) (List.map_filter (match_location partitions sid) locs) =
    found_ranges partitions locs"
  using assms
  by (induction locs) (simp_all add: match_location_def found_ranges_def Let_def)

lemma get_addresses_for_stream_is_ok:
  assumes "\<not> pr_is_empty partitions"
  shows "is_ok (get_addresses_for_stream partitions cp d) \<longleftrightarrow>
    usize_sum (map pr_size (found_ranges partitions (filter (location_active cp) (gid_locations d)))) =
    pr_size partitions"
  by (simp add: get_addresses_for_stream_def Let_def matched_ranges [OF assms] del: is_ok_iff)

lemma get_addresses_for_stream_ranges:
  assumes "\<not> pr_is_empty partitions" and "get_addresses_for_stream partitions cp d = Ok addrs"
  shows "map (\<lambda>a. snd (snd a)) addrs =
    found_ranges partitions (filter (location_active cp) (gid_locations d))"
proof -
  have "addrs = map fst (List.map_filter (match_location partitions (gid_stream_id d))
      (filter (location_active cp) (gid_locations d)))"
    using assms(2) by (simp add: get_addresses_for_stream_def Let_def split: if_splits)
  then show ?thesis
    using matched_address_ranges [OF assms(1)] by (simp add: comp_def)
qed

lemma get_addresses_Ok_iff:
  "get_addresses partitions cp ids details = Ok addrs \<longleftrightarrow>
     (\<exists>ds ass. map (\<lambda>sid. find (\<lambda>d. gid_stream_id d = sid) details) ids = map Some ds \<and>
        map (get_addresses_for_stream partitions cp) ds = map Ok ass \<and> addrs = concat ass)"
proof -
  have "map (\<lambda>sid. ok_or (find (\<lambda>d. gid_stream_id d = sid) details) e) ids = map Ok ds \<longleftrightarrow>
      map (\<lambda>sid. find (\<lambda>d. gid_stream_id d = sid) details) ids = map Some ds" for ds e
    by (simp add: list_eq_iff_nth_eq result_simps cong: conj_cong)
  then show ?thesis
    by (auto simp: get_addresses_def result_simps collect_results_Ok_iff)
qed

subsection \<open>Properties\<close>

text \<open>
  \<open>find_current_generation\<close> returns the last generation of the list all of whose
  start conditions on the operator's streams are met by the marker, and fails exactly
  when no generation of the list has its conditions met.
\<close>

theorem find_current_generation_last:
  "case find_current_generation ids gens n of
     Ok g \<Rightarrow> \<exists>before after. gens = before @ g # after \<and> generation_valid ids n g \<and>
       (\<forall>g' \<in> set after. \<not> generation_valid ids n g')
   | Err e \<Rightarrow> (\<forall>g \<in> set gens. \<not> generation_valid ids n g)"
  using find_current_generation_Ok_iff [of ids gens n] find_current_generation_Err_iff [of ids gens n]
  by (auto split: result.split)

definition example_generations :: "generation_spec list" where
  "example_generations =
     [\<lparr>gs_id = ''a'', gs_partitions = pr_unit, gs_start_conditions = []\<rparr>,
      \<lparr>gs_id = ''b'', gs_partitions = pr_unit, gs_start_conditions = [(''s'', AnyTimeAfter 3)]\<rparr>]"

theorem find_current_generation_last_witness:
  "(case find_current_generation [''s''] example_generations 2 of
     Ok g \<Rightarrow> \<exists>before after. example_generations = before @ g # after \<and>
       generation_valid [''s''] 2 g \<and> (\<forall>g' \<in> set after. \<not> generation_valid [''s''] 2 g')
   | Err e \<Rightarrow> (\<forall>g \<in> set example_generations. \<not> generation_valid [''s''] 2 g)) \<and>
   map_result gs_id (find_current_generation [''s''] example_generations 2) = Ok ''a''"
  using find_current_generation_last [where ids = "[''s'']" and gens = example_generations and n = 2]
  by (simp add: find_current_generation_def example_generations_def generation_valid_def)

text \<open>
  Generations only move forward.  When a marker grows, the lookup keeps succeeding
  and the generation it selects is the earlier one or one listed after it.
\<close>

theorem find_current_generation_forward:
  assumes "find_current_generation ids gens n = Ok g" and "n \<le> m"
  shows "\<exists>before after g'. gens = before @ g # after \<and>
    find_current_generation ids gens m = Ok g' \<and> g' \<in> set (g # after)"
proof -
  obtain before after where gens: "gens = before @ g # after" and "generation_valid ids n g"
    using assms(1) by (auto simp: find_current_generation_Ok_iff)
  then have valid: "generation_valid ids m g" using assms(2) by (blast intro: generation_valid_mono)
  show ?thesis
  proof (cases "\<exists>g' \<in> set after. generation_valid ids m g'")
    case True
    then obtain ys g' zs where "after = ys @ g' # zs" "generation_valid ids m g'"
        "\<forall>z \<in> set zs. \<not> generation_valid ids m z"
      by (metis split_list_last_prop)
    then have "find_current_generation ids gens m = Ok g'"
      unfolding find_current_generation_Ok_iff gens
      by (intro exI [of _ "before @ g # ys"] exI [of _ zs]) simp
    with gens \<open>after = ys @ g' # zs\<close> show ?thesis
      by (intro exI [of _ before] exI [of _ after] exI [of _ g']) simp
  next
    case False
    with gens valid have "find_current_generation ids gens m = Ok g"
      unfolding find_current_generation_Ok_iff by blast
    with gens show ?thesis by (intro exI [of _ before] exI [of _ after] exI [of _ g]) simp
  qed
qed

theorem find_current_generation_forward_witness:
  "\<exists>before after g'. example_generations = before @ hd example_generations # after \<and>
    find_current_generation [''s''] example_generations 7 = Ok g' \<and>
    g' \<in> set (hd example_generations # after)"
  using find_current_generation_forward [of "[''s'']" example_generations 2 "hd example_generations" 7]
  by (simp add: find_current_generation_def example_generations_def generation_valid_def)

text \<open>
  C22: address resolution is sound and complete for locations that do not overlap.  The
  lookup for a non-empty partition range succeeds exactly when every requested partition
  is advertised by some location active at the checkpoint, and then exactly one of the
  returned addresses is asked for each requested partition.
\<close>

theorem get_addresses_for_stream_covers:
  assumes "range_ok partitions" and "\<not> pr_is_empty partitions"
    and "locs = filter (location_active cp) (gid_locations d)"
    and "\<forall>l \<in> set locs. range_ok (gil_partitions l)"
    and "\<forall>i. serves (map gil_partitions locs) i \<le> 1"
  shows "(is_ok (get_addresses_for_stream partitions cp d) \<longleftrightarrow>
      (\<forall>i. in_range partitions i \<longrightarrow> (\<exists>l \<in> set locs. in_range (gil_partitions l) i))) \<and>
    (\<forall>addrs i. get_addresses_for_stream partitions cp d = Ok addrs \<and> in_range partitions i \<longrightarrow>
      serves (map (\<lambda>a. snd (snd a)) addrs) i = 1)"
proof -
  let ?served = "{i. in_range partitions i \<and> 0 < serves (map gil_partitions locs) i}"
  have "is_ok (get_addresses_for_stream partitions cp d) \<longleftrightarrow> card ?served = card {i. in_range partitions i}"
    unfolding get_addresses_for_stream_is_ok [OF assms(2)] assms(3) [symmetric]
      found_ranges_size [OF assms(1,4,5)] pr_size_card [OF assms(1)] ..
  also have "\<dots> \<longleftrightarrow> ?served = {i. in_range partitions i}"
    by (metis (no_types, lifting) card_subset_eq finite_in_range mem_Collect_eq subsetI)
  also have "\<dots> \<longleftrightarrow> (\<forall>i. in_range partitions i \<longrightarrow> 0 < serves (map gil_partitions locs) i)"
    by blast
  finally have ok: "is_ok (get_addresses_for_stream partitions cp d) \<longleftrightarrow>
      (\<forall>i. in_range partitions i \<longrightarrow> 0 < serves (map gil_partitions locs) i)" .
  have "serves (map (\<lambda>a. snd (snd a)) addrs) i = 1"
    if "get_addresses_for_stream partitions cp d = Ok addrs" and "in_range partitions i" for addrs i
  proof -
    have "0 < serves (map gil_partitions locs) i" using ok that by (auto simp: is_ok_iff)
    with assms(5) have "serves (map gil_partitions locs) i = 1"
      by (metis One_nat_def Suc_leI le_antisym)
    then show ?thesis
      using get_addresses_for_stream_ranges [OF assms(2) that(1)] assms(1,3,4) that(2)
      by (simp add: serves_found_ranges)
  qed
  with ok show ?thesis by (auto simp: serves_pos_iff)
qed

definition example_detail :: generation_input_detail where
  "example_detail = \<lparr>gid_stream_id = ''s'', gid_locations =
     [\<lparr>gil_address = ''x'', gil_offset_range = (0, 9), gil_partitions = pr_new 0 2 4\<rparr>,
      \<lparr>gil_address = ''y'', gil_offset_range = (0, 9), gil_partitions = pr_new 2 4 4\<rparr>]\<rparr>"

theorem get_addresses_for_stream_covers_witness:
  "is_ok (get_addresses_for_stream (pr_new 1 4 4) 5 example_detail) \<longleftrightarrow>
    (\<forall>i. in_range (pr_new 1 4 4) i \<longrightarrow>
      (\<exists>l \<in> set (gid_locations example_detail). in_range (gil_partitions l) i))"
proof -
  have "range_ok (pr_new 1 4 4)" "\<not> pr_is_empty (pr_new 1 4 4)"
    "gid_locations example_detail = filter (location_active 5) (gid_locations example_detail)"
    "\<forall>l \<in> set (gid_locations example_detail). range_ok (gil_partitions l)"
    "\<forall>i. serves (map gil_partitions (gid_locations example_detail)) i \<le> 1"
    by (auto simp: range_ok_def pr_new_def pr_is_empty_def example_detail_def location_active_def
        usize_limit_def in_range_def)
  from get_addresses_for_stream_covers [OF this] show ?thesis by blast
qed

text \<open>
  The size comparison is not a coverage check when advertised locations overlap.
  Two active locations that both hold partitions 0 and 1 of 4 are accepted for a request
  of all four partitions, although partition 3 is served by no returned address.
\<close>

lemma get_addresses_overlap_accepted:
  "\<exists>addrs. get_addresses (pr_new 0 4 4) 0 [''s'']
      [\<lparr>gid_stream_id = ''s'', gid_locations =
         [\<lparr>gil_address = ''x'', gil_offset_range = (0, 9), gil_partitions = pr_new 0 2 4\<rparr>,
          \<lparr>gil_address = ''y'', gil_offset_range = (0, 9), gil_partitions = pr_new 0 2 4\<rparr>]\<rparr>] = Ok addrs \<and>
    serves (map (\<lambda>a. snd (snd a)) addrs) 0 = 2 \<and> serves (map (\<lambda>a. snd (snd a)) addrs) 3 = 0"
  by (simp add: get_addresses_def get_addresses_for_stream_def match_location_def location_active_def
      Let_def pr_new_def pr_is_empty_def pr_intersection_def pr_size_def usize_sum_def usize_sub_def usize_add_def
      usize_limit_def in_range_def)

end
