(* ===== verification/Action_Stream.thy ===== *)
theory Action_Stream
  imports Prelude
begin

text \<open>
  \<open>src/streaming/action_stream.rs\<close>: markers, stream items and the merge of several
  input streams at checkpoint markers.

  A stream is the finite list of answers its polls give: \<open>Pending\<close> or a ready item; a
  stream whose list is used up keeps answering that it is finished, as a fused stream
  does.  The order in which \<open>poll_next\<close> visits the unblocked inputs is drawn at random
  in the source; here the shuffle is an argument, any function that permutes its list.

  The invariant \<open>merged_inv\<close> relates what was emitted to what each input held; from it
  follow that markers are aligned (every input is delivered item by item in its own order,
  and a marker is emitted exactly between the items that surround it in every input) and
  that polling finishes.
\<close>

subsection \<open>Items\<close>

datatype marker = Marker (checkpoint_number: u64)

datatype 'b stream_item = ItemMarker marker | ItemBatch 'b

datatype 'b ordinal_stream_item = OrdMarker marker | OrdBatch usize 'b

text \<open>The items operators exchange (\<open>SItem\<close> of \<open>operators/task_function.rs\<close>).\<close>

datatype 'b sitem = SBatch 'b | SMarker marker | SGeneration usize

fun sitem_of_stream_item :: "'b stream_item \<Rightarrow> 'b sitem" where
  "sitem_of_stream_item (ItemBatch batch) = SBatch batch"
| "sitem_of_stream_item (ItemMarker marker) = SMarker marker"

subsection \<open>Polling a stream\<close>

datatype 'a poll = Pending | Ready 'a

type_synonym 'a script = "'a poll list"

fun poll_script :: "'a script \<Rightarrow> 'a option poll \<times> 'a script" where
  "poll_script [] = (Ready None, [])"
| "poll_script (Pending # rest) = (Pending, rest)"
| "poll_script (Ready x # rest) = (Ready (Some x), rest)"

subsection \<open>The merged stream\<close>

record 'b input_stream =
  is_ordinal :: usize
  is_blocked :: bool
  is_stream :: "'b stream_item result script"

record 'b merged_action_stream =
  mas_inputs :: "'b input_stream list"
  mas_current_checkpoint :: "u64 option"

definition merge_inputs ::
  "(usize \<times> 'b stream_item result script) list \<Rightarrow> 'b merged_action_stream" where
  "merge_inputs inputs =
     \<lparr>mas_inputs = map (\<lambda>x. \<lparr>is_ordinal = fst x, is_blocked = False, is_stream = snd x\<rparr>) inputs,
      mas_current_checkpoint = None\<rparr>"

definition unblocked_indices :: "'b merged_action_stream \<Rightarrow> nat list" where
  "unblocked_indices s =
     filter (\<lambda>i. \<not> is_blocked (mas_inputs s ! i)) [0 ..< length (mas_inputs s)]"

definition set_stream ::
  "nat \<Rightarrow> 'b stream_item result script \<Rightarrow> 'b merged_action_stream \<Rightarrow> 'b merged_action_stream" where
  "set_stream i rest s =
     s\<lparr>mas_inputs := (mas_inputs s)[i := (mas_inputs s ! i)\<lparr>is_stream := rest\<rparr>]\<rparr>"

text \<open>
  The marker branch: block the input; the first marker of a round is remembered, a
  different one is only logged by the source.
\<close>

definition receive_marker :: "nat \<Rightarrow> marker \<Rightarrow> 'b merged_action_stream \<Rightarrow> 'b merged_action_stream" where
  "receive_marker i marker s =
     s\<lparr>mas_inputs := (mas_inputs s)[i := (mas_inputs s ! i)\<lparr>is_blocked := True\<rparr>],
       mas_current_checkpoint :=
         (case mas_current_checkpoint s of
            Some current_checkpoint \<Rightarrow> Some current_checkpoint
          | None \<Rightarrow> Some (checkpoint_number marker))\<rparr>"

text \<open>
  The loop over the unblocked inputs: an early return, or falling through with the
  \<open>some_pending\<close> flag.
\<close>

fun poll_inputs ::
  "nat list \<Rightarrow> bool \<Rightarrow> 'b merged_action_stream
     \<Rightarrow> 'b ordinal_stream_item result option \<times> bool \<times> 'b merged_action_stream" where
  "poll_inputs [] some_pending s = (None, some_pending, s)"
| "poll_inputs (i # is) some_pending s =
     (let input = mas_inputs s ! i;
          (polled, rest) = poll_script (is_stream input);
          s' = set_stream i rest s
      in case polled of
           Ready (Some (Ok (ItemBatch batch))) \<Rightarrow>
             (Some (Ok (OrdBatch (is_ordinal input) batch)), some_pending, s')
         | Ready (Some (Ok (ItemMarker marker))) \<Rightarrow>
             poll_inputs is some_pending (receive_marker i marker s')
         | Ready (Some (Err err)) \<Rightarrow> (Some (Err err), some_pending, s')
         | Pending \<Rightarrow> poll_inputs is True s'
         | Ready None \<Rightarrow> poll_inputs is some_pending s')"

definition release_marker :: "'b merged_action_stream \<Rightarrow> 'b merged_action_stream" where
  "release_marker s =
     s\<lparr>mas_current_checkpoint := None,
       mas_inputs := map (\<lambda>input. input\<lparr>is_blocked := False\<rparr>) (mas_inputs s)\<rparr>"

definition merged_poll_next ::
  "(nat list \<Rightarrow> nat list) \<Rightarrow> 'b merged_action_stream
     \<Rightarrow> 'b ordinal_stream_item result option poll \<times> 'b merged_action_stream" where
  "merged_poll_next shuffle s =
     (case poll_inputs (shuffle (unblocked_indices s)) False s of
        (Some r, some_pending, s') \<Rightarrow> (Ready (Some r), s')
      | (None, some_pending, s') \<Rightarrow>
          if some_pending then (Pending, s')
          else if list_ex is_blocked (mas_inputs s')
          then (case mas_current_checkpoint s' of
                  Some n \<Rightarrow> (Ready (Some (Ok (OrdMarker (Marker n)))), release_marker s')
                | None \<Rightarrow> (Ready None, s'))
          else (Ready None, s'))"

text \<open>
  A consumer that polls until the merge is finished, with a bound on the number of polls.
  The answer is the emitted items and whether the end was reached.
\<close>

fun merged_run ::
  "(nat \<Rightarrow> nat list \<Rightarrow> nat list) \<Rightarrow> nat \<Rightarrow> 'b merged_action_stream
     \<Rightarrow> 'b ordinal_stream_item result list \<times> bool" where
  "merged_run shuffle 0 s = ([], False)"
| "merged_run shuffle (Suc fuel) s =
     (case merged_poll_next (shuffle fuel) s of
        (Pending, s') \<Rightarrow> merged_run shuffle fuel s'
      | (Ready None, s') \<Rightarrow> ([], True)
      | (Ready (Some r), s') \<Rightarrow>
          (case merged_run shuffle fuel s' of (out, done) \<Rightarrow> (r # out, done)))"

subsection \<open>What is left of each input\<close>

text \<open>
  \<open>ready_items\<close> are the items a script still delivers; \<open>view\<close> adds in front the
  marker a blocked input has already handed over but that was not emitted yet.
\<close>

fun ready_items :: "'a result script \<Rightarrow> 'a list" where
  "ready_items [] = []"
| "ready_items (Ready (Ok x) # rest) = x # ready_items rest"
| "ready_items (Ready (Err e) # rest) = ready_items rest"
| "ready_items (Pending # rest) = ready_items rest"

fun no_errors :: "'a result script \<Rightarrow> bool" where
  "no_errors [] = True"
| "no_errors (Ready (Err e) # rest) = False"
| "no_errors (x # rest) = no_errors rest"

fun markers_of :: "'b stream_item list \<Rightarrow> marker list" where
  "markers_of [] = []"
| "markers_of (ItemMarker marker # rest) = marker # markers_of rest"
| "markers_of (ItemBatch b # rest) = markers_of rest"

definition view :: "u64 option \<Rightarrow> 'b input_stream \<Rightarrow> 'b stream_item list" where
  "view cp input =
     (case cp of
        Some n \<Rightarrow> if is_blocked input then [ItemMarker (Marker n)] else []
      | None \<Rightarrow> []) @ ready_items (is_stream input)"

definition view_at :: "'b merged_action_stream \<Rightarrow> nat \<Rightarrow> 'b stream_item list" where
  "view_at s i = view (mas_current_checkpoint s) (mas_inputs s ! i)"

text \<open>What an emitted item is for the input with a given ordinal.\<close>

fun project_item :: "usize \<Rightarrow> 'b ordinal_stream_item \<Rightarrow> 'b stream_item list" where
  "project_item ordinal (OrdMarker marker) = [ItemMarker marker]"
| "project_item ordinal (OrdBatch ordinal' batch) =
     (if ordinal = ordinal' then [ItemBatch batch] else [])"

definition project :: "usize \<Rightarrow> 'b ordinal_stream_item list \<Rightarrow> 'b stream_item list" where
  "project ordinal out = concat (map (project_item ordinal) out)"

definition merged_inv :: "'b merged_action_stream \<Rightarrow> bool" where
  "merged_inv s \<longleftrightarrow>
     distinct (map is_ordinal (mas_inputs s)) \<and>
     (\<forall>input \<in> set (mas_inputs s). no_errors (is_stream input)) \<and>
     (mas_current_checkpoint s = None \<longleftrightarrow> \<not> list_ex is_blocked (mas_inputs s)) \<and>
     (\<exists>ms. \<forall>input \<in> set (mas_inputs s). markers_of (view (mas_current_checkpoint s) input) = ms)"

definition merged_work :: "'b merged_action_stream \<Rightarrow> nat" where
  "merged_work s =
     (\<Sum>input \<leftarrow> mas_inputs s. 2 * length (is_stream input) + (if is_blocked input then 1 else 0))"

text \<open>
  One step of the loop on input \<open>i\<close>, without the recursion: what the input is
  replaced by and the remembered checkpoint.
\<close>

definition put_input ::
  "nat \<Rightarrow> 'b input_stream \<Rightarrow> u64 option \<Rightarrow> 'b merged_action_stream \<Rightarrow> 'b merged_action_stream" where
  "put_input i input cp s = s\<lparr>mas_inputs := (mas_inputs s)[i := input], mas_current_checkpoint := cp\<rparr>"

lemma put_input_sel [simp]:
  "mas_inputs (put_input i input cp s) = (mas_inputs s)[i := input]"
  "mas_current_checkpoint (put_input i input cp s) = cp"
  by (simp_all add: put_input_def)

lemma set_stream_put_input:
  "set_stream i rest s =
     put_input i ((mas_inputs s ! i)\<lparr>is_stream := rest\<rparr>) (mas_current_checkpoint s) s"
  by (simp add: set_stream_def put_input_def)

lemma receive_marker_put_input:
  "i < length (mas_inputs s) \<Longrightarrow>
   receive_marker i marker (set_stream i rest s) =
     put_input i ((mas_inputs s ! i)\<lparr>is_stream := rest, is_blocked := True\<rparr>)
       (case mas_current_checkpoint s of Some n \<Rightarrow> Some n | None \<Rightarrow> Some (checkpoint_number marker)) s"
  by (simp add: set_stream_def receive_marker_def put_input_def)

lemma sum_list_update_nat:
  "i < length xs \<Longrightarrow> sum_list (xs[i := y]) + xs ! i = sum_list xs + (y :: nat)"
proof (induction xs arbitrary: i)
  case (Cons x xs)
  then show ?case by (cases i) (auto simp: algebra_simps)
qed simp

lemma work_update:
  assumes "i < length (mas_inputs s)"
  shows "merged_work (put_input i input cp s) +
     (2 * length (is_stream (mas_inputs s ! i)) + (if is_blocked (mas_inputs s ! i) then 1 else 0)) =
   merged_work s + (2 * length (is_stream input) + (if is_blocked input then 1 else 0))"
  unfolding merged_work_def put_input_sel map_update
  using sum_list_update_nat [of i "map (\<lambda>input. 2 * length (is_stream input) +
      (if is_blocked input then 1 else 0)) (mas_inputs s)"] assms
  by simp

definition same_views :: "'b merged_action_stream \<Rightarrow> 'b merged_action_stream \<Rightarrow> bool" where
  "same_views s s' \<longleftrightarrow> map is_ordinal (mas_inputs s') = map is_ordinal (mas_inputs s) \<and>
     (\<forall>j < length (mas_inputs s). view_at s' j = view_at s j)"

lemma same_views_refl [simp]: "same_views s s"
  by (simp add: same_views_def)

lemma same_views_length: "same_views s s' \<Longrightarrow> length (mas_inputs s') = length (mas_inputs s)"
  unfolding same_views_def by (metis length_map)

lemma same_views_trans: "same_views s s' \<Longrightarrow> same_views s' s'' \<Longrightarrow> same_views s s''"
  using same_views_length [of s s'] by (simp add: same_views_def)

lemma map_is_ordinal_update:
  "i < length xs \<Longrightarrow> is_ordinal x = is_ordinal (xs ! i) \<Longrightarrow>
   map is_ordinal (xs[i := x]) = map is_ordinal xs"
  by (metis length_map list_update_id map_update nth_map)

lemma list_ex_update_unblocked:
  "i < length xs \<Longrightarrow> is_blocked x = is_blocked (xs ! i) \<Longrightarrow>
   list_ex is_blocked (xs[i := x]) = list_ex is_blocked xs"
  by (auto simp: list_ex_length nth_list_update)

lemma merged_inv_nth:
  "merged_inv s \<longleftrightarrow>
     distinct (map is_ordinal (mas_inputs s)) \<and>
     (\<forall>j < length (mas_inputs s). no_errors (is_stream (mas_inputs s ! j))) \<and>
     (mas_current_checkpoint s = None \<longleftrightarrow> \<not> list_ex is_blocked (mas_inputs s)) \<and>
     (\<exists>ms. \<forall>j < length (mas_inputs s). markers_of (view_at s j) = ms)"
  by (simp add: merged_inv_def view_at_def all_set_conv_all_nth)

lemma merged_inv_put:
  assumes inv: "merged_inv s" and i: "i < length (mas_inputs s)"
    and ord: "is_ordinal input = is_ordinal (mas_inputs s ! i)" and ok: "no_errors (is_stream input)"
    and cp: "cp = None \<longleftrightarrow> \<not> list_ex is_blocked ((mas_inputs s)[i := input])"
    and views: "\<And>j. j < length (mas_inputs s) \<Longrightarrow>
      markers_of (view_at (put_input i input cp s) j) = markers_of (view_at s j)"
  shows "merged_inv (put_input i input cp s)"
  using inv i ok cp views unfolding merged_inv_nth
  by (auto simp: map_is_ordinal_update [OF i ord] nth_list_update)

subsection \<open>The three kinds of poll of one input\<close>

lemma poll_quiet_input:
  assumes inv: "merged_inv s" and i: "i < length (mas_inputs s)"
    and st: "poll_script (is_stream (mas_inputs s ! i)) = (polled, rest)"
    and quiet: "polled = Pending \<or> polled = Ready None"
  shows "merged_inv (set_stream i rest s)" and "same_views s (set_stream i rest s)"
    and "merged_work (set_stream i rest s) \<le> merged_work s"
    and "polled = Pending \<Longrightarrow> merged_work (set_stream i rest s) < merged_work s"
proof -
  let ?in = "mas_inputs s ! i"
  have rest: "ready_items rest = ready_items (is_stream ?in) \<and> length rest \<le> length (is_stream ?in) \<and>
      (no_errors (is_stream ?in) \<longrightarrow> no_errors rest) \<and>
      (polled = Pending \<longrightarrow> length rest < length (is_stream ?in))"
    using st quiet by (cases "is_stream ?in" rule: poll_script.cases) auto
  have views: "view_at (set_stream i rest s) j = view_at s j" if "j < length (mas_inputs s)" for j
    using that i rest by (cases "j = i")
      (auto simp: set_stream_put_input view_at_def view_def split: option.splits)
  then show "same_views s (set_stream i rest s)"
    using i by (simp add: same_views_def set_stream_put_input map_is_ordinal_update)
  show "merged_inv (set_stream i rest s)"
    unfolding set_stream_put_input
  proof (rule merged_inv_put [OF inv i])
    show "no_errors (is_stream (?in\<lparr>is_stream := rest\<rparr>))"
      using rest inv i by (simp add: merged_inv_nth)
    show "mas_current_checkpoint s = None \<longleftrightarrow>
        \<not> list_ex is_blocked ((mas_inputs s)[i := ?in\<lparr>is_stream := rest\<rparr>])"
      using inv i by (simp add: merged_inv_def list_ex_update_unblocked)
  qed (use views in \<open>auto simp: set_stream_put_input\<close>)
  show "merged_work (set_stream i rest s) \<le> merged_work s"
    using work_update [OF i, of "?in\<lparr>is_stream := rest\<rparr>" "mas_current_checkpoint s"] rest by (simp add: set_stream_put_input)
  show "merged_work (set_stream i rest s) < merged_work s" if "polled = Pending"
    using work_update [OF i, of "?in\<lparr>is_stream := rest\<rparr>" "mas_current_checkpoint s"] rest that by (simp add: set_stream_put_input)
qed

lemma poll_batch_input:
  assumes inv: "merged_inv s" and i: "i < length (mas_inputs s)"
    and free: "\<not> is_blocked (mas_inputs s ! i)"
    and st: "is_stream (mas_inputs s ! i) = Ready (Ok (ItemBatch b)) # rest"
  shows "merged_inv (set_stream i rest s)"
    and "merged_work (set_stream i rest s) < merged_work s"
    and "j < length (mas_inputs s) \<Longrightarrow>
      view_at s j = (if j = i then [ItemBatch b] else []) @ view_at (set_stream i rest s) j"
proof -
  let ?in = "mas_inputs s ! i"
  show views: "view_at s j = (if j = i then [ItemBatch b] else []) @ view_at (set_stream i rest s) j"
    if "j < length (mas_inputs s)" for j
    using that i st free by (cases "j = i")
      (auto simp: set_stream_put_input view_at_def view_def split: option.splits)
  show "merged_inv (set_stream i rest s)"
    unfolding set_stream_put_input
  proof (rule merged_inv_put [OF inv i])
    show "no_errors (is_stream (?in\<lparr>is_stream := rest\<rparr>))"
      using st inv i by (force simp: merged_inv_nth)
    show "mas_current_checkpoint s = None \<longleftrightarrow>
        \<not> list_ex is_blocked ((mas_inputs s)[i := ?in\<lparr>is_stream := rest\<rparr>])"
      using inv i by (simp add: merged_inv_def list_ex_update_unblocked)
    show "markers_of (view_at (put_input i (?in\<lparr>is_stream := rest\<rparr>) (mas_current_checkpoint s) s) j) =
        markers_of (view_at s j)" if "j < length (mas_inputs s)" for j
      using views [OF that] by (simp add: set_stream_put_input split: if_splits)
  qed simp
  show "merged_work (set_stream i rest s) < merged_work s"
    using work_update [OF i, of "?in\<lparr>is_stream := rest\<rparr>" "mas_current_checkpoint s"] st by (simp add: set_stream_put_input)
qed

lemma poll_marker_input:
  assumes inv: "merged_inv s" and i: "i < length (mas_inputs s)"
    and free: "\<not> is_blocked (mas_inputs s ! i)"
    and st: "is_stream (mas_inputs s ! i) = Ready (Ok (ItemMarker m)) # rest"
    and s': "s' = receive_marker i m (set_stream i rest s)"
  shows "merged_inv s'" and "same_views s s'" and "merged_work s' < merged_work s"
    and "is_blocked (mas_inputs s' ! i)"
    and "j \<noteq> i \<Longrightarrow> mas_inputs s' ! j = mas_inputs s ! j"
proof -
  let ?in = "(mas_inputs s ! i)\<lparr>is_stream := rest, is_blocked := True\<rparr>"
  let ?cp = "case mas_current_checkpoint s of Some n \<Rightarrow> Some n | None \<Rightarrow> Some (checkpoint_number m)"
  have eq: "s' = put_input i ?in ?cp s" unfolding s' receive_marker_put_input [OF i] ..
  show "is_blocked (mas_inputs s' ! i)" and "j \<noteq> i \<Longrightarrow> mas_inputs s' ! j = mas_inputs s ! j"
    using i by (simp_all add: eq)
  have blocked: "list_ex is_blocked ((mas_inputs s)[i := ?in])"
    using i by (auto simp: list_ex_length nth_list_update)
  have cp: "?cp = Some (checkpoint_number m)"
  proof (cases "mas_current_checkpoint s")
    case (Some n)
    then obtain k where k: "k < length (mas_inputs s)" "is_blocked (mas_inputs s ! k)"
      using inv by (auto simp: merged_inv_def list_ex_length)
    have "markers_of (view_at s k) = markers_of (view_at s i)"
      using inv k(1) i by (metis merged_inv_nth)
    with k Some st free have "Marker n = m" by (simp add: view_at_def view_def)
    with Some show ?thesis by auto
  qed simp
  have views: "view_at s' j = view_at s j" if "j < length (mas_inputs s)" for j
  proof (cases "j = i")
    case True
    with i st free cp show ?thesis by (simp add: eq view_at_def view_def split: option.splits)
  next
    case False
    have "mas_current_checkpoint s = None \<Longrightarrow> \<not> is_blocked (mas_inputs s ! j)"
      using inv that by (auto simp: merged_inv_def list_ex_length)
    with False cp show ?thesis
      by (auto simp: eq view_at_def view_def split: option.splits)
  qed
  then show "same_views s s'" using i by (simp add: eq same_views_def map_is_ordinal_update)
  show "merged_inv s'"
    unfolding eq
  proof (rule merged_inv_put [OF inv i])
    show "no_errors (is_stream ?in)" using st inv i by (force simp: merged_inv_nth)
    show "?cp = None \<longleftrightarrow> \<not> list_ex is_blocked ((mas_inputs s)[i := ?in])"
      using blocked by (simp add: cp)
  qed (use views in \<open>simp_all add: eq\<close>)
  show "merged_work s' < merged_work s"
    using work_update [OF i, of ?in ?cp] st free by (simp add: eq)
qed

subsection \<open>One pass over the unblocked inputs\<close>

text \<open>The facts a pass that falls through, or returns early, establishes.\<close>

definition pass_quiet :: "nat list \<Rightarrow> bool \<Rightarrow> bool \<Rightarrow> 'b merged_action_stream \<Rightarrow> 'b merged_action_stream \<Rightarrow> bool" where
  "pass_quiet is p p' s s' \<longleftrightarrow> merged_inv s' \<and> same_views s s' \<and> merged_work s' \<le> merged_work s \<and>
     (p \<longrightarrow> p') \<and> (p' \<longrightarrow> p \<or> merged_work s' < merged_work s) \<and>
     (\<forall>j. j \<notin> set is \<longrightarrow> mas_inputs s' ! j = mas_inputs s ! j) \<and>
     (\<not> p' \<longrightarrow> (\<forall>j \<in> set is. is_blocked (mas_inputs s' ! j) \<or> is_stream (mas_inputs s' ! j) = []))"

definition pass_emits :: "'b ordinal_stream_item \<Rightarrow> 'b merged_action_stream \<Rightarrow> 'b merged_action_stream \<Rightarrow> bool" where
  "pass_emits x s s' \<longleftrightarrow> merged_inv s' \<and> merged_work s' < merged_work s \<and>
     map is_ordinal (mas_inputs s') = map is_ordinal (mas_inputs s) \<and>
     (\<forall>j < length (mas_inputs s).
        view_at s j = project_item (is_ordinal (mas_inputs s ! j)) x @ view_at s' j)"

lemma pass_emits_after_quiet:
  assumes "merged_inv s1" "same_views s s1" "merged_work s1 \<le> merged_work s" "pass_emits x s1 s'"
  shows "pass_emits x s s'"
proof -
  have "is_ordinal (mas_inputs s1 ! j) = is_ordinal (mas_inputs s ! j)"
    if "j < length (mas_inputs s)" for j
    using assms(2) that same_views_length [OF assms(2)] unfolding same_views_def
    by (metis nth_map)
  then show ?thesis
    using assms same_views_length [OF assms(2)] by (auto simp: pass_emits_def same_views_def)
qed

lemma pass_quiet_Cons:
  assumes "merged_inv s1" "same_views s s1" "merged_work s1 \<le> merged_work s"
    and "q = p \<or> (q \<and> merged_work s1 < merged_work s)"
    and "\<forall>j. j \<noteq> i \<longrightarrow> mas_inputs s1 ! j = mas_inputs s ! j"
    and "\<not> q \<Longrightarrow> is_blocked (mas_inputs s1 ! i) \<or> is_stream (mas_inputs s1 ! i) = []"
    and "i \<notin> set is" and "pass_quiet is q p' s1 s'"
  shows "pass_quiet (i # is) p p' s s'"
  using assms unfolding pass_quiet_def
  by (auto intro: same_views_trans)

definition pass_outcome ::
  "nat list \<Rightarrow> bool \<Rightarrow> 'b merged_action_stream
     \<Rightarrow> 'b ordinal_stream_item result option \<times> bool \<times> 'b merged_action_stream \<Rightarrow> bool" where
  "pass_outcome is p s outcome \<longleftrightarrow>
     (case outcome of
        (None, p', s') \<Rightarrow> pass_quiet is p p' s s'
      | (Some r, p', s') \<Rightarrow> \<exists>x. r = Ok x \<and> pass_emits x s s')"

lemma pass_outcome_Cons:
  assumes "merged_inv s1" "same_views s s1" "merged_work s1 \<le> merged_work s"
    and "q = p \<or> (q \<and> merged_work s1 < merged_work s)"
    and "\<forall>j. j \<noteq> i \<longrightarrow> mas_inputs s1 ! j = mas_inputs s ! j"
    and "\<not> q \<Longrightarrow> is_blocked (mas_inputs s1 ! i) \<or> is_stream (mas_inputs s1 ! i) = []"
    and "i \<notin> set is" and "pass_outcome is q s1 outcome"
  shows "pass_outcome (i # is) p s outcome"
  using assms(8) pass_quiet_Cons [OF assms(1-7)] pass_emits_after_quiet [OF assms(1-3)]
  by (auto simp: pass_outcome_def split: prod.splits option.splits)

lemma poll_batch_outcome:
  assumes inv: "merged_inv s" and i: "i < length (mas_inputs s)"
    and free: "\<not> is_blocked (mas_inputs s ! i)"
    and st: "is_stream (mas_inputs s ! i) = Ready (Ok (ItemBatch b)) # rest"
  shows "pass_emits (OrdBatch (is_ordinal (mas_inputs s ! i)) b) s (set_stream i rest s)"
proof -
  have "is_ordinal (mas_inputs s ! j) = is_ordinal (mas_inputs s ! i) \<longleftrightarrow> j = i"
    if "j < length (mas_inputs s)" for j
    using inv that i by (auto simp: merged_inv_def distinct_conv_nth)
  then show ?thesis
    using poll_batch_input [OF assms] i by (simp add: pass_emits_def set_stream_def map_is_ordinal_update)
qed

text \<open>The inputs still to be visited stay within bounds and unblocked.\<close>

definition visitable :: "nat list \<Rightarrow> 'b merged_action_stream \<Rightarrow> bool" where
  "visitable is s \<longleftrightarrow> distinct is \<and>
     (\<forall>i \<in> set is. i < length (mas_inputs s) \<and> \<not> is_blocked (mas_inputs s ! i))"

lemma visitable_step:
  assumes "visitable (i # is) s" and "length (mas_inputs s1) = length (mas_inputs s)"
    and "\<forall>j. j \<noteq> i \<longrightarrow> mas_inputs s1 ! j = mas_inputs s ! j"
  shows "visitable is s1"
proof -
  have "\<forall>k \<in> set is. k \<noteq> i" using assms(1) by (auto simp: visitable_def)
  with assms show ?thesis by (auto simp: visitable_def)
qed

lemma poll_inputs_outcome:
  assumes "merged_inv s" and "visitable is s"
  shows "pass_outcome is p s (poll_inputs is p s)"
  using assms
proof (induction "is" p s rule: poll_inputs.induct)
  case (1 p s)
  then show ?case by (simp add: pass_outcome_def pass_quiet_def)
next
  case (2 i "is" p s)
  have i: "i < length (mas_inputs s)" and free: "\<not> is_blocked (mas_inputs s ! i)"
    and new: "i \<notin> set is" using 2 by (auto simp: visitable_def)
  have ok: "no_errors (is_stream (mas_inputs s ! i))" using "2.prems"(1) i by (simp add: merged_inv_nth)
  obtain polled rest where st: "poll_script (is_stream (mas_inputs s ! i)) = (polled, rest)"
    by (cases "poll_script (is_stream (mas_inputs s ! i))")
  note IH = "2.IH" [OF refl refl st [symmetric] refl]
  let ?s1 = "set_stream i rest s"
  have others: "\<forall>k. k \<noteq> i \<longrightarrow> mas_inputs ?s1 ! k = mas_inputs s ! k"
    by (simp add: set_stream_def)
  have visit: "visitable is ?s1"
    by (rule visitable_step [OF "2.prems"(2) _ others]) (simp add: set_stream_def)
  show ?case
  proof (cases "is_stream (mas_inputs s ! i)" rule: ready_items.cases)
    case 1
    then have none: "polled = Ready None" and rest: "rest = []" using st by auto
    note facts = poll_quiet_input [OF "2.prems"(1) i st disjI2 [OF none]]
    have "is_stream (mas_inputs ?s1 ! i) = []" using i rest by (simp add: set_stream_def)
    with none show ?thesis
      using pass_outcome_Cons [OF facts(1-3) disjI1 [OF refl] others _ new IH(2) [OF none refl facts(1) visit]]
      by (simp add: st)
  next
    case (2 item rest')
    then have rest: "rest' = rest" and polled: "polled = Ready (Some (Ok item))" using st by auto
    show ?thesis
    proof (cases item)
      case (ItemMarker m)
      note facts = poll_marker_input [OF "2.prems"(1) i free 2 [unfolded ItemMarker rest] refl]
      have others': "\<forall>k. k \<noteq> i \<longrightarrow> mas_inputs (receive_marker i m ?s1) ! k = mas_inputs s ! k"
        using facts(5) by blast
      have "visitable is (receive_marker i m ?s1)"
        by (rule visitable_step [OF "2.prems"(2) same_views_length [OF facts(2)] others'])
      with polled ItemMarker IH(3) [OF polled refl refl ItemMarker facts(1)] show ?thesis
        using pass_outcome_Cons [OF facts(1,2) less_imp_le [OF facts(3)] disjI1 [OF refl] others' _ new]
          facts(4) by (simp add: st)
    next
      case (ItemBatch b)
      with poll_batch_outcome [OF "2.prems"(1) i free 2 [unfolded ItemBatch rest]] polled
      show ?thesis by (simp add: st pass_outcome_def)
    qed
  next
    case (3 e rest')
    with ok show ?thesis by simp
  next
    case (4 rest')
    then have pend: "polled = Pending" using st by auto
    note facts = poll_quiet_input [OF "2.prems"(1) i st disjI1 [OF pend]]
    from pend show ?thesis
      using pass_outcome_Cons [OF facts(1-3) disjI2 [OF conjI [OF TrueI facts(4) [OF pend]]] others _ new
          IH(1) [OF pend facts(1) visit]]
      by (simp add: st)
  qed
qed

subsection \<open>One poll and a whole run\<close>

lemma visitable_unblocked: "visitable (unblocked_indices s) s"
  by (auto simp: visitable_def unblocked_indices_def)

lemma visitable_shuffled: "mset is = mset js \<Longrightarrow> visitable is s \<longleftrightarrow> visitable js s"
  by (auto simp: visitable_def dest: mset_eq_setD mset_eq_imp_distinct_iff)

lemma view_release:
  assumes "i < length (mas_inputs s)" and "is_blocked (mas_inputs s ! i)"
    and "mas_current_checkpoint s = Some n"
  shows "view_at s i = ItemMarker (Marker n) # view_at (release_marker s) i"
  using assms by (simp add: view_at_def view_def release_marker_def)

lemma sum_list_strict_mono_nat:
  "(\<And>x. x \<in> set xs \<Longrightarrow> f x \<le> g x) \<Longrightarrow> \<exists>x \<in> set xs. f x < g x \<Longrightarrow>
   (\<Sum>x \<leftarrow> xs. f x) < (\<Sum>x \<leftarrow> xs. g x :: nat)"
proof (induction xs)
  case (Cons x xs)
  have "(\<Sum>x \<leftarrow> xs. f x) \<le> (\<Sum>x \<leftarrow> xs. g x)"
    using Cons.prems(1) by (intro sum_list_mono) auto
  with Cons show ?case by (cases "f x < g x") (auto simp: add_less_le_mono add_le_less_mono)
qed simp

lemma release_work:
  "list_ex is_blocked (mas_inputs s) \<Longrightarrow> merged_work (release_marker s) < merged_work s"
  unfolding merged_work_def release_marker_def
  by (auto simp: comp_def list_ex_iff intro!: sum_list_strict_mono_nat)

lemma all_blocked_at_release:
  assumes inv: "merged_inv s" and some: "list_ex is_blocked (mas_inputs s)"
    and quiet: "\<forall>i < length (mas_inputs s).
      is_blocked (mas_inputs s ! i) \<or> is_stream (mas_inputs s ! i) = []"
    and i: "i < length (mas_inputs s)"
  shows "is_blocked (mas_inputs s ! i)"
proof (rule ccontr)
  assume "\<not> is_blocked (mas_inputs s ! i)"
  with quiet i have "view_at s i = []" by (auto simp: view_at_def view_def split: option.splits)
  moreover obtain k where k: "k < length (mas_inputs s)" "is_blocked (mas_inputs s ! k)"
    using some by (auto simp: list_ex_length)
  moreover obtain n where "mas_current_checkpoint s = Some n"
    using inv some by (auto simp: merged_inv_def)
  moreover have "markers_of (view_at s k) = markers_of (view_at s i)"
    using inv i k(1) by (metis merged_inv_nth)
  ultimately show False by (simp add: view_at_def view_def)
qed

lemma release_emits:
  assumes inv: "merged_inv s" and some: "list_ex is_blocked (mas_inputs s)"
    and quiet: "\<forall>i < length (mas_inputs s).
      is_blocked (mas_inputs s ! i) \<or> is_stream (mas_inputs s ! i) = []"
    and cp: "mas_current_checkpoint s = Some n"
  shows "pass_emits (OrdMarker (Marker n)) s (release_marker s)"
proof -
  have views: "view_at s i = ItemMarker (Marker n) # view_at (release_marker s) i"
    if "i < length (mas_inputs s)" for i
    using view_release [OF that all_blocked_at_release [OF inv some quiet that] cp] .
  have len: "length (mas_inputs (release_marker s)) = length (mas_inputs s)"
    by (simp add: release_marker_def)
  have "\<exists>ms. \<forall>j < length (mas_inputs s). markers_of (view_at (release_marker s) j) = ms"
  proof -
    obtain ms where "\<forall>j < length (mas_inputs s). markers_of (view_at s j) = ms"
      using inv by (auto simp: merged_inv_nth)
    then have "\<forall>j < length (mas_inputs s). markers_of (view_at (release_marker s) j) = tl ms"
      using views by (metis list.sel(3) markers_of.simps(2))
    then show ?thesis by blast
  qed
  then have "merged_inv (release_marker s)"
    using inv unfolding merged_inv_nth len
    by (simp add: release_marker_def comp_def list_ex_iff)
  with views release_work [OF some] show ?thesis
    by (simp add: pass_emits_def release_marker_def comp_def)
qed

lemma merged_poll_next_outcome:
  assumes inv: "merged_inv s" and shuffle: "\<And>xs. mset (shuffle xs) = mset xs"
  shows "case merged_poll_next shuffle s of
      (Pending, s') \<Rightarrow> merged_inv s' \<and> same_views s s' \<and> merged_work s' < merged_work s
    | (Ready None, s') \<Rightarrow> (\<forall>i < length (mas_inputs s). view_at s i = [])
    | (Ready (Some r), s') \<Rightarrow> \<exists>x. r = Ok x \<and> pass_emits x s s'"
proof -
  let ?is = "shuffle (unblocked_indices s)"
  obtain r p s' where poll: "poll_inputs ?is False s = (r, p, s')"
    by (cases "poll_inputs ?is False s") auto
  have out: "pass_outcome ?is False s (r, p, s')"
    using poll_inputs_outcome [OF inv, of ?is False] visitable_unblocked [of s]
      visitable_shuffled [OF shuffle] poll by metis
  show ?thesis
  proof (cases r)
    case (Some x)
    with out poll show ?thesis by (auto simp: merged_poll_next_def pass_outcome_def)
  next
    case None
    with out have q: "pass_quiet ?is False p s s'" by (simp add: pass_outcome_def)
    show ?thesis
    proof (cases p)
      case True
      with q poll None show ?thesis by (auto simp: merged_poll_next_def pass_quiet_def)
    next
      case False
      have inv': "merged_inv s'" and same: "same_views s s'" and le: "merged_work s' \<le> merged_work s"
        using q by (auto simp: pass_quiet_def)
      have "set ?is = set (unblocked_indices s)" using shuffle by (metis mset_eq_setD)
      with q False have quiet: "\<forall>i < length (mas_inputs s').
          is_blocked (mas_inputs s' ! i) \<or> is_stream (mas_inputs s' ! i) = []"
        using same_views_length [OF same] by (fastforce simp: pass_quiet_def unblocked_indices_def)
      show ?thesis
      proof (cases "list_ex is_blocked (mas_inputs s')")
        case True
        then obtain n where cp: "mas_current_checkpoint s' = Some n"
          using inv' by (auto simp: merged_inv_def)
        from pass_emits_after_quiet [OF inv' same le release_emits [OF inv' True quiet cp]]
        show ?thesis using poll None False True cp by (simp add: merged_poll_next_def)
      next
        case none: False
        have "view_at s' i = []" if "i < length (mas_inputs s')" for i
          using quiet none that by (auto simp: view_at_def view_def list_ex_length split: option.splits)
        then show ?thesis
          using poll None False none same same_views_length [OF same]
          by (simp add: merged_poll_next_def same_views_def)
      qed
    qed
  qed
qed

lemma map_is_ordinal_nth:
  assumes "map is_ordinal xs = map is_ordinal ys"
  shows "length xs = length ys" and "i < length ys \<Longrightarrow> is_ordinal (xs ! i) = is_ordinal (ys ! i)"
  using assms by (auto dest: map_eq_imp_length_eq simp: list_eq_iff_nth_eq)

lemma merged_run_outcome:
  assumes "merged_inv s" and "\<And>k xs. mset (shuffle k xs) = mset xs" and "merged_work s < fuel"
  shows "\<exists>out. merged_run shuffle fuel s = (map Ok out, True) \<and>
    (\<forall>i < length (mas_inputs s). project (is_ordinal (mas_inputs s ! i)) out = view_at s i)"
  using assms
proof (induction shuffle fuel s rule: merged_run.induct)
  case (2 shuffle fuel s)
  note outcome = merged_poll_next_outcome [OF "2.prems"(1), of "shuffle fuel", OF "2.prems"(2)]
  obtain polled s' where poll: "merged_poll_next (shuffle fuel) s = (polled, s')"
    by (cases "merged_poll_next (shuffle fuel) s")
  consider (pending) "polled = Pending" | (finished) "polled = Ready None"
    | (item) r where "polled = Ready (Some r)"
    by (metis option.exhaust poll.exhaust)
  then show ?case
  proof cases
    case pending
    with outcome poll have facts: "merged_inv s'" "same_views s s'" "merged_work s' < fuel"
      using "2.prems"(3) by auto
    from "2.IH"(1) [OF poll [symmetric] pending facts(1) "2.prems"(2) facts(3)] obtain out
      where "merged_run shuffle fuel s' = (map Ok out, True)"
        and "\<forall>i < length (mas_inputs s'). project (is_ordinal (mas_inputs s' ! i)) out = view_at s' i"
      by blast
    moreover from facts(2) have "map is_ordinal (mas_inputs s') = map is_ordinal (mas_inputs s)"
      by (simp add: same_views_def)
    note map_is_ordinal_nth [OF this]
    ultimately show ?thesis
      using facts(2) poll pending by (intro exI [of _ out]) (simp add: same_views_def)
  next
    case finished
    with outcome poll show ?thesis by (intro exI [of _ "[]"]) (simp add: project_def)
  next
    case item
    with outcome poll obtain x where x: "r = Ok x" "pass_emits x s s'" by auto
    then have facts: "merged_inv s'" "merged_work s' < fuel"
      using "2.prems"(3) by (auto simp: pass_emits_def)
    from "2.IH"(2) [OF poll [symmetric] item refl facts(1) "2.prems"(2) facts(2)] obtain out
      where "merged_run shuffle fuel s' = (map Ok out, True)"
        and "\<forall>i < length (mas_inputs s'). project (is_ordinal (mas_inputs s' ! i)) out = view_at s' i"
      by blast
    moreover from x(2) have "map is_ordinal (mas_inputs s') = map is_ordinal (mas_inputs s)"
      by (simp add: pass_emits_def)
    note map_is_ordinal_nth [OF this]
    ultimately show ?thesis
      using x poll item by (intro exI [of _ "x # out"]) (simp add: pass_emits_def project_def)
  qed
qed simp

lemma merge_inputs_inv:
  assumes "distinct (map fst inputs)" and "\<forall>(o', st) \<in> set inputs. no_errors st"
    and "\<forall>(o', st) \<in> set inputs. markers_of (ready_items st) = ms"
  shows "merged_inv (merge_inputs inputs)"
  using assms unfolding merged_inv_def
  by (intro conjI exI [of _ ms]) (auto simp: merge_inputs_def comp_def view_def list_ex_iff)

subsection \<open>Properties\<close>

text \<open>
  C7: checkpoint alignment of the merge.  Take inputs with distinct ordinals that deliver
  no error and carry the same sequence of markers, interleaved with pending polls in any
  way, and visit them in any order that permutes the unblocked inputs.  Then polling ends
  within twice the total number of polls the inputs answer plus one, and the emitted
  sequence, read from the side of any one input (its own batches and all markers), is
  exactly that input: nothing is lost, repeated or reordered, and each marker is emitted
  once, between the batches that surround it in every input.
\<close>

theorem merged_run_aligned:
  assumes "distinct (map fst inputs)" and "\<forall>(ordinal, st) \<in> set inputs. no_errors st"
    and "\<forall>(ordinal, st) \<in> set inputs. markers_of (ready_items st) = ms"
    and "\<And>k xs. mset (shuffle k xs) = mset xs"
    and "2 * (\<Sum>(ordinal, st) \<leftarrow> inputs. length st) < fuel"
  shows "\<exists>out. merged_run shuffle fuel (merge_inputs inputs) = (map Ok out, True) \<and>
    (\<forall>(ordinal, st) \<in> set inputs. project ordinal out = ready_items st)"
proof -
  have "merged_work (merge_inputs inputs) = 2 * (\<Sum>(ordinal, st) \<leftarrow> inputs. length st)"
    by (induction inputs) (auto simp: merged_work_def merge_inputs_def)
  with assms(5) have "merged_work (merge_inputs inputs) < fuel" by simp
  from merged_run_outcome [where shuffle = shuffle, OF merge_inputs_inv [OF assms(1-3)] assms(4) this] obtain out
    where run: "merged_run shuffle fuel (merge_inputs inputs) = (map Ok out, True)"
      and proj: "\<forall>i < length inputs. project (fst (inputs ! i)) out = ready_items (snd (inputs ! i))"
    by (auto simp: merge_inputs_def view_at_def view_def)
  have "project ordinal out = ready_items st" if "(ordinal, st) \<in> set inputs" for ordinal st
  proof -
    from that obtain i where "i < length inputs" "inputs ! i = (ordinal, st)"
      by (metis in_set_conv_nth)
    with proj show ?thesis by force
  qed
  with run show ?thesis by blast
qed

theorem merged_run_aligned_witness:
  "\<exists>out. merged_run (\<lambda>k. rev) 15 (merge_inputs
        [(0, [Ready (Ok (ItemBatch ''a'')), Pending, Ready (Ok (ItemMarker (Marker 1)))]),
         (1, [Ready (Ok (ItemMarker (Marker 1))), Pending, Ready (Ok (ItemBatch ''b''))])]) =
      (map Ok out, True) \<and>
    project 0 out = [ItemBatch ''a'', ItemMarker (Marker 1)] \<and>
    project 1 out = [ItemMarker (Marker 1), ItemBatch ''b'']"
  using merged_run_aligned [of
      "[(0, [Ready (Ok (ItemBatch ''a'')), Pending, Ready (Ok (ItemMarker (Marker 1)))]),
        (1, [Ready (Ok (ItemMarker (Marker 1))), Pending, Ready (Ok (ItemBatch ''b''))])]"
      "[Marker 1]" "\<lambda>k. rev" 15]
  by simp

end
