(* ===== verification/Data_Channels.thy ===== *)
theory Data_Channels
  imports Partitioning Action_Stream
begin

text \<open>
  \<open>src/streaming/runtime/exchange_manager/data_channels.rs\<close>, \<open>once_notify.rs\<close> and
  the request handling of \<open>data_exchange_manager.rs\<close>: the channel a task writes its
  output to, the readers that follow it, and the store that finds a channel by stream id.

  A \<open>OnceNotify\<close> is an identity; the notified ones are listed in the channel.  Every
  critical section of the source (a read or write lock and its scope) is one atomic
  definition, and \<open>chan_step\<close> interleaves the sections of one sender and one reader;
  readers do not change the channel, so several readers behave as one does.

  The theorems show by rule induction that a reader has always seen exactly a prefix of
  what was sent, that no wake-up is lost, and that after the sender is gone a reader stops
  with everything that was sent.  Two more describe what the code does with errors: an
  error sent before the sender is dropped is not seen by later readers, and a reader can
  be told the channel was closed when the drop falls between its two lock sections.
\<close>

subsection \<open>Channels and senders\<close>

datatype channel_status =
    StRunning
  | StFinished
  | StError df_error
  | StCancelled (last_checkpoint: usize) (valid_until: usize)

record 'b channel_state =
  cs_items :: "'b stream_item list"
  cs_notification :: "nat option"
  cs_status :: channel_status
  cs_created :: nat
  cs_notified :: "nat list"

record channel_sender =
  snd_next_index :: usize
  snd_last_checkpoint :: usize

definition sender_new :: channel_sender where
  "sender_new = \<lparr>snd_next_index = 0, snd_last_checkpoint = 0\<rparr>"

definition channel_create :: "'b channel_state \<times> channel_sender" where
  "channel_create =
     (\<lparr>cs_items = [], cs_notification = Some 0, cs_status = StRunning, cs_created = 1,
       cs_notified = []\<rparr>,
      sender_new)"

text \<open>\<open>OnceNotify\<close>: closing the semaphore, and whether a waiter is let through.\<close>

definition once_notify :: "nat \<Rightarrow> 'b channel_state \<Rightarrow> 'b channel_state" where
  "once_notify n ch = ch\<lparr>cs_notified := n # cs_notified ch\<rparr>"

definition once_wait :: "nat \<Rightarrow> 'b channel_state \<Rightarrow> bool" where
  "once_wait n ch = (n \<in> set (cs_notified ch))"

text \<open>
  The locked part of \<open>send\<close> for an item: push it and replace the notification; the old
  one is handed to the unlocked part.
\<close>

definition send_write ::
  "'b stream_item \<Rightarrow> 'b channel_state \<Rightarrow> channel_sender
     \<Rightarrow> nat option \<times> 'b channel_state \<times> channel_sender" where
  "send_write item ch sender =
     (cs_notification ch,
      ch\<lparr>cs_items := cs_items ch @ [item], cs_notification := Some (cs_created ch),
         cs_created := Suc (cs_created ch)\<rparr>,
      \<lparr>snd_next_index = snd_next_index sender + 1,
       snd_last_checkpoint =
         (case item of ItemMarker marker \<Rightarrow> checkpoint_number marker
          | ItemBatch _ \<Rightarrow> snd_last_checkpoint sender)\<rparr>)"

text \<open>The unlocked part: \<open>notification.unwrap().notify()\<close>.\<close>

definition send_notify :: "nat option \<Rightarrow> 'b channel_state \<Rightarrow> 'b channel_state result" where
  "send_notify notification ch =
     (case notification of
        Some n \<Rightarrow> Ok (once_notify n ch)
      | None \<Rightarrow> Err (Panic ''called `Option::unwrap()` on a `None` value''))"

definition cancel_set_status :: "channel_status \<Rightarrow> 'b channel_state \<Rightarrow> 'b channel_state" where
  "cancel_set_status status ch = ch\<lparr>cs_status := status\<rparr>"

definition cancel_take :: "'b channel_state \<Rightarrow> nat option \<times> 'b channel_state" where
  "cancel_take ch = (cs_notification ch, ch\<lparr>cs_notification := None\<rparr>)"

definition cancel_notify :: "nat option \<Rightarrow> 'b channel_state \<Rightarrow> 'b channel_state" where
  "cancel_notify notification ch =
     (case notification of Some n \<Rightarrow> once_notify n ch | None \<Rightarrow> ch)"

definition cancel_with_status :: "channel_status \<Rightarrow> 'b channel_state \<Rightarrow> 'b channel_state" where
  "cancel_with_status status ch =
     (case cancel_take (cancel_set_status status ch) of
        (notification, ch') \<Rightarrow> cancel_notify notification ch')"

definition channel_send ::
  "'b stream_item result \<Rightarrow> 'b channel_state \<Rightarrow> channel_sender
     \<Rightarrow> ('b channel_state \<times> channel_sender) result" where
  "channel_send item ch sender =
     (case item of
        Ok item \<Rightarrow>
          (case send_write item ch sender of (notification, ch', sender') \<Rightarrow>
             map_result (\<lambda>ch''. (ch'', sender')) (send_notify notification ch'))
      | Err err \<Rightarrow> Ok (cancel_with_status (StError err) ch, sender))"

definition drop_status :: "channel_sender \<Rightarrow> channel_status" where
  "drop_status sender = StCancelled (snd_last_checkpoint sender) (snd_next_index sender)"

definition sender_drop :: "'b channel_state \<Rightarrow> channel_sender \<Rightarrow> 'b channel_state" where
  "sender_drop ch sender = cancel_with_status (drop_status sender) ch"

subsection \<open>Readers\<close>

datatype reader_pc =
    AtStatus
  | AtData bool
  | Waiting nat
  | Ended
  | Failed df_error

record 'b reader =
  rd_index :: usize
  rd_pc :: reader_pc
  rd_out :: "'b stream_item list"

definition new_reader :: "'b reader" where
  "new_reader = \<lparr>rd_index = 0, rd_pc = AtStatus, rd_out = []\<rparr>"

text \<open>The check of the status at the head of the loop.\<close>

definition read_status :: "'b channel_state \<Rightarrow> usize \<Rightarrow> reader_pc" where
  "read_status ch index =
     (case cs_status ch of
        StRunning \<Rightarrow> AtData False
      | StFinished \<Rightarrow> AtData True
      | StError e \<Rightarrow> Failed e
      | StCancelled checkpoint until \<Rightarrow>
          if index = until then Ended
          else if index \<ge> until then Failed (Execution ''Channel was cancelled at checkpoint'')
          else AtData True)"

text \<open>The read of the next item under the data lock and the match on it.\<close>

definition read_data :: "'b channel_state \<Rightarrow> bool \<Rightarrow> 'b reader \<Rightarrow> 'b reader" where
  "read_data ch is_finished r =
     (if rd_index r < length (cs_items ch)
      then r\<lparr>rd_index := rd_index r + 1, rd_pc := AtStatus,
             rd_out := rd_out r @ [cs_items ch ! rd_index r]\<rparr>
      else case cs_notification ch of
             Some notification \<Rightarrow>
               if is_finished then r\<lparr>rd_pc := Ended\<rparr> else r\<lparr>rd_pc := Waiting notification\<rparr>
           | None \<Rightarrow> r\<lparr>rd_pc := Failed (Execution ''Channel has been closed'')\<rparr>)"

definition reader_step :: "'b channel_state \<Rightarrow> 'b reader \<Rightarrow> 'b reader" where
  "reader_step ch r =
     (case rd_pc r of
        AtStatus \<Rightarrow> r\<lparr>rd_pc := read_status ch (rd_index r)\<rparr>
      | AtData is_finished \<Rightarrow> read_data ch is_finished r
      | Waiting n \<Rightarrow> if once_wait n ch then r\<lparr>rd_pc := AtStatus\<rparr> else r
      | Ended \<Rightarrow> r
      | Failed e \<Rightarrow> r)"

subsection \<open>The interleaving of a sender and a reader\<close>

text \<open>
  Where the sender is between its lock sections; \<open>bool\<close> tells whether the cancellation
  comes from \<open>drop\<close>.  A panicking sender is unwound, that is, dropped.
\<close>

datatype sender_pc =
    SIdle
  | SNotify "nat option"
  | SCancelTake bool
  | SCancelNotify bool "nat option"
  | SPanicked
  | SDropped

record 'b chan_sys =
  sy_chan :: "'b channel_state"
  sy_sender :: channel_sender
  sy_pc :: sender_pc
  sy_reader :: "'b reader"

definition sys_init :: "'b chan_sys" where
  "sys_init =
     \<lparr>sy_chan = fst channel_create, sy_sender = sender_new, sy_pc = SIdle,
      sy_reader = new_reader\<rparr>"

inductive chan_step :: "'b chan_sys \<Rightarrow> 'b chan_sys \<Rightarrow> bool" where
  step_send_write:
    "sy_pc s = SIdle \<Longrightarrow> send_write item (sy_chan s) (sy_sender s) = (notification, ch, sender) \<Longrightarrow>
     chan_step s (s\<lparr>sy_chan := ch, sy_sender := sender, sy_pc := SNotify notification\<rparr>)"
| step_send_notify:
    "sy_pc s = SNotify notification \<Longrightarrow> send_notify notification (sy_chan s) = Ok ch \<Longrightarrow>
     chan_step s (s\<lparr>sy_chan := ch, sy_pc := SIdle\<rparr>)"
| step_send_panic:
    "sy_pc s = SNotify notification \<Longrightarrow> send_notify notification (sy_chan s) = Err e \<Longrightarrow>
     chan_step s (s\<lparr>sy_pc := SPanicked\<rparr>)"
| step_send_error:
    "sy_pc s = SIdle \<Longrightarrow>
     chan_step s (s\<lparr>sy_chan := cancel_set_status (StError e) (sy_chan s), sy_pc := SCancelTake False\<rparr>)"
| step_drop:
    "sy_pc s = SIdle \<or> sy_pc s = SPanicked \<Longrightarrow>
     chan_step s (s\<lparr>sy_chan := cancel_set_status (drop_status (sy_sender s)) (sy_chan s),
                    sy_pc := SCancelTake True\<rparr>)"
| step_cancel_take:
    "sy_pc s = SCancelTake dropped \<Longrightarrow> cancel_take (sy_chan s) = (notification, ch) \<Longrightarrow>
     chan_step s (s\<lparr>sy_chan := ch, sy_pc := SCancelNotify dropped notification\<rparr>)"
| step_cancel_notify:
    "sy_pc s = SCancelNotify dropped notification \<Longrightarrow>
     chan_step s (s\<lparr>sy_chan := cancel_notify notification (sy_chan s),
                    sy_pc := (if dropped then SDropped else SIdle)\<rparr>)"
| step_reader:
    "chan_step s (s\<lparr>sy_reader := reader_step (sy_chan s) (sy_reader s)\<rparr>)"

abbreviation reachable :: "'b chan_sys \<Rightarrow> bool" where
  "reachable s \<equiv> chan_step\<^sup>*\<^sup>* sys_init s"

inductive_cases chan_stepE: "chan_step s s'"

subsection \<open>The invariant of the interleaving\<close>

definition sender_gone :: "sender_pc \<Rightarrow> bool" where
  "sender_gone pc =
     (case pc of SCancelTake d \<Rightarrow> d | SCancelNotify d n \<Rightarrow> d | SDropped \<Rightarrow> True | _ \<Rightarrow> False)"

definition status_inv :: "'b chan_sys \<Rightarrow> bool" where
  "status_inv s \<longleftrightarrow>
     snd_next_index (sy_sender s) = length (cs_items (sy_chan s)) \<and>
     (sender_gone (sy_pc s) \<longleftrightarrow> cs_status (sy_chan s) = drop_status (sy_sender s)) \<and>
     (\<not> sender_gone (sy_pc s) \<longrightarrow>
        cs_status (sy_chan s) = StRunning \<or> (\<exists>e. cs_status (sy_chan s) = StError e)) \<and>
     (sy_pc s = SDropped \<longrightarrow> cs_notification (sy_chan s) = None) \<and>
     (\<forall>d n. sy_pc s = SCancelNotify d n \<longrightarrow> cs_notification (sy_chan s) = None)"

definition prefix_inv :: "'b chan_sys \<Rightarrow> bool" where
  "prefix_inv s \<longleftrightarrow>
     rd_index (sy_reader s) \<le> length (cs_items (sy_chan s)) \<and>
     rd_out (sy_reader s) = take (rd_index (sy_reader s)) (cs_items (sy_chan s)) \<and>
     (rd_pc (sy_reader s) = Ended \<longrightarrow>
        sender_gone (sy_pc s) \<and> rd_index (sy_reader s) = length (cs_items (sy_chan s))) \<and>
     (rd_pc (sy_reader s) = AtData True \<longrightarrow>
        sender_gone (sy_pc s) \<and> rd_index (sy_reader s) < length (cs_items (sy_chan s)))"

definition wake_inv :: "'b chan_sys \<Rightarrow> bool" where
  "wake_inv s \<longleftrightarrow>
     (\<forall>n. cs_notification (sy_chan s) = Some n \<longrightarrow> n < cs_created (sy_chan s)) \<and>
     (\<forall>n. rd_pc (sy_reader s) = Waiting n \<longrightarrow>
        n < cs_created (sy_chan s) \<and>
        (cs_notification (sy_chan s) = Some n \<and>
           rd_index (sy_reader s) = length (cs_items (sy_chan s)) \<or>
         once_wait n (sy_chan s) \<or>
         sy_pc s = SNotify (Some n) \<or> (\<exists>d. sy_pc s = SCancelNotify d (Some n))))"

definition chan_inv :: "'b chan_sys \<Rightarrow> bool" where
  "chan_inv s \<longleftrightarrow> status_inv s \<and> prefix_inv s \<and> wake_inv s"

lemmas sender_defs = send_write_def send_notify_def cancel_set_status_def cancel_take_def
  cancel_notify_def once_notify_def drop_status_def

lemma status_inv_init: "status_inv sys_init"
  by (simp add: status_inv_def sys_init_def channel_create_def sender_new_def sender_gone_def drop_status_def)

lemma prefix_inv_init: "prefix_inv sys_init"
  by (simp add: prefix_inv_def sys_init_def channel_create_def new_reader_def)

lemma wake_inv_init: "wake_inv sys_init"
  by (simp add: wake_inv_def sys_init_def new_reader_def channel_create_def)

lemma status_inv_step: "status_inv s \<Longrightarrow> chan_step s s' \<Longrightarrow> status_inv s'"
  by (erule chan_stepE)
    (auto simp: status_inv_def sender_defs sender_gone_def split: option.splits if_splits)

lemma prefix_inv_sender:
  assumes "prefix_inv s" and "sy_reader s' = sy_reader s"
    and "cs_items (sy_chan s') = cs_items (sy_chan s) @ extra"
    and "sender_gone (sy_pc s) \<Longrightarrow> sender_gone (sy_pc s') \<and> extra = []"
  shows "prefix_inv s'"
  using assms by (auto simp: prefix_inv_def)

lemma prefix_inv_reader:
  assumes "prefix_inv s" and "status_inv s"
  shows "prefix_inv (s\<lparr>sy_reader := reader_step (sy_chan s) (sy_reader s)\<rparr>)"
proof (cases "rd_pc (sy_reader s)")
  case AtStatus
  with assms show ?thesis
    by (cases "sender_gone (sy_pc s)")
      (auto simp: prefix_inv_def status_inv_def reader_step_def read_status_def drop_status_def)
next
  case (AtData fin)
  with assms show ?thesis
    by (auto simp: prefix_inv_def reader_step_def read_data_def take_Suc_conv_app_nth
        split: option.splits)
qed (use assms in \<open>auto simp: prefix_inv_def reader_step_def\<close>)

lemma prefix_inv_step:
  assumes "prefix_inv s" and "status_inv s" and "chan_step s s'"
  shows "prefix_inv s'"
  using assms(3)
proof cases
  case (step_send_write item notification ch sender)
  with assms(1) show ?thesis
    by (intro prefix_inv_sender [where extra = "[item]", OF assms(1)])
      (auto simp: send_write_def sender_gone_def)
next
  case step_reader
  with prefix_inv_reader [OF assms(1,2)] show ?thesis by simp
qed (rule prefix_inv_sender [where extra = "[]", OF assms(1)];
    auto simp: sender_defs sender_gone_def split: option.splits if_splits)+

lemma wake_inv_step: "wake_inv s \<Longrightarrow> prefix_inv s \<Longrightarrow> chan_step s s' \<Longrightarrow> wake_inv s'"
  by (erule chan_stepE)
    (auto simp: wake_inv_def prefix_inv_def sender_defs once_wait_def reader_step_def read_status_def
      read_data_def split: option.splits if_splits channel_status.splits reader_pc.splits)

interpretation chan_system: invariant_system "\<lambda>s. s = sys_init" chan_step chan_inv
proof unfold_locales
  show "chan_inv s" if "s = sys_init" for s :: "'a chan_sys"
    using that by (simp add: chan_inv_def status_inv_init prefix_inv_init wake_inv_init)
  show "chan_inv s'" if "chan_inv s" "chan_step s s'" for s s' :: "'a chan_sys"
    using that unfolding chan_inv_def by (blast intro: status_inv_step prefix_inv_step wake_inv_step)
qed

lemma reachable_inv: "reachable s \<Longrightarrow> chan_inv s"
  by (rule chan_system.inv_reachable) auto

subsection \<open>Reading a channel whose sender is gone\<close>

lemma funpow_step: "(f ^^ n) (f x) = y \<Longrightarrow> (f ^^ Suc n) x = y"
  by (simp add: funpow_swap1)

lemma read_cancelled:
  assumes "cs_status ch = StCancelled c (length (cs_items ch))"
    and "rd_pc r = AtStatus" and "rd_index r \<le> length (cs_items ch)"
    and "rd_out r = take (rd_index r) (cs_items ch)"
  shows "(reader_step ch ^^ (2 * (length (cs_items ch) - rd_index r) + 1)) r =
    \<lparr>rd_index = length (cs_items ch), rd_pc = Ended, rd_out = cs_items ch\<rparr>"
  using assms(2-4)
proof (induction "length (cs_items ch) - rd_index r" arbitrary: r)
  case 0
  then show ?case using assms(1) by (cases r) (simp add: reader_step_def read_status_def)
next
  case (Suc k)
  let ?r = "r\<lparr>rd_index := rd_index r + 1, rd_out := rd_out r @ [cs_items ch ! rd_index r]\<rparr>"
  have lt: "rd_index r < length (cs_items ch)" using Suc.hyps(2) by simp
  have two: "reader_step ch (reader_step ch r) = ?r"
    using Suc.prems lt assms(1) by (cases r) (simp add: reader_step_def read_status_def read_data_def)
  have "(reader_step ch ^^ (2 * (length (cs_items ch) - rd_index ?r) + 1)) ?r =
      \<lparr>rd_index = length (cs_items ch), rd_pc = Ended, rd_out = cs_items ch\<rparr>"
    using Suc lt by (intro Suc.hyps(1)) (auto simp: take_Suc_conv_app_nth)
  moreover have "2 * (length (cs_items ch) - rd_index r) + 1 =
      Suc (Suc (2 * (length (cs_items ch) - rd_index ?r) + 1))" using lt by simp
  ultimately show ?case using two by (metis funpow_step)
qed

definition finishes :: "'b channel_state \<Rightarrow> 'b reader \<Rightarrow> bool" where
  "finishes ch r \<longleftrightarrow> (\<exists>k. rd_pc ((reader_step ch ^^ k) r) = Ended \<and>
     rd_out ((reader_step ch ^^ k) r) = cs_items ch)"

lemma finishes_step: "finishes ch (reader_step ch r) \<Longrightarrow> finishes ch r"
  unfolding finishes_def by (metis funpow_step)

lemma finishes_cancelled:
  assumes "cs_status ch = StCancelled c (length (cs_items ch))"
    and "rd_pc r = AtStatus" and "rd_index r \<le> length (cs_items ch)"
    and "rd_out r = take (rd_index r) (cs_items ch)"
  shows "finishes ch r"
  unfolding finishes_def using read_cancelled [OF assms]
  by (intro exI [of _ "2 * (length (cs_items ch) - rd_index r) + 1"]) simp

definition send_all ::
  "'b stream_item result list \<Rightarrow> ('b channel_state \<times> channel_sender) result" where
  "send_all items =
     fold_result (\<lambda>(ch, sender) item. channel_send item ch sender) channel_create items"

lemma send_all_ok:
  "\<exists>ch sender n. send_all (map Ok xs) = Ok (ch, sender) \<and> cs_items ch = xs \<and>
     snd_next_index sender = length xs \<and> cs_notification ch = Some n \<and> cs_status ch = StRunning"
proof (induction xs rule: rev_induct)
  case Nil
  then show ?case by (simp add: send_all_def channel_create_def sender_new_def)
next
  case (snoc x xs)
  then obtain ch sender n where "send_all (map Ok xs) = Ok (ch, sender)" "cs_items ch = xs"
    "snd_next_index sender = length xs" "cs_notification ch = Some n" "cs_status ch = StRunning" by blast
  then show ?case by (simp add: send_all_def fold_result_append channel_send_def sender_defs)
qed

lemma sender_drop_facts:
  "cs_items (sender_drop ch sender) = cs_items ch"
  "cs_status (sender_drop ch sender) = drop_status sender"
  "cs_notification (sender_drop ch sender) = None"
  by (simp_all add: sender_drop_def cancel_with_status_def sender_defs split: option.splits)

subsection \<open>Example states\<close>

definition example_blocked :: "nat chan_sys" where
  "example_blocked =
     sys_init\<lparr>sy_reader := \<lparr>rd_index = 0, rd_pc = Waiting 0, rd_out = []\<rparr>\<rparr>"

text \<open>One batch was written and read; the sender has yet to notify.\<close>

definition example_sys :: "nat chan_sys" where
  "example_sys =
     \<lparr>sy_chan = \<lparr>cs_items = [ItemBatch 7], cs_notification = Some 1, cs_status = StRunning,
        cs_created = 2, cs_notified = []\<rparr>,
      sy_sender = \<lparr>snd_next_index = 1, snd_last_checkpoint = 0\<rparr>, sy_pc = SNotify (Some 0),
      sy_reader = \<lparr>rd_index = 1, rd_pc = AtStatus, rd_out = [ItemBatch 7]\<rparr>\<rparr>"

definition example_dropped :: "nat chan_sys" where
  "example_dropped =
     example_sys\<lparr>sy_chan := \<lparr>cs_items = [ItemBatch 7], cs_notification = None,
         cs_status = StCancelled 0 1, cs_created = 2, cs_notified = [1, 0]\<rparr>,
       sy_pc := SDropped\<rparr>"

lemma example_blocked_reachable: "reachable example_blocked"
proof -
  let ?s1 = "sys_init\<lparr>sy_reader := \<lparr>rd_index = 0, rd_pc = AtData False, rd_out = []\<rparr>\<rparr> :: nat chan_sys"
  have "chan_step sys_init ?s1"
    using step_reader [of "sys_init :: nat chan_sys"]
    by (simp add: sys_init_def channel_create_def new_reader_def reader_step_def read_status_def)
  moreover have "chan_step ?s1 example_blocked"
    using step_reader [of ?s1]
    by (simp add: example_blocked_def sys_init_def channel_create_def reader_step_def read_data_def)
  ultimately show ?thesis by (meson rtranclp.rtrancl_into_rtrancl rtranclp.rtrancl_refl)
qed

lemma example_sys_reachable: "reachable example_sys"
proof -
  let ?s1 = "example_sys\<lparr>sy_reader := new_reader\<rparr>"
  let ?s2 = "?s1\<lparr>sy_reader := \<lparr>rd_index = 0, rd_pc = AtData False, rd_out = []\<rparr>\<rparr>"
  have "chan_step sys_init ?s1"
    using step_send_write [of "sys_init :: nat chan_sys" "ItemBatch 7"]
    by (simp add: sys_init_def channel_create_def sender_new_def example_sys_def send_write_def
        numeral_2_eq_2)
  moreover have "chan_step ?s1 ?s2"
    using step_reader [of ?s1]
    by (simp add: example_sys_def new_reader_def reader_step_def read_status_def)
  moreover have "chan_step ?s2 example_sys"
    using step_reader [of ?s2]
    by (simp add: example_sys_def reader_step_def read_data_def)
  ultimately show ?thesis by (meson rtranclp.rtrancl_into_rtrancl rtranclp.rtrancl_refl)
qed

text \<open>The same, with a reader that looked at the status before the drop.\<close>

definition example_raced :: "nat chan_sys" where
  "example_raced = example_dropped\<lparr>sy_reader := \<lparr>rd_index = 1, rd_pc = AtData False, rd_out = [ItemBatch 7]\<rparr>\<rparr>"

lemma example_drop_steps: "chan_step\<^sup>*\<^sup>* (example_sys\<lparr>sy_reader := r\<rparr>) (example_dropped\<lparr>sy_reader := r\<rparr>)"
proof -
  let ?ch = "\<lambda>no st ns. \<lparr>cs_items = [ItemBatch 7], cs_notification = no, cs_status = st,
      cs_created = 2, cs_notified = ns\<rparr> :: nat channel_state"
  let ?s0 = "example_sys\<lparr>sy_reader := r\<rparr>"
  let ?s1 = "?s0\<lparr>sy_chan := ?ch (Some 1) StRunning [0], sy_pc := SIdle\<rparr>"
  let ?s2 = "?s0\<lparr>sy_chan := ?ch (Some 1) (StCancelled 0 1) [0], sy_pc := SCancelTake True\<rparr>"
  let ?s3 = "?s0\<lparr>sy_chan := ?ch None (StCancelled 0 1) [0], sy_pc := SCancelNotify True (Some 1)\<rparr>"
  have "chan_step ?s0 ?s1"
    using step_send_notify [of ?s0 "Some 0"] by (simp add: example_sys_def sender_defs)
  moreover have "chan_step ?s1 ?s2"
    using step_drop [of ?s1] by (simp add: example_sys_def sender_defs)
  moreover have "chan_step ?s2 ?s3"
    using step_cancel_take [of ?s2 True] by (simp add: example_sys_def sender_defs)
  moreover have "chan_step ?s3 (example_dropped\<lparr>sy_reader := r\<rparr>)"
    using step_cancel_notify [of ?s3 True "Some 1"]
    by (simp add: example_sys_def example_dropped_def sender_defs)
  ultimately show ?thesis by (meson rtranclp.rtrancl_into_rtrancl rtranclp.rtrancl_refl)
qed

lemma example_dropped_reachable: "reachable example_dropped"
  using example_sys_reachable example_drop_steps [of "sy_reader example_sys"]
  by (simp add: example_dropped_def example_sys_def)

lemma example_raced_reachable: "reachable example_raced"
proof -
  have "chan_step example_sys (example_sys\<lparr>sy_reader := sy_reader example_raced\<rparr>)"
    using step_reader [of example_sys]
    by (simp add: example_sys_def example_raced_def reader_step_def read_status_def)
  moreover have "example_dropped\<lparr>sy_reader := sy_reader example_raced\<rparr> = example_raced" by (simp add: example_raced_def)
  ultimately show ?thesis
    using example_sys_reachable example_drop_steps [of "sy_reader example_raced"]
    by (metis rtranclp.rtrancl_into_rtrancl rtranclp_trans)
qed

subsection \<open>Properties of channels\<close>

text \<open>
  C5: a reader sees exactly what was sent, in order.  Whatever the interleaving of the lock
  sections of sender and reader, the items handed to the reader are a prefix of the items
  sent; a reader that reached the end of the stream has all of them, and the sender is gone.
\<close>

theorem reader_sees_prefix:
  assumes "reachable s"
  shows "\<exists>rest. cs_items (sy_chan s) = rd_out (sy_reader s) @ rest \<and>
    (rd_pc (sy_reader s) = Ended \<longrightarrow> rest = [] \<and> sender_gone (sy_pc s))"
  using reachable_inv [OF assms] unfolding chan_inv_def prefix_inv_def
  by (intro exI [of _ "drop (rd_index (sy_reader s)) (cs_items (sy_chan s))"]) auto

theorem reader_sees_prefix_witness:
  "\<exists>rest. cs_items (sy_chan example_sys) = rd_out (sy_reader example_sys) @ rest \<and>
    (rd_pc (sy_reader example_sys) = Ended \<longrightarrow> rest = [] \<and> sender_gone (sy_pc example_sys))"
  by (rule reader_sees_prefix [OF example_sys_reachable])

text \<open>
  C6: no wake-up is lost.  In a reachable state in which the sender is between two
  operations or gone, a reader that is still blocked has already been handed every item of
  the channel, and the sender is alive: there is nothing it should have been woken for.
\<close>

theorem blocked_reader_is_up_to_date:
  assumes "reachable s" and "sy_pc s = SIdle \<or> sy_pc s = SDropped"
    and "rd_pc (sy_reader s) = Waiting n" and "\<not> once_wait n (sy_chan s)"
  shows "rd_out (sy_reader s) = cs_items (sy_chan s) \<and> sy_pc s = SIdle"
  using reachable_inv [OF assms(1)] assms(2-4)
  by (auto simp: chan_inv_def wake_inv_def prefix_inv_def status_inv_def)

theorem blocked_reader_is_up_to_date_witness:
  "rd_out (sy_reader example_blocked) = cs_items (sy_chan example_blocked) \<and>
   sy_pc example_blocked = SIdle"
  using blocked_reader_is_up_to_date [OF example_blocked_reachable, of 0]
  by (simp add: example_blocked_def sys_init_def channel_create_def once_wait_def)

text \<open>
  C20: a reader is not left hanging.  Once the sender is gone, a reader that has not failed
  before gets every item that was sent and stops, in finitely many of its own steps.  It stops
  at the end of the stream, except in one state: a reader that has read everything, saw the
  channel running and has yet to look at the data gets the error that the channel has been
  closed.
\<close>

theorem reader_completes:
  assumes "reachable s" and "sy_pc s = SDropped" and "\<forall>e. rd_pc (sy_reader s) \<noteq> Failed e"
  shows "\<exists>k. rd_out ((reader_step (sy_chan s) ^^ k) (sy_reader s)) = cs_items (sy_chan s) \<and>
    rd_pc ((reader_step (sy_chan s) ^^ k) (sy_reader s)) =
      (if rd_pc (sy_reader s) = AtData False \<and> rd_index (sy_reader s) = length (cs_items (sy_chan s))
       then Failed (Execution ''Channel has been closed'') else Ended)"
proof -
  let ?ch = "sy_chan s" and ?r = "sy_reader s"
  have status: "cs_status ?ch = StCancelled (snd_last_checkpoint (sy_sender s)) (length (cs_items ?ch))"
    and idx: "rd_index ?r \<le> length (cs_items ?ch)" "rd_out ?r = take (rd_index ?r) (cs_items ?ch)"
    and woken: "\<And>n. rd_pc ?r = Waiting n \<Longrightarrow> once_wait n ?ch"
    and ended: "rd_pc ?r = Ended \<Longrightarrow> rd_out ?r = cs_items ?ch"
    and data: "rd_pc ?r = AtData True \<Longrightarrow> rd_index ?r < length (cs_items ?ch)"
    and taken: "cs_notification ?ch = None"
    using reachable_inv [OF assms(1)] assms(2)
    by (auto simp: chan_inv_def status_inv_def prefix_inv_def wake_inv_def sender_gone_def drop_status_def)
  note fin = finishes_cancelled [OF status]
  show ?thesis
  proof (cases "rd_pc ?r = AtData False \<and> rd_index ?r = length (cs_items ?ch)")
    case True
    with taken idx show ?thesis by (intro exI [of _ 1]) (simp add: reader_step_def read_data_def)
  next
    case race: False
    have "finishes ?ch ?r"
    proof (cases "rd_pc ?r")
      case AtStatus
      with fin idx show ?thesis by blast
    next
      case (AtData f)
      with race data idx have "rd_index ?r < length (cs_items ?ch)" by (cases f) auto
      with AtData idx fin [of "reader_step ?ch ?r"] show ?thesis
        by (intro finishes_step [of ?ch ?r])
          (simp add: reader_step_def read_data_def take_Suc_conv_app_nth)
    next
      case (Waiting n)
      with woken idx fin [of "reader_step ?ch ?r"] show ?thesis
        by (intro finishes_step [of ?ch ?r]) (simp add: reader_step_def)
    next
      case Ended
      with ended show ?thesis unfolding finishes_def by (intro exI [of _ 0]) simp
    next
      case (Failed e)
      with assms(3) show ?thesis by blast
    qed
    with race show ?thesis unfolding finishes_def by auto
  qed
qed

theorem reader_completes_witness:
  "(\<exists>k. rd_out ((reader_step (sy_chan example_dropped) ^^ k) (sy_reader example_dropped)) = [ItemBatch 7] \<and>
      rd_pc ((reader_step (sy_chan example_dropped) ^^ k) (sy_reader example_dropped)) = Ended) \<and>
   (\<exists>k. rd_out ((reader_step (sy_chan example_raced) ^^ k) (sy_reader example_raced)) = [ItemBatch 7] \<and>
      rd_pc ((reader_step (sy_chan example_raced) ^^ k) (sy_reader example_raced)) = Failed (Execution ''Channel has been closed''))"
  using reader_completes [OF example_dropped_reachable] reader_completes [OF example_raced_reachable]
  by (simp add: example_raced_def example_dropped_def example_sys_def)

text \<open>
  The order of the two lock sections of a reader matters when the sender is dropped.
  After any items were sent without error, a reader that has read them all and has seen the
  channel running is told that the channel has been closed, an error, if the drop happens
  before it looks at the data; with the status check after the drop it ends normally.
\<close>

lemma reader_drop_race:
  "\<exists>ch sender. send_all (map Ok xs) = Ok (ch, sender) \<and>
    (let r = \<lparr>rd_index = length xs, rd_pc = AtStatus, rd_out = xs\<rparr>; gone = sender_drop ch sender
     in rd_pc (reader_step gone (reader_step ch r)) = Failed (Execution ''Channel has been closed'') \<and>
        rd_pc (reader_step gone r) = Ended)"
proof -
  obtain ch sender n where "send_all (map Ok xs) = Ok (ch, sender)" "cs_items ch = xs"
    "snd_next_index sender = length xs" "cs_notification ch = Some n" "cs_status ch = StRunning"
    using send_all_ok [of xs] by blast
  then show ?thesis
    by (simp add: Let_def reader_step_def read_status_def read_data_def sender_drop_facts drop_status_def)
qed

text \<open>
  An error that ends the producer is not seen by readers that arrive after the sender is
  dropped.  The drop overwrites the error status, so a new reader gets the items sent before
  the error and then the normal end of the stream; before the drop it gets the error.
\<close>

lemma error_overwritten_by_drop:
  "\<exists>ch sender. send_all (map Ok xs @ [Err e]) = Ok (ch, sender) \<and>
    rd_pc (reader_step ch new_reader) = Failed e \<and>
    (reader_step (sender_drop ch sender) ^^ (2 * length xs + 1)) new_reader =
      \<lparr>rd_index = length xs, rd_pc = Ended, rd_out = xs\<rparr>"
proof -
  obtain ch0 sender n where sent: "send_all (map Ok xs) = Ok (ch0, sender)" "cs_items ch0 = xs"
    "snd_next_index sender = length xs" "cs_notification ch0 = Some n" "cs_status ch0 = StRunning"
    using send_all_ok [of xs] by blast
  let ?ch = "cancel_with_status (StError e) ch0"
  have "send_all (map Ok xs @ [Err e]) = Ok (?ch, sender)"
    using sent(1) by (simp add: send_all_def fold_result_append channel_send_def)
  moreover have ch: "cs_items ?ch = xs" "cs_status ?ch = StError e"
    using sent by (simp_all add: cancel_with_status_def sender_defs)
  moreover have "(reader_step (sender_drop ?ch sender) ^^ (2 * length xs + 1)) new_reader =
      \<lparr>rd_index = length xs, rd_pc = Ended, rd_out = xs\<rparr>"
    using read_cancelled [of "sender_drop ?ch sender" "snd_last_checkpoint sender" new_reader] ch sent(3)
    by (simp add: sender_drop_facts drop_status_def new_reader_def)
  ultimately show ?thesis
    by (intro exI [of _ ?ch] exI [of _ sender])
      (simp add: reader_step_def read_status_def new_reader_def)
qed

text \<open>
  A sender must not be used after it sent an error: the next item makes it panic, since
  the notification was taken.
\<close>

lemma send_after_error_panics:
  "\<exists>m. send_all (map Ok xs @ [Err e, Ok item]) = Err (Panic m)"
proof -
  obtain ch0 sender n where "send_all (map Ok xs) = Ok (ch0, sender)" "cs_notification ch0 = Some n"
    using send_all_ok [of xs] by blast
  then show ?thesis
    by (simp add: send_all_def fold_result_append channel_send_def cancel_with_status_def sender_defs)
qed

end
