(* ===== verification/Exchange.thy ===== *)
theory Exchange
  imports Data_Channels
begin

text \<open>
  The rest of the exchange: the store of output channels
  (\<open>runtime/exchange_manager/data_channels.rs\<close>), the request handler of
  \<open>data_exchange_manager.rs\<close>, the client side of a request
  (\<open>streaming/utils/create_remote_stream.rs\<close>), the cache of flight clients
  (\<open>runtime/data_client_manager.rs\<close>) and \<open>streaming/utils/retry.rs\<close>.

  Channels live in a heap and the store holds their addresses, since a sender keeps its
  channel after the store replaced it.  The protobuf codec of a ticket and the creation of
  a flight client are arguments.
\<close>

subsection \<open>The channel store\<close>

record 'e channel_partitioning_details =
  cpd_partitioning_spec :: "'e partitioning_spec"
  cpd_partitions :: partition_range

record 'e output_stream =
  os_channel :: nat
  os_partitioning_details :: "'e channel_partitioning_details option"

record ('b, 'e) exchange_channel_store =
  es_heap :: "'b channel_state list"
  es_channels :: "string \<Rightarrow> 'e output_stream option"

definition store_new :: "('b, 'e) exchange_channel_store" where
  "store_new = \<lparr>es_heap = [], es_channels = (\<lambda>_. None)\<rparr>"

definition store_create ::
  "string \<Rightarrow> 'e channel_partitioning_details option \<Rightarrow> ('b, 'e) exchange_channel_store
     \<Rightarrow> nat \<times> channel_sender \<times> ('b, 'e) exchange_channel_store" where
  "store_create stream_id details st =
     (case channel_create of (channel, sender) \<Rightarrow>
        let address = length (es_heap st);
            out = \<lparr>os_channel = address, os_partitioning_details = details\<rparr>
        in (address, sender,
            st\<lparr>es_heap := es_heap st @ [channel],
               es_channels := (es_channels st)(stream_id \<mapsto> out)\<rparr>))"

text \<open>What a request gets: the channel to follow and the filter to apply.\<close>

definition store_stream ::
  "string \<Rightarrow> partition_range \<Rightarrow> ('b, 'e) exchange_channel_store
     \<Rightarrow> (nat \<times> 'e channel_partitioning_details option) result" where
  "store_stream stream_id partitions st =
     bind_result (ok_or (es_channels st stream_id) (Internal ''No channel found for stream id''))
       (\<lambda>channel.
          case os_partitioning_details channel of
            None \<Rightarrow>
              if \<not> pr_is_empty partitions
              then Err (Internal ''A partitioned stream was requested for a non partitioned output'')
              else Ok (os_channel channel, None)
          | Some details \<Rightarrow>
              let intersection = pr_intersection (cpd_partitions details) partitions
              in if pr_is_empty intersection
                 then Err (Internal ''Requested partitions do not intersect available partitions'')
                 else Ok (os_channel channel,
                   Some \<lparr>cpd_partitioning_spec = cpd_partitioning_spec details,
                         cpd_partitions = intersection\<rparr>))"

text \<open>The \<open>map\<close> at the end of \<open>DataChannel::stream\<close>.\<close>

definition filter_item ::
  "('b, 's, 'c, 'e) arrow_lib \<Rightarrow> 'e channel_partitioning_details option \<Rightarrow> 'b stream_item result
     \<Rightarrow> 'b stream_item result" where
  "filter_item A partitioning_filter r =
     (case partitioning_filter of
        None \<Rightarrow> r
      | Some f \<Rightarrow>
          (case r of
             Err e \<Rightarrow> Err e
           | Ok (ItemMarker marker) \<Rightarrow> Ok (ItemMarker marker)
           | Ok (ItemBatch batch) \<Rightarrow>
               map_result ItemBatch
                 (filter_by_partition_range A batch (cpd_partitions f)
                    (expressions (cpd_partitioning_spec f)))))"

subsection \<open>Requests\<close>

record streaming_flight_ticket =
  tk_partitions :: "proto_partition_range option"
  tk_stream_id :: string
  tk_checkpoint_number :: u64

datatype status = InvalidArgument string | NotFound string

definition make_ticket :: "string \<Rightarrow> partition_range \<Rightarrow> streaming_flight_ticket" where
  "make_ticket stream_id partitions =
     \<lparr>tk_partitions = Some (pr_into_proto partitions), tk_stream_id = stream_id,
      tk_checkpoint_number = 0\<rparr>"

definition get_stream ::
  "('bytes \<Rightarrow> streaming_flight_ticket option) \<Rightarrow> ('b, 'e) exchange_channel_store \<Rightarrow> 'bytes
     \<Rightarrow> status + nat \<times> 'e channel_partitioning_details option" where
  "get_stream decode st bytes =
     (case decode bytes of
        None \<Rightarrow> Inl (InvalidArgument ''Failed to decode ticket data'')
      | Some ticket \<Rightarrow>
          let request_partitions =
                (case tk_partitions ticket of Some p \<Rightarrow> pr_from_proto p | None \<Rightarrow> pr_empty)
          in case store_stream (tk_stream_id ticket) request_partitions st of
               Ok stream \<Rightarrow> Inr stream
             | Err e \<Rightarrow> Inl (NotFound ''Failed to get stream''))"

text \<open>
  \<open>create_remote_stream\<close>: take a client for the address, send the ticket, and turn the
  decoded items into operator items.  \<open>get_client\<close> and \<open>do_get\<close> stand for the flight
  client.
\<close>

definition create_remote_stream ::
  "(string \<Rightarrow> 'client result) \<Rightarrow> ('client \<Rightarrow> 'bytes \<Rightarrow> 'b stream_item result list option)
     \<Rightarrow> (streaming_flight_ticket \<Rightarrow> 'bytes) \<Rightarrow> string \<Rightarrow> string \<Rightarrow> partition_range
     \<Rightarrow> 'b sitem result list result" where
  "create_remote_stream get_client do_get encode stream_id address partitions =
     bind_result (get_client address) (\<lambda>client.
     bind_result (ok_or (do_get client (encode (make_ticket stream_id partitions)))
                    (Internal ''Error getting flight stream'')) (\<lambda>items.
     Ok (map (map_result sitem_of_stream_item) items)))"

subsection \<open>The cache of clients\<close>

type_synonym 'client client_map = "string \<Rightarrow> 'client option"

text \<open>The section under the read lock, and the section under the write lock.\<close>

definition client_lookup :: "string \<Rightarrow> 'client client_map \<Rightarrow> 'client option" where
  "client_lookup address clients = clients address"

definition client_insert ::
  "string \<Rightarrow> 'client \<Rightarrow> 'client client_map \<Rightarrow> 'client \<times> 'client client_map" where
  "client_insert address new_client clients =
     (case clients address of
        Some existing \<Rightarrow> (existing, clients)
      | None \<Rightarrow> (new_client, clients(address \<mapsto> new_client)))"

text \<open>\<open>between\<close> is the map the second section finds, after other tasks ran.\<close>

definition get_client ::
  "(string \<Rightarrow> 'client result) \<Rightarrow> ('client client_map \<Rightarrow> 'client client_map) \<Rightarrow> string
     \<Rightarrow> 'client client_map \<Rightarrow> 'client result \<times> 'client client_map" where
  "get_client make_client between address clients =
     (case client_lookup address clients of
        Some client \<Rightarrow> (Ok client, clients)
      | None \<Rightarrow>
          (case make_client address of
             Err e \<Rightarrow> (Err e, between clients)
           | Ok new_client \<Rightarrow>
               (case client_insert address new_client (between clients) of
                  (client, clients') \<Rightarrow> (Ok client, clients'))))"

subsection \<open>Retries\<close>

text \<open>
  The operation is tried at most once more than \<open>retries\<close>; its outcomes are given in
  the order of the attempts.
\<close>

fun retry_future :: "nat \<Rightarrow> (nat \<Rightarrow> 'a result) \<Rightarrow> nat \<Rightarrow> 'a result \<times> nat" where
  "retry_future retries f attempt =
     (case f attempt of
        Ok res \<Rightarrow> (Ok res, Suc attempt)
      | Err e \<Rightarrow>
          (case retries of
             0 \<Rightarrow> (Err e, Suc attempt)
           | Suc retries' \<Rightarrow> retry_future retries' f (Suc attempt)))"

declare retry_future.simps [simp del]

definition retry_spec :: "nat \<Rightarrow> (nat \<Rightarrow> 'a result) \<Rightarrow> nat \<Rightarrow> 'a result \<Rightarrow> nat \<Rightarrow> bool" where
  "retry_spec retries f attempt r after \<longleftrightarrow>
     attempt < after \<and> after \<le> attempt + retries + 1 \<and> r = f (after - 1) \<and>
     (\<forall>k. attempt \<le> k \<longrightarrow> k < after - 1 \<longrightarrow> \<not> is_ok (f k)) \<and>
     (is_ok r \<or> after = attempt + retries + 1)"

lemma retry_future_spec:
  "retry_future retries f attempt = (r, after) \<Longrightarrow> retry_spec retries f attempt r after"
proof (induction retries arbitrary: attempt)
  case 0
  then show ?case
    by (subst (asm) retry_future.simps) (auto simp: retry_spec_def split: result.splits)
next
  case (Suc n)
  show ?case
  proof (cases "f attempt")
    case (Ok x)
    with Suc.prems have "r = Ok x" "after = Suc attempt"
      by (simp_all add: retry_future.simps [of "Suc n" f attempt])
    with Ok show ?thesis by (simp add: retry_spec_def)
  next
    case (Err e)
    with Suc.prems have "retry_future n f (Suc attempt) = (r, after)"
      by (simp add: retry_future.simps [of "Suc n" f attempt])
    from Suc.IH [OF this] have IH: "retry_spec n f (Suc attempt) r after" .
    have "\<not> is_ok (f k)" if "attempt \<le> k" "k < after - 1" for k
      using IH Err that unfolding retry_spec_def by (metis Suc_leI is_ok.simps(2) le_neq_implies_less)
    with IH show ?thesis unfolding retry_spec_def by auto
  qed
qed

subsection \<open>Reading a partitioned output\<close>

lemma intersection_full:
  assumes "s < e" and "e \<le> np"
  shows "pr_intersection (pr_new 0 np np) \<lparr>pr_start = s, pr_end = e, pr_partitions = np\<rparr> =
    \<lparr>pr_start = s, pr_end = e, pr_partitions = np\<rparr>"
  using assms by (simp add: pr_intersection_def pr_new_def Let_def)

lemma store_stream_full:
  assumes "es_channels st sid = Some \<lparr>os_channel = a, os_partitioning_details =
      Some \<lparr>cpd_partitioning_spec = spec, cpd_partitions = pr_new 0 np np\<rparr>\<rparr>"
    and "pr_partitions r = np" and "pr_start r < pr_end r" and "pr_end r \<le> np"
  shows "store_stream sid r st = Ok (a, Some \<lparr>cpd_partitioning_spec = spec, cpd_partitions = r\<rparr>)"
proof -
  have "pr_intersection (pr_new 0 np np) r = r"
    using intersection_full [OF assms(3,4)] assms(2) by (cases r) simp
  moreover have "\<not> pr_is_empty r" using assms(3) by (simp add: pr_is_empty_def)
  ultimately show ?thesis using assms(1) by (simp add: store_stream_def)
qed

text \<open>What each of several readers gets for one item of the channel.\<close>

definition split_of :: "('b \<Rightarrow> 'r list) \<Rightarrow> 'b stream_item \<Rightarrow> 'b stream_item list \<Rightarrow> bool" where
  "split_of rows item parts \<longleftrightarrow>
     (case item of
        ItemMarker m \<Rightarrow> parts = replicate (length parts) (ItemMarker m)
      | ItemBatch b \<Rightarrow> \<exists>bs. parts = map ItemBatch bs \<and> (\<Sum>b' \<leftarrow> bs. mset (rows b')) = mset (rows b))"

lemma filter_item_split:
  assumes "takes_rows A rows" and "hashes_rows A rows exprs h"
    and "\<forall>b. item = ItemBatch b \<longrightarrow> length (rows b) \<le> 2 ^ 32"
    and "0 < np" and "\<forall>r \<in> set ranges. pr_partitions r = np"
    and "tiles 0 np (map range_bounds ranges)"
  shows "\<exists>parts. map (\<lambda>r. filter_item A (Some \<lparr>cpd_partitioning_spec = \<lparr>expressions = exprs\<rparr>,
        cpd_partitions = r\<rparr>) (Ok item)) ranges = map Ok parts \<and>
      length parts = length ranges \<and> split_of rows item parts"
proof (cases item)
  case (ItemMarker m)
  then show ?thesis
    by (intro exI [of _ "replicate (length ranges) (ItemMarker m)"])
      (simp add: filter_item_def split_of_def map_replicate_const)
next
  case (ItemBatch b)
  then obtain f where "\<forall>r \<in> set ranges. filter_by_partition_range A b r exprs = Ok (f r)"
    "(\<Sum>r \<leftarrow> ranges. mset (rows (f r))) = mset (rows b)"
    using covering_filters [OF assms(1,2) _ assms(4-6)] assms(3) by blast
  with ItemBatch show ?thesis
    by (intro exI [of _ "map (\<lambda>r. ItemBatch (f r)) ranges"])
      (auto simp: filter_item_def split_of_def comp_def intro!: exI [of _ "map f ranges"])
qed

subsection \<open>Properties\<close>

text \<open>
  C8: a partitioned exchange delivers every row once.  After an output over all partitions is
  created, the requests of readers whose ranges tile the partitions are all accepted; of each
  item of the channel every reader gets its own part: the marker itself for a marker, and
  for a batch a batch each, which together hold every row of it exactly once.
\<close>

theorem exchange_delivers_once:
  assumes "takes_rows A rows" and "hashes_rows A rows exprs h"
    and "\<forall>b. item = ItemBatch b \<longrightarrow> length (rows b) \<le> 2 ^ 32"
    and "0 < np" and "\<forall>r \<in> set ranges. pr_partitions r = np"
    and "tiles 0 np (map range_bounds ranges)"
    and "store_create sid (Some \<lparr>cpd_partitioning_spec = \<lparr>expressions = exprs\<rparr>,
        cpd_partitions = pr_new 0 np np\<rparr>) st = (a, sender, st')"
  shows "\<exists>fs parts. map (\<lambda>r. store_stream sid r st') ranges = map (\<lambda>f. Ok (a, f)) fs \<and>
    map (\<lambda>f. filter_item A f (Ok item)) fs = map Ok parts \<and>
    length parts = length ranges \<and> split_of rows item parts"
proof -
  let ?f = "\<lambda>r. Some \<lparr>cpd_partitioning_spec = \<lparr>expressions = exprs\<rparr>, cpd_partitions = r\<rparr>"
  have "store_stream sid r st' = Ok (a, ?f r)" if "r \<in> set ranges" for r
  proof (rule store_stream_full)
    have "(pr_start r, pr_end r) \<in> set (map range_bounds ranges)"
      using that by (force simp: range_bounds_def)
    with tiles_inside [OF assms(6)] show "pr_start r < pr_end r" "pr_end r \<le> np" by auto
    show "pr_partitions r = np" using assms(5) that by blast
  qed (use assms(7) in \<open>auto simp: store_create_def channel_create_def Let_def\<close>)
  then have "map (\<lambda>r. store_stream sid r st') ranges = map (\<lambda>f. Ok (a, f)) (map ?f ranges)" by simp
  moreover obtain parts where "map (\<lambda>f. filter_item A f (Ok item)) (map ?f ranges) = map Ok parts"
    "length parts = length ranges" "split_of rows item parts"
    using filter_item_split [OF assms(1-6)] by (auto simp: comp_def)
  ultimately show ?thesis by blast
qed

theorem exchange_delivers_once_witness:
  "\<exists>a sender st' fs parts.
    store_create ''s'' (Some \<lparr>cpd_partitioning_spec = \<lparr>expressions = [()]\<rparr>,
      cpd_partitions = pr_new 0 4 4\<rparr>) (store_new :: (nat list, unit) exchange_channel_store) =
      (a, sender, st') \<and>
    map (\<lambda>r. store_stream ''s'' r st') [pr_new 0 1 4, pr_new 1 4 4] = map (\<lambda>f. Ok (a, f)) fs \<and>
    map (\<lambda>f. filter_item list_arrow f (Ok (ItemBatch [2, 4, 5]))) fs = map Ok parts \<and>
    length parts = 2 \<and> split_of (\<lambda>b. b) (ItemBatch [2, 4, 5]) parts"
proof -
  obtain a sender st' where created: "store_create ''s'' (Some \<lparr>cpd_partitioning_spec =
      \<lparr>expressions = [()]\<rparr>, cpd_partitions = pr_new 0 4 4\<rparr>)
      (store_new :: (nat list, unit) exchange_channel_store) = (a, sender, st')" by (metis prod_cases3)
  have "tiles 0 4 (map range_bounds [pr_new 0 1 4, pr_new 1 4 4])"
    "\<forall>r \<in> set [pr_new 0 1 4, pr_new 1 4 4]. pr_partitions r = 4"
    "\<forall>b. ItemBatch [2, 4, 5 :: nat] = ItemBatch b \<longrightarrow> length b \<le> 2 ^ 32" "0 < (4 :: nat)"
    by (simp_all add: range_bounds_def pr_new_def)
  from exchange_delivers_once [OF list_arrow_takes_rows list_arrow_hashes_rows this(3,4,2,1) created]
  obtain fs parts where
    "map (\<lambda>r. store_stream ''s'' r st') [pr_new 0 1 4, pr_new 1 4 4] = map (\<lambda>f. Ok (a, f)) fs"
    "map (\<lambda>f. filter_item list_arrow f (Ok (ItemBatch [2, 4, 5]))) fs = map Ok parts"
    "length parts = length [pr_new 0 1 4, pr_new 1 4 4]" "split_of (\<lambda>b. b) (ItemBatch [2, 4, 5]) parts"
    by blast
  moreover from this(3) have "length parts = 2" by simp
  ultimately show ?thesis using created by blast
qed

text \<open>
  A request arrives as it was sent.  With a codec that decodes what it encodes, the
  handler answers the ticket a reader builds for a stream and a partition range with what
  the store holds for exactly that stream and range.
\<close>

theorem request_round_trip:
  assumes "\<And>ticket. decode (encode ticket) = Some ticket"
  shows "get_stream decode st (encode (make_ticket stream_id partitions)) =
    (case store_stream stream_id partitions st of
       Ok stream \<Rightarrow> Inr stream
     | Err e \<Rightarrow> Inl (NotFound ''Failed to get stream''))"
  by (cases partitions) (simp add: get_stream_def assms make_ticket_def pr_from_proto_def pr_into_proto_def)

theorem request_round_trip_witness:
  "get_stream Some (store_new :: (nat list, unit) exchange_channel_store) (make_ticket ''s'' pr_unit) =
    Inl (NotFound ''Failed to get stream'')"
  using request_round_trip [of Some "\<lambda>ticket. ticket"
      "store_new :: (nat list, unit) exchange_channel_store" "''s''" pr_unit]
  by (simp add: store_stream_def store_new_def)

text \<open>
  \<open>retry_future\<close> makes at least one and at most one more attempt than the allowed
  retries; it returns the outcome of the last attempt made, every earlier attempt failed, and
  if it returns an error all allowed attempts were made.
\<close>

theorem retry_future_attempts:
  "case retry_future retries f 0 of (r, made) \<Rightarrow>
     0 < made \<and> made \<le> retries + 1 \<and> r = f (made - 1) \<and>
     list_all (\<lambda>k. \<not> is_ok (f k)) [0 ..< made - 1] \<and> (is_ok r \<or> made = retries + 1)"
proof -
  obtain r made where run: "retry_future retries f 0 = (r, made)" by fastforce
  from retry_future_spec [OF this] show ?thesis
    unfolding run retry_spec_def by (auto simp: list_all_iff)
qed

end
