(* ===== verification/File_System.thy ===== *)
theory File_System
  imports Prelude "HOL-Library.AList" "HOL-Library.Sublist"
begin

text \<open>
  \<open>src/streaming/state/file_system.rs\<close>: the storage interface of checkpoints, its local
  implementation under a directory prefix, and the worklist copy between two storages of
  \<open>src/streaming/state/state.rs\<close> (\<open>copy_dir_between_systems\<close>).

  A disk is a tree of named nodes; \<open>fs_view\<close> tells what is found at a path.  The trait
  \<open>FileSystemStorage\<close> is a record of functions, and the locale \<open>file_storage\<close> states
  what its clients rely on in terms of the view; the local and the temporary-directory
  storage are interpretations.  The copy between storages is proved in the locale of two
  storages: with fuel for every directory of the source it ends, and the copy looks like the
  source at every path.
\<close>

subsection \<open>Disks\<close>

type_synonym path = "string list"

datatype 'c node = File 'c | Dir "(string \<times> 'c node) list"

datatype 'c entry = NoEntry | FileEntry 'c | DirEntry

fun node_at :: "'c node \<Rightarrow> path \<Rightarrow> 'c node option" where
  "node_at n [] = Some n"
| "node_at (File c) (x # p) = None"
| "node_at (Dir es) (x # p) = (case map_of es x of Some n \<Rightarrow> node_at n p | None \<Rightarrow> None)"

fun entry_of :: "'c node option \<Rightarrow> 'c entry" where
  "entry_of None = NoEntry"
| "entry_of (Some (File c)) = FileEntry c"
| "entry_of (Some (Dir es)) = DirEntry"

definition fs_view :: "'c node \<Rightarrow> path \<Rightarrow> 'c entry" where
  "fs_view disk p = entry_of (node_at disk p)"

text \<open>Writing a file into an existing directory, as \<open>tokio::fs::write\<close> does.\<close>

fun write_node :: "path \<Rightarrow> 'c \<Rightarrow> 'c node \<Rightarrow> 'c node option" where
  "write_node [] c (File c') = Some (File c)"
| "write_node [] c (Dir es) = None"
| "write_node (x # p) c (File c') = None"
| "write_node (x # p) c (Dir es) =
     (case map_of es x of
        Some n \<Rightarrow> map_option (\<lambda>n'. Dir (AList.update x n' es)) (write_node p c n)
      | None \<Rightarrow> if p = [] then Some (Dir (AList.update x (File c) es)) else None)"

text \<open>\<open>tokio::fs::create_dir_all\<close>.\<close>

fun mkdir_node :: "path \<Rightarrow> 'c node \<Rightarrow> 'c node option" where
  "mkdir_node [] (Dir es) = Some (Dir es)"
| "mkdir_node p (File c) = None"
| "mkdir_node (x # p) (Dir es) =
     map_option (\<lambda>n'. Dir (AList.update x n' es))
       (mkdir_node p (case map_of es x of Some n \<Rightarrow> n | None \<Rightarrow> Dir []))"

text \<open>\<open>tokio::fs::remove_dir_all\<close>.\<close>

fun remove_node :: "path \<Rightarrow> 'c node \<Rightarrow> 'c node option" where
  "remove_node [] n = None"
| "remove_node (x # p) (File c) = None"
| "remove_node (x # p) (Dir es) =
     (case map_of es x of
        None \<Rightarrow> None
      | Some n \<Rightarrow>
          if p = [] then (case n of Dir _ \<Rightarrow> Some (Dir (AList.delete x es)) | File _ \<Rightarrow> None)
          else map_option (\<lambda>n'. Dir (AList.update x n' es)) (remove_node p n))"

subsection \<open>The storage interface\<close>

record file_system_entry =
  fse_name :: string
  fse_directory :: bool

record 'c fs_storage =
  fs_write_file :: "path \<Rightarrow> 'c \<Rightarrow> 'c node \<Rightarrow> 'c node result"
  fs_read_file :: "path \<Rightarrow> 'c node \<Rightarrow> 'c result"
  fs_list_files :: "path \<Rightarrow> 'c node \<Rightarrow> file_system_entry list result"
  fs_copy :: "path \<Rightarrow> path \<Rightarrow> 'c node \<Rightarrow> 'c node result"
  fs_remove_dir_all :: "path \<Rightarrow> 'c node \<Rightarrow> 'c node result"
  fs_mkdir_all :: "path \<Rightarrow> 'c node \<Rightarrow> 'c node result"
  fs_get_physical_path :: "path \<Rightarrow> path result"

definition prefixed_write_file :: "path \<Rightarrow> path \<Rightarrow> 'c \<Rightarrow> 'c node \<Rightarrow> 'c node result" where
  "prefixed_write_file dir p c disk =
     ok_or (write_node (dir @ p) c disk) (Execution ''Failed to write file'')"

definition prefixed_read_file :: "path \<Rightarrow> path \<Rightarrow> 'c node \<Rightarrow> 'c result" where
  "prefixed_read_file dir p disk =
     (case node_at disk (dir @ p) of
        Some (File c) \<Rightarrow> Ok c
      | _ \<Rightarrow> Err (Execution ''Failed to read file''))"

definition prefixed_list_files :: "path \<Rightarrow> path \<Rightarrow> 'c node \<Rightarrow> file_system_entry list result" where
  "prefixed_list_files dir p disk =
     (case node_at disk (dir @ p) of
        Some (Dir es) \<Rightarrow>
          Ok (map (\<lambda>(x, n). \<lparr>fse_name = x, fse_directory = (case n of Dir _ \<Rightarrow> True | File _ \<Rightarrow> False)\<rparr>) es)
      | _ \<Rightarrow> Err (Execution ''Failed to read dir''))"

lemma fold_result_cong [fundef_cong]:
  assumes "xs = ys" and "s = t" and "\<And>s x. x \<in> set ys \<Longrightarrow> f s x = g s x"
  shows "fold_result f s xs = fold_result g t ys"
proof -
  have "fold_result f s ys = fold_result g s ys" using assms(3)
  proof (induction ys arbitrary: s)
    case (Cons y ys)
    then have "f s y = g s y" by simp
    with Cons show ?case by (cases "g s y") auto
  qed simp
  with assms(1,2) show ?thesis by simp
qed

text \<open>
  The recursive \<open>copy\<close>: a file is written, a directory is created and its entries are
  copied in turn.  The source tree is the one found before the copy starts; the source and
  the destination are disjoint directories wherever the crate copies.
\<close>

fun copy_node :: "'c node \<Rightarrow> path \<Rightarrow> 'c node \<Rightarrow> 'c node result" where
  "copy_node (File c) dst disk = ok_or (write_node dst c disk) (Execution ''Failed to copy file'')"
| "copy_node (Dir es) dst disk =
     bind_result (ok_or (mkdir_node dst disk) (Execution ''Failed to create directory''))
       (\<lambda>disk'. fold_result (\<lambda>d e. copy_node (snd e) (dst @ [fst e]) d) disk' es)"

definition prefixed_copy :: "path \<Rightarrow> path \<Rightarrow> path \<Rightarrow> 'c node \<Rightarrow> 'c node result" where
  "prefixed_copy dir src dst disk =
     bind_result (ok_or (node_at disk (dir @ src)) (Execution ''Failed to copy file''))
       (\<lambda>n. copy_node n (dir @ dst) disk)"

definition prefixed_remove_dir_all :: "path \<Rightarrow> path \<Rightarrow> 'c node \<Rightarrow> 'c node result" where
  "prefixed_remove_dir_all dir p disk =
     ok_or (remove_node (dir @ p) disk) (Execution ''Failed to remove directory'')"

definition prefixed_mkdir_all :: "path \<Rightarrow> path \<Rightarrow> 'c node \<Rightarrow> 'c node result" where
  "prefixed_mkdir_all dir p disk =
     ok_or (mkdir_node (dir @ p) disk) (Execution ''Failed to create directory'')"

definition prefixed_storage :: "path \<Rightarrow> 'c fs_storage" where
  "prefixed_storage dir =
     \<lparr>fs_write_file = prefixed_write_file dir, fs_read_file = prefixed_read_file dir,
      fs_list_files = prefixed_list_files dir, fs_copy = prefixed_copy dir,
      fs_remove_dir_all = prefixed_remove_dir_all dir, fs_mkdir_all = prefixed_mkdir_all dir,
      fs_get_physical_path = (\<lambda>p. Ok (dir @ p))\<rparr>"

text \<open>\<open>TempdirFileSystemStorage\<close>: every method delegates to the inner storage.\<close>

record 'c tempdir_storage =
  td_dir :: path
  td_inner :: "'c fs_storage"

definition from_tempdir :: "path \<Rightarrow> 'c tempdir_storage" where
  "from_tempdir dir = \<lparr>td_dir = dir, td_inner = prefixed_storage dir\<rparr>"

definition tempdir_ops :: "'c tempdir_storage \<Rightarrow> 'c fs_storage" where
  "tempdir_ops t =
     \<lparr>fs_write_file = (\<lambda>p c. fs_write_file (td_inner t) p c),
      fs_read_file = (\<lambda>p. fs_read_file (td_inner t) p),
      fs_list_files = (\<lambda>p. fs_list_files (td_inner t) p),
      fs_copy = (\<lambda>src dst. fs_copy (td_inner t) src dst),
      fs_remove_dir_all = (\<lambda>p. fs_remove_dir_all (td_inner t) p),
      fs_mkdir_all = (\<lambda>p. fs_mkdir_all (td_inner t) p),
      fs_get_physical_path = (\<lambda>p. fs_get_physical_path (td_inner t) p)\<rparr>"

subsection \<open>Copying between two storages\<close>

text \<open>
  The entries of one directory: subdirectories are created and pushed, files are read and
  written.  The state is the destination disk and the queue, whose end is popped first.
\<close>

definition copy_entry ::
  "'c fs_storage \<Rightarrow> path \<Rightarrow> 'c node \<Rightarrow> 'c fs_storage \<Rightarrow> path \<Rightarrow> path
     \<Rightarrow> 'c node \<times> path list \<Rightarrow> file_system_entry \<Rightarrow> ('c node \<times> path list) result" where
  "copy_entry S source_dir sdisk D dest_dir following acc entry =
     (case acc of (ddisk, queue) \<Rightarrow>
        if fse_directory entry
        then map_result (\<lambda>ddisk'. (ddisk', queue @ [following @ [fse_name entry]]))
               (fs_mkdir_all D (dest_dir @ following @ [fse_name entry]) ddisk)
        else bind_result (fs_read_file S (source_dir @ following @ [fse_name entry]) sdisk)
               (\<lambda>contents. map_result (\<lambda>ddisk'. (ddisk', queue))
                  (fs_write_file D (dest_dir @ following @ [fse_name entry]) contents ddisk)))"

text \<open>The loop over the queue; \<open>None\<close> when the fuel is used up.\<close>

fun copy_queue ::
  "nat \<Rightarrow> 'c fs_storage \<Rightarrow> path \<Rightarrow> 'c node \<Rightarrow> 'c fs_storage \<Rightarrow> path \<Rightarrow> path list \<Rightarrow> 'c node
     \<Rightarrow> 'c node result option" where
  "copy_queue fuel S source_dir sdisk D dest_dir [] ddisk = Some (Ok ddisk)"
| "copy_queue 0 S source_dir sdisk D dest_dir (q # qs) ddisk = None"
| "copy_queue (Suc fuel) S source_dir sdisk D dest_dir (q # qs) ddisk =
     (let following = last (q # qs); queue = butlast (q # qs)
      in case bind_result (fs_list_files S (source_dir @ following) sdisk)
                (\<lambda>entries. fold_result (copy_entry S source_dir sdisk D dest_dir following)
                   (ddisk, queue) entries) of
           Err e \<Rightarrow> Some (Err e)
         | Ok (ddisk', queue') \<Rightarrow> copy_queue fuel S source_dir sdisk D dest_dir queue' ddisk')"

definition copy_dir_between_systems ::
  "nat \<Rightarrow> 'c fs_storage \<Rightarrow> path \<Rightarrow> 'c node \<Rightarrow> 'c fs_storage \<Rightarrow> path \<Rightarrow> 'c node \<Rightarrow> 'c node result option" where
  "copy_dir_between_systems fuel S source_dir sdisk D dest_dir ddisk =
     (case fs_mkdir_all D dest_dir ddisk of
        Err e \<Rightarrow> Some (Err e)
      | Ok ddisk' \<Rightarrow> copy_queue fuel S source_dir sdisk D dest_dir [[]] ddisk')"

subsection \<open>What the operations do to the view\<close>

fun wf_node :: "'c node \<Rightarrow> bool" where
  "wf_node (File c) = True"
| "wf_node (Dir es) = (distinct (map fst es) \<and> (\<forall>e \<in> set es. wf_node (snd e)))"

lemma view_simps [simp]:
  "fs_view (File c) [] = FileEntry c"
  "fs_view (Dir es) [] = DirEntry"
  "fs_view (File c) (x # p) = NoEntry"
  "fs_view (Dir es) (x # p) = (case map_of es x of Some n \<Rightarrow> fs_view n p | None \<Rightarrow> NoEntry)"
  by (simp_all add: fs_view_def split: option.splits)

lemma view_leaf [simp]:
  "fs_view (File c) p = (if p = [] then FileEntry c else NoEntry)"
  "fs_view (Dir []) p = (if p = [] then DirEntry else NoEntry)"
  by (cases p; simp)+

lemma wf_child: "wf_node (Dir es) \<Longrightarrow> map_of es x = Some n \<Longrightarrow> wf_node n"
  by (auto dest: map_of_SomeD)

lemma node_at_append: "node_at n (p @ q) = Option.bind (node_at n p) (\<lambda>m. node_at m q)"
  by (induction n p rule: node_at.induct) (auto split: option.splits)

lemma view_append: "fs_view n (p @ q) = (case node_at n p of Some m \<Rightarrow> fs_view m q | None \<Rightarrow> NoEntry)"
  by (auto simp: fs_view_def node_at_append split: option.splits)

lemma view_Nil_NoEntry [simp]: "fs_view n [] \<noteq> NoEntry"
  by (cases n) auto

lemma view_below:
  assumes "fs_view n (p @ q) \<noteq> NoEntry" and "q \<noteq> []"
  shows "fs_view n p = DirEntry"
proof -
  obtain m where m: "node_at n p = Some m" "fs_view m q \<noteq> NoEntry"
    using assms(1) by (auto simp: view_append split: option.splits)
  with assms(2) obtain x q' where "q = x # q'" by (cases q) auto
  with m show ?thesis by (cases m) (auto simp: fs_view_def)
qed

lemma view_prefix_dir: "fs_view n p = DirEntry \<Longrightarrow> prefix q p \<Longrightarrow> fs_view n q = DirEntry"
  using view_below [of n q "drop (length q) p"] by (cases "q = p") (fastforce simp: prefix_def)+

lemma map_of_update: "map_of (AList.update k v es) x = (if x = k then Some v else map_of es x)"
  by (simp add: AList.update_conv')

lemma write_node_view:
  "write_node p c n = Some n' \<Longrightarrow> fs_view n' q = (if q = p then FileEntry c else fs_view n q)"
proof (induction p c n arbitrary: n' q rule: write_node.induct)
  case (1 c c')
  then show ?case by (cases q) auto
next
  case (4 x p c es)
  then show ?case by (cases q) (auto simp: map_of_update split: option.splits if_splits)
qed auto

lemma write_node_target: "write_node p c n = Some n' \<Longrightarrow> fs_view n p \<noteq> DirEntry"
  by (induction p c n arbitrary: n' rule: write_node.induct) (auto split: option.splits if_splits)

lemma mkdir_node_view:
  "mkdir_node p n = Some n' \<Longrightarrow> fs_view n' q = (if prefix q p then DirEntry else fs_view n q)"
proof (induction p n arbitrary: n' q rule: mkdir_node.induct)
  case (1 es)
  then show ?case by (cases q) auto
next
  case (3 x p es)
  then show ?case by (cases q) (auto simp: map_of_update split: if_splits option.splits)
qed auto

lemma remove_node_view:
  assumes "remove_node p n = Some n'" and "wf_node n"
  shows "fs_view n' q = (if prefix p q then NoEntry else fs_view n q)"
  using assms
proof (induction p n arbitrary: n' q rule: remove_node.induct)
  case (3 x p es)
  then obtain m where m: "map_of es x = Some m" by (cases "map_of es x") auto
  with 3 show ?case
    using wf_child [OF "3.prems"(2) m]
    by (cases q) (auto simp: map_of_update AList.delete_conv' split: if_splits node.splits)
qed auto

lemma mkdir_fresh: "\<exists>n. mkdir_node p (Dir []) = Some n"
  by (induction p) auto

lemma mkdir_node_ok:
  assumes "\<And>q c. prefix q p \<Longrightarrow> fs_view n q \<noteq> FileEntry c"
  shows "\<exists>n'. mkdir_node p n = Some n'"
  using assms
proof (induction p n rule: mkdir_node.induct)
  case (2 p c)
  then show ?case by (metis Nil_prefix view_simps(1))
next
  case (3 x p es)
  show ?case
  proof (cases "map_of es x")
    case None
    with mkdir_fresh [of p] show ?thesis by auto
  next
    case (Some m)
    have "fs_view m q \<noteq> FileEntry c" if "prefix q p" for q c
      using "3.prems" [of "x # q" c] that Some by simp
    with "3.IH" Some show ?thesis by auto
  qed
qed auto

lemma write_node_ok:
  assumes "fs_view n p = DirEntry" and "fs_view n (p @ [x]) \<noteq> DirEntry"
  shows "\<exists>n'. write_node (p @ [x]) c n = Some n'"
  using assms
proof (induction p arbitrary: n)
  case Nil
  then obtain es where n: "n = Dir es" by (cases n) auto
  show ?case
  proof (cases "map_of es x")
    case (Some m)
    with Nil n show ?thesis by (cases m) auto
  qed (simp add: n)
next
  case (Cons y p)
  then obtain es where n: "n = Dir es" by (cases n) auto
  with Cons obtain m where "map_of es y = Some m" by (auto split: option.splits)
  with Cons n show ?case by auto
qed

lemma set_update: "set (AList.update x n es) \<subseteq> insert (x, n) (set es)"
  by (induction es) auto

lemma wf_update: "wf_node (Dir es) \<Longrightarrow> wf_node n \<Longrightarrow> wf_node (Dir (AList.update x n es))"
  using set_update [of x n es] by (auto simp: AList.distinct_update)

lemma write_node_wf: "write_node p c n = Some n' \<Longrightarrow> wf_node n \<Longrightarrow> wf_node n'"
proof (induction p c n arbitrary: n' rule: write_node.induct)
  case (4 x p c es)
  then show ?case
    by (auto simp del: wf_node.simps(2) intro!: wf_update dest: wf_child
        split: option.splits if_splits)
qed auto

lemma mkdir_node_wf: "mkdir_node p n = Some n' \<Longrightarrow> wf_node n \<Longrightarrow> wf_node n'"
proof (induction p n arbitrary: n' rule: mkdir_node.induct)
  case (3 x p es)
  have "wf_node (case map_of es x of Some n \<Rightarrow> n | None \<Rightarrow> Dir [])"
    using "3.prems"(2) by (auto dest: map_of_SomeD split: option.splits)
  with 3 show ?case by (auto simp del: wf_node.simps(2) intro!: wf_update)
qed auto

subsection \<open>The recursive copy\<close>

text \<open>Two disks that differ only below \<open>dst\<close>, where the second holds the tree \<open>n\<close>.\<close>

definition holds_copy :: "'c node \<Rightarrow> path \<Rightarrow> 'c node \<Rightarrow> 'c node \<Rightarrow> bool" where
  "holds_copy n dst disk disk' \<longleftrightarrow>
     (\<forall>q. fs_view disk' (dst @ q) = fs_view n q) \<and>
     (\<forall>q. \<not> prefix dst q \<longrightarrow> fs_view disk' q = fs_view disk q)"

definition copies_to :: "'c node \<Rightarrow> bool" where
  "copies_to n \<longleftrightarrow> (\<forall>par x disk. fs_view disk par = DirEntry \<longrightarrow>
     (\<forall>q. fs_view disk (par @ x # q) = NoEntry) \<longrightarrow> wf_node disk \<longrightarrow>
     (\<exists>disk'. copy_node n (par @ [x]) disk = Ok disk' \<and> wf_node disk' \<and>
        holds_copy n (par @ [x]) disk disk'))"

lemma copies_toD:
  assumes "copies_to n" and "fs_view disk par = DirEntry"
    and "\<And>q. fs_view disk (par @ x # q) = NoEntry" and "wf_node disk"
  obtains disk' where "copy_node n (par @ [x]) disk = Ok disk'" "wf_node disk'"
    "holds_copy n (par @ [x]) disk disk'"
  using assms unfolding copies_to_def by blast

lemma copy_entries:
  assumes "\<forall>e \<in> set es. copies_to (snd e)" and "distinct (map fst es)"
    and "fs_view disk dst = DirEntry" and "wf_node disk"
    and "\<And>x q. x \<in> fst ` set es \<Longrightarrow> fs_view disk (dst @ x # q) = NoEntry"
  shows "\<exists>disk'. fold_result (\<lambda>d e. copy_node (snd e) (dst @ [fst e]) d) disk es = Ok disk' \<and>
    wf_node disk' \<and>
    (\<forall>x q. x \<in> fst ` set es \<longrightarrow> fs_view disk' (dst @ x # q) = fs_view (Dir es) (x # q)) \<and>
    (\<forall>q. (\<forall>x \<in> fst ` set es. \<not> prefix (dst @ [x]) q) \<longrightarrow> fs_view disk' q = fs_view disk q)"
  using assms
proof (induction es arbitrary: disk)
  case (Cons e es)
  obtain y n where e: "e = (y, n)" by (cases e)
  from Cons.prems(1) have "copies_to n" using e by simp
  then obtain d1 where d1: "copy_node n (dst @ [y]) disk = Ok d1" "wf_node d1"
      "holds_copy n (dst @ [y]) disk d1"
    using Cons.prems(3-5) e by (elim copies_toD) auto
  then have same: "\<And>q. \<not> prefix (dst @ [y]) q \<Longrightarrow> fs_view d1 q = fs_view disk q"
    and new: "\<And>q. fs_view d1 (dst @ y # q) = fs_view n q" by (auto simp: holds_copy_def)
  have ynew: "y \<notin> fst ` set es" using Cons.prems(2) e by auto
  have "fs_view d1 dst = DirEntry" using same Cons.prems(3) by auto
  moreover have "fs_view d1 (dst @ x # q) = NoEntry" if "x \<in> fst ` set es" for x q
  proof -
    have "x \<noteq> y" using that ynew by auto
    with same [of "dst @ x # q"] Cons.prems(5) [of x q] that show ?thesis by auto
  qed
  ultimately obtain d2 where d2:
    "fold_result (\<lambda>d e. copy_node (snd e) (dst @ [fst e]) d) d1 es = Ok d2" "wf_node d2"
    "\<And>x q. x \<in> fst ` set es \<Longrightarrow> fs_view d2 (dst @ x # q) = fs_view (Dir es) (x # q)"
    "\<And>q. (\<forall>x \<in> fst ` set es. \<not> prefix (dst @ [x]) q) \<Longrightarrow> fs_view d2 q = fs_view d1 q"
    using Cons.IH [of d1] Cons.prems(1,2) d1(2) by auto
  have "fs_view d2 (dst @ y # q) = fs_view n q" for q
    using d2(4) [of "dst @ y # q"] new ynew by auto
  moreover have "fs_view (Dir (e # es)) (x # q) = fs_view (Dir es) (x # q)" if "x \<noteq> y" for x q
    using that e by simp
  ultimately show ?case
    using d1(1) d2 same e ynew by (intro exI [of _ d2]) (auto split: if_splits)
qed auto

lemma copies_to_Dir:
  assumes wf: "wf_node (Dir es)" and sub: "\<forall>e \<in> set es. copies_to (snd e)"
  shows "copies_to (Dir es)"
  unfolding copies_to_def
proof (intro allI impI)
  fix par x and disk :: "'a node"
  assume par: "fs_view disk par = DirEntry" and fresh: "\<forall>q. fs_view disk (par @ x # q) = NoEntry"
    and wfd: "wf_node disk"
  let ?dst = "par @ [x]"
  have "fs_view disk q \<noteq> FileEntry c" if "prefix q ?dst" for q c
    using that fresh view_prefix_dir [OF par] by (auto simp: prefix_snoc)
  then obtain d where d: "mkdir_node ?dst disk = Some d" using mkdir_node_ok by blast
  note vd = mkdir_node_view [OF d]
  have dst: "fs_view d ?dst = DirEntry" and below: "fs_view d (?dst @ y # q) = NoEntry" for y q
    using vd fresh by auto
  obtain d' where d': "fold_result (\<lambda>d e. copy_node (snd e) (?dst @ [fst e]) d) d es = Ok d'"
    "wf_node d'" "\<And>y q. y \<in> fst ` set es \<Longrightarrow> fs_view d' (?dst @ y # q) = fs_view (Dir es) (y # q)"
    "\<And>q. (\<forall>y \<in> fst ` set es. \<not> prefix (?dst @ [y]) q) \<Longrightarrow> fs_view d' q = fs_view d q"
    using copy_entries [OF sub _ dst mkdir_node_wf [OF d wfd] below] wf by auto
  have "fs_view d' (?dst @ q) = fs_view (Dir es) q" for q
  proof (cases q)
    case Nil
    with d'(4) [of ?dst] dst show ?thesis by auto
  next
    case (Cons y r)
    show ?thesis
    proof (cases "y \<in> fst ` set es")
      case True
      with d'(3) Cons show ?thesis by blast
    next
      case False
      then have "map_of es y = None" by (simp add: map_of_eq_None_iff)
      with d'(4) [of "?dst @ q"] below [of y r] False Cons show ?thesis by auto
    qed
  qed
  moreover have "fs_view d' q = fs_view disk q" if "\<not> prefix ?dst q" for q
  proof -
    have "fs_view d' q = fs_view d q" using d'(4) [of q] that by (auto simp: prefix_def)
    with vd [of q] that view_prefix_dir [OF par, of q] show ?thesis by (auto simp: prefix_snoc)
  qed
  ultimately show "\<exists>disk'. copy_node (Dir es) ?dst disk = Ok disk' \<and> wf_node disk' \<and>
      holds_copy (Dir es) ?dst disk disk'"
    using d d' by (intro exI [of _ d']) (simp add: holds_copy_def)
qed

lemma copies_to_File: "copies_to (File c)"
  unfolding copies_to_def
proof (intro allI impI)
  fix par x and disk :: "'a node"
  assume *: "fs_view disk par = DirEntry" "\<forall>q. fs_view disk (par @ x # q) = NoEntry" "wf_node disk"
  then obtain d where d: "write_node (par @ [x]) c disk = Some d"
    using write_node_ok [of disk par x c] by auto
  with * show "\<exists>disk'. copy_node (File c) (par @ [x]) disk = Ok disk' \<and> wf_node disk' \<and>
      holds_copy (File c) (par @ [x]) disk disk'"
    using write_node_view [OF d] write_node_wf [OF d] by (auto simp: holds_copy_def)
qed

lemma copies_to_all: "wf_node n \<Longrightarrow> copies_to n"
proof (induction n)
  case (Dir es)
  then have "\<forall>e \<in> set es. copies_to (snd e)" by (auto simp: snds.simps)
  with Dir.prems show ?case by (rule copies_to_Dir)
qed (rule copies_to_File)

subsection \<open>What clients rely on\<close>

text \<open>
  \<open>vw\<close> is what the storage shows of a disk and \<open>ok\<close> the disks it works on.
\<close>

locale file_storage =
  fixes S :: "'c fs_storage" and vw :: "'c node \<Rightarrow> path \<Rightarrow> 'c entry" and ok :: "'c node \<Rightarrow> bool"
  assumes below: "vw d (p @ q) \<noteq> NoEntry \<Longrightarrow> q \<noteq> [] \<Longrightarrow> vw d p = DirEntry"
    and finite_entries: "finite {p. vw d p \<noteq> NoEntry}"
    and read: "fs_read_file S p d = (case vw d p of FileEntry c \<Rightarrow> Ok c | _ \<Rightarrow> Err (Execution ''Failed to read file''))"
    and list_ok: "ok d \<Longrightarrow> vw d p = DirEntry \<Longrightarrow> \<exists>es. fs_list_files S p d = Ok es \<and>
      distinct (map fse_name es) \<and>
      (\<forall>e \<in> set es. vw d (p @ [fse_name e]) \<noteq> NoEntry \<and>
         (fse_directory e \<longleftrightarrow> vw d (p @ [fse_name e]) = DirEntry)) \<and>
      (\<forall>x. vw d (p @ [x]) \<noteq> NoEntry \<longrightarrow> x \<in> fse_name ` set es)"
    and write_view: "fs_write_file S p c d = Ok d' \<Longrightarrow> ok d \<Longrightarrow> ok d' \<and> vw d' = (vw d)(p := FileEntry c)"
    and write_ok: "ok d \<Longrightarrow> vw d p = DirEntry \<Longrightarrow> vw d (p @ [x]) \<noteq> DirEntry \<Longrightarrow>
      is_ok (fs_write_file S (p @ [x]) c d)"
    and mkdir_view: "fs_mkdir_all S p d = Ok d' \<Longrightarrow> ok d \<Longrightarrow>
      ok d' \<and> vw d' q = (if prefix q p then DirEntry else vw d q)"
    and mkdir_ok: "ok d \<Longrightarrow> (\<And>q c. prefix q p \<Longrightarrow> vw d q \<noteq> FileEntry c) \<Longrightarrow> is_ok (fs_mkdir_all S p d)"
    and copy_ok: "ok d \<Longrightarrow> vw d src = DirEntry \<Longrightarrow> vw d par = DirEntry \<Longrightarrow>
      (\<And>q. vw d (par @ x # q) = NoEntry) \<Longrightarrow>
      \<exists>d'. fs_copy S src (par @ [x]) d = Ok d' \<and> ok d' \<and>
        (\<forall>q. vw d' (par @ x # q) = vw d (src @ q)) \<and>
        (\<forall>q. \<not> prefix (par @ [x]) q \<longrightarrow> vw d' q = vw d q)"
begin

lemma dir_prefix: "vw d p = DirEntry \<Longrightarrow> prefix q p \<Longrightarrow> vw d q = DirEntry"
  using below [of d q "drop (length q) p"] by (cases "q = p") (fastforce simp: prefix_def)+

lemma mkdir_step:
  assumes "ok d" and "vw d p = DirEntry" and "vw d (p @ [x]) = NoEntry"
  obtains d' where "fs_mkdir_all S (p @ [x]) d = Ok d'" "ok d'" "vw d' = (vw d)(p @ [x] := DirEntry)"
proof -
  have "vw d q \<noteq> FileEntry c" if "prefix q (p @ [x])" for q c
    using that assms(3) dir_prefix [OF assms(2)] by (auto simp: prefix_snoc)
  then have "is_ok (fs_mkdir_all S (p @ [x]) d)" by (rule mkdir_ok [OF assms(1)])
  then obtain d' where d': "fs_mkdir_all S (p @ [x]) d = Ok d'" by (auto simp: is_ok_iff)
  have "vw d' q = ((vw d)(p @ [x] := DirEntry)) q" for q
    using mkdir_view [OF d' assms(1), of q] dir_prefix [OF assms(2), of q] by (auto simp: prefix_snoc)
  with that [OF d'] mkdir_view [OF d' assms(1)] show ?thesis by blast
qed

lemma write_step:
  assumes "ok d" and "vw d p = DirEntry" and "vw d (p @ [x]) \<noteq> DirEntry"
  obtains d' where "fs_write_file S (p @ [x]) c d = Ok d'" "ok d'" "vw d' = (vw d)(p @ [x] := FileEntry c)"
  using write_ok [OF assms, of c] write_view [OF _ assms(1)] by (auto simp: is_ok_iff)

end

lemma finite_view: "finite {p. fs_view n p \<noteq> NoEntry}"
proof (induction n)
  case (File c)
  have "{p. fs_view (File c) p \<noteq> NoEntry} \<subseteq> {[]}" by auto
  then show ?case by (rule finite_subset) simp
next
  case (Dir es)
  have "{p. fs_view (Dir es) p \<noteq> NoEntry} \<subseteq>
      insert [] (\<Union>e \<in> set es. (#) (fst e) ` {p. fs_view (snd e) p \<noteq> NoEntry})"
  proof
    fix p assume "p \<in> {p. fs_view (Dir es) p \<noteq> NoEntry}"
    then show "p \<in> insert [] (\<Union>e \<in> set es. (#) (fst e) ` {p. fs_view (snd e) p \<noteq> NoEntry})"
      by (cases p) (force split: option.splits dest: map_of_SomeD)+
  qed
  moreover have "finite {p. fs_view (snd e) p \<noteq> NoEntry}" if "e \<in> set es" for e
    using Dir that by (cases e) (auto simp: snds.simps)
  ultimately show ?case by (meson finite.insertI finite_UN_I finite_imageI finite_set finite_subset)
qed

lemma node_at_wf: "node_at n p = Some m \<Longrightarrow> wf_node n \<Longrightarrow> wf_node m"
proof (induction n p rule: node_at.induct)
  case (3 es x p)
  then show ?case by (auto split: option.splits dest: wf_child simp del: wf_node.simps)
qed auto

lemma list_node:
  assumes "wf_node n" and "fs_view n p = DirEntry"
  obtains es where "node_at n p = Some (Dir es)" "distinct (map fst es)"
    "\<And>x. fs_view n (p @ [x]) = (case map_of es x of Some m \<Rightarrow> fs_view m [] | None \<Rightarrow> NoEntry)"
proof -
  obtain es where es: "node_at n p = Some (Dir es)"
    using assms(2) by (cases "node_at n p" rule: entry_of.cases) (auto simp: fs_view_def)
  from node_at_wf [OF es assms(1)] es that show ?thesis by (auto simp: view_append)
qed

definition disk_ok :: "path \<Rightarrow> 'c node \<Rightarrow> bool" where
  "disk_ok dir disk \<longleftrightarrow> wf_node disk \<and> fs_view disk dir = DirEntry"

lemma prefixed_storage_sel [simp]:
  "fs_write_file (prefixed_storage dir) = prefixed_write_file dir"
  "fs_read_file (prefixed_storage dir) = prefixed_read_file dir"
  "fs_list_files (prefixed_storage dir) = prefixed_list_files dir"
  "fs_copy (prefixed_storage dir) = prefixed_copy dir"
  "fs_mkdir_all (prefixed_storage dir) = prefixed_mkdir_all dir"
  by (simp_all add: prefixed_storage_def)

lemma prefixed_list_ok:
  assumes "disk_ok dir d" and "fs_view d (dir @ p) = DirEntry"
  shows "\<exists>es. prefixed_list_files dir p d = Ok es \<and> distinct (map fse_name es) \<and>
    (\<forall>e \<in> set es. fs_view d (dir @ p @ [fse_name e]) \<noteq> NoEntry \<and>
       (fse_directory e \<longleftrightarrow> fs_view d (dir @ p @ [fse_name e]) = DirEntry)) \<and>
    (\<forall>x. fs_view d (dir @ p @ [x]) \<noteq> NoEntry \<longrightarrow> x \<in> fse_name ` set es)"
proof -
  obtain es where es: "node_at d (dir @ p) = Some (Dir es)" "distinct (map fst es)"
    and vw: "\<And>x. fs_view d (dir @ p @ [x]) =
      (case map_of es x of Some m \<Rightarrow> fs_view m [] | None \<Rightarrow> NoEntry)"
    using list_node [of d "dir @ p"] assms by (auto simp: disk_ok_def)
  let ?fes = "map (\<lambda>(x, n). \<lparr>fse_name = x, fse_directory =
      (case n of Dir _ \<Rightarrow> True | File _ \<Rightarrow> False)\<rparr>) es"
  have list: "prefixed_list_files dir p d = Ok ?fes" by (simp add: prefixed_list_files_def es(1))
  have "map fse_name ?fes = map fst es" by (auto simp: comp_def case_prod_beta)
  with es(2) have names: "distinct (map fse_name ?fes)" by (simp only:)
  have listed: "\<forall>e \<in> set ?fes. fs_view d (dir @ p @ [fse_name e]) \<noteq> NoEntry \<and>
      (fse_directory e \<longleftrightarrow> fs_view d (dir @ p @ [fse_name e]) = DirEntry)"
  proof
    fix e assume "e \<in> set ?fes"
    then obtain x n where e: "(x, n) \<in> set es" "fse_name e = x"
      "fse_directory e = (case n of Dir _ \<Rightarrow> True | File _ \<Rightarrow> False)" by auto
    then have "map_of es x = Some n" using es(2) by simp
    with vw [of x] e show "fs_view d (dir @ p @ [fse_name e]) \<noteq> NoEntry \<and>
        (fse_directory e \<longleftrightarrow> fs_view d (dir @ p @ [fse_name e]) = DirEntry)"
      by (cases n) auto
  qed
  have "x \<in> fse_name ` set ?fes" if "fs_view d (dir @ p @ [x]) \<noteq> NoEntry" for x
    using that vw [of x] by (force split: option.splits dest: map_of_SomeD)
  with list names listed show ?thesis by blast
qed

lemma prefixed_copy_ok:
  assumes "disk_ok dir d" and "fs_view d (dir @ src) = DirEntry" and "fs_view d (dir @ par) = DirEntry"
    and "\<And>q. fs_view d (dir @ par @ x # q) = NoEntry"
  shows "\<exists>d'. prefixed_copy dir src (par @ [x]) d = Ok d' \<and> disk_ok dir d' \<and>
    (\<forall>q. fs_view d' (dir @ par @ x # q) = fs_view d (dir @ src @ q)) \<and>
    (\<forall>q. \<not> prefix (par @ [x]) q \<longrightarrow> fs_view d' (dir @ q) = fs_view d (dir @ q))"
proof -
  obtain es where n: "node_at d (dir @ src) = Some (Dir es)"
    using list_node [of d "dir @ src"] assms(1,2) by (auto simp: disk_ok_def)
  have wf: "wf_node d" "wf_node (Dir es)" using node_at_wf [OF n] assms(1) by (auto simp: disk_ok_def)
  have fresh: "\<And>q. fs_view d ((dir @ par) @ x # q) = NoEntry" using assms(4) by simp
  obtain d' where d': "copy_node (Dir es) ((dir @ par) @ [x]) d = Ok d'" "wf_node d'"
    "holds_copy (Dir es) ((dir @ par) @ [x]) d d'"
    by (rule copies_toD [OF copies_to_all [OF wf(2)] assms(3) fresh wf(1)])
  have new: "fs_view d' (dir @ par @ x # q) = fs_view (Dir es) q" for q
    using d'(3) unfolding holds_copy_def by simp
  have old: "\<not> prefix (dir @ par @ [x]) q \<Longrightarrow> fs_view d' q = fs_view d q" for q
    using d'(3) unfolding holds_copy_def by simp
  have src: "fs_view d (dir @ src @ q) = fs_view (Dir es) q" for q
    using view_append [of d "dir @ src" q] n by simp
  have "disk_ok dir d'"
    using assms(1) d'(2) old [of dir] by (simp add: disk_ok_def prefix_def)
  moreover have "\<forall>q. \<not> prefix (par @ [x]) q \<longrightarrow> fs_view d' (dir @ q) = fs_view d (dir @ q)"
    using old by simp
  moreover have "prefixed_copy dir src (par @ [x]) d = Ok d'"
    using d'(1) n by (simp add: prefixed_copy_def)
  ultimately show ?thesis unfolding src using new by blast
qed

interpretation prefixed: file_storage "prefixed_storage dir" "\<lambda>d p. fs_view d (dir @ p)" "disk_ok dir"
  for dir :: path
proof (unfold_locales, goal_cases)
  case (1 d p q)
  then show ?case using view_below [of d "dir @ p" q] by simp
next
  case (2 d)
  have "(@) dir ` {p. fs_view d (dir @ p) \<noteq> NoEntry} \<subseteq> {p. fs_view d p \<noteq> NoEntry}" by auto
  then have "finite ((@) dir ` {p. fs_view d (dir @ p) \<noteq> NoEntry})"
    using finite_view finite_subset by blast
  then show ?case by (rule finite_imageD) (simp add: inj_on_def)
next
  case (3 p d)
  then show ?case
    by (cases "node_at d (dir @ p)" rule: entry_of.cases)
      (auto simp: prefixed_read_file_def fs_view_def)
next
  case (4 d p)
  then show ?case using prefixed_list_ok [of dir d p] by simp
next
  case (5 p c d d')
  then have w: "write_node (dir @ p) c d = Some d'" by (simp add: prefixed_write_file_def result_simps)
  have "fs_view d' dir = DirEntry"
    using 5 write_node_view [OF w, of dir] write_node_target [OF w] by (cases "p = []") (auto simp: disk_ok_def)
  with 5 write_node_view [OF w] write_node_wf [OF w] show ?case by (auto simp: disk_ok_def)
next
  case (6 d p x c)
  then show ?case using write_node_ok [of d "dir @ p" x c]
    by (auto simp: prefixed_write_file_def disk_ok_def)
next
  case (7 p d d' q)
  then have w: "mkdir_node (dir @ p) d = Some d'" by (simp add: prefixed_mkdir_all_def result_simps)
  from 7 mkdir_node_view [OF w] mkdir_node_wf [OF w] show ?case by (auto simp: disk_ok_def)
next
  case (8 d p)
  have "fs_view d q \<noteq> FileEntry c" if "prefix q (dir @ p)" for q c
    using that 8 view_prefix_dir [of d dir q] by (auto simp: prefix_append disk_ok_def)
  then show ?case using mkdir_node_ok [of "dir @ p" d] by (auto simp: prefixed_mkdir_all_def)
next
  case (9 d src par x)
  then show ?case using prefixed_copy_ok [of dir d src par x] by simp
qed

lemma tempdir_ops_prefixed: "tempdir_ops (from_tempdir dir) = prefixed_storage dir"
  by (simp add: tempdir_ops_def from_tempdir_def prefixed_storage_def)

interpretation tempdir: file_storage "tempdir_ops (from_tempdir dir)"
    "\<lambda>d p. fs_view d (dir @ p)" "disk_ok dir" for dir :: path
  unfolding tempdir_ops_prefixed by (rule prefixed.file_storage_axioms)

subsection \<open>The copy between two storages\<close>

text \<open>
  While the queue is worked off, the destination shows what the source shows, except below
  the directories still queued and below the names of the set \<open>todo\<close> of the directory at
  hand, where it shows nothing.
\<close>

definition awaited :: "path list \<Rightarrow> path set \<Rightarrow> path \<Rightarrow> bool" where
  "awaited queue todo r \<longleftrightarrow> (\<exists>p \<in> set queue. strict_prefix p r) \<or> (\<exists>b \<in> todo. prefix b r)"

definition antichain :: "path list \<Rightarrow> bool" where
  "antichain queue \<longleftrightarrow> distinct queue \<and> (\<forall>p \<in> set queue. \<forall>q \<in> set queue. prefix p q \<longrightarrow> p = q)"

locale storage_pair = src: file_storage S vS okS + dst: file_storage D vD okD
  for S :: "'c fs_storage" and vS okS and D :: "'c fs_storage" and vD okD
begin

definition matches :: "'c node \<Rightarrow> path \<Rightarrow> path \<Rightarrow> path list \<Rightarrow> path set \<Rightarrow> 'c node \<Rightarrow> bool" where
  "matches sd s d queue todo dd \<longleftrightarrow>
     (\<forall>r. vD dd (d @ r) = (if awaited queue todo r then NoEntry else vS sd (s @ r)))"

lemma copy_entry_step:
  assumes okD: "okD dd" and m: "matches sd s d queue todo dd"
    and f: "\<not> awaited queue todo f" "vS sd (s @ f) = DirEntry"
    and x: "f @ [fse_name e] \<in> todo" "\<forall>b \<in> todo. \<exists>y. b = f @ [y]"
    and q: "\<forall>p \<in> set queue. \<not> strict_prefix p (f @ [fse_name e])"
    and e: "vS sd (s @ f @ [fse_name e]) \<noteq> NoEntry"
      "fse_directory e \<longleftrightarrow> vS sd (s @ f @ [fse_name e]) = DirEntry"
  shows "\<exists>dd'. copy_entry S s sd D d f (dd, queue) e =
      Ok (dd', queue @ (if fse_directory e then [f @ [fse_name e]] else [])) \<and> okD dd' \<and>
    matches sd s d (queue @ (if fse_directory e then [f @ [fse_name e]] else []))
      (todo - {f @ [fse_name e]}) dd' \<and>
    (\<forall>p. \<not> prefix d p \<longrightarrow> vD dd' p = vD dd p)"
proof -
  let ?x = "f @ [fse_name e]"
  have dir: "vD dd (d @ f) = DirEntry" using m f by (simp add: matches_def)
  have free: "vD dd ((d @ f) @ [fse_name e]) = NoEntry"
    using m x(1) by (force simp: matches_def awaited_def)
  have siblings: "(\<exists>b \<in> todo - {?x}. prefix b r) \<longleftrightarrow> (\<exists>b \<in> todo. prefix b r) \<and> \<not> prefix ?x r" for r
    using x by (auto simp: prefix_def)
  show ?thesis
  proof (cases "fse_directory e")
    case True
    obtain dd' where dd': "fs_mkdir_all D ((d @ f) @ [fse_name e]) dd = Ok dd'" "okD dd'"
      "vD dd' = (vD dd)((d @ f) @ [fse_name e] := DirEntry)"
      by (rule dst.mkdir_step [OF okD dir free])
    have "awaited (queue @ [?x]) (todo - {?x}) r \<longleftrightarrow> awaited queue todo r \<and> r \<noteq> ?x" for r
      unfolding awaited_def siblings using x(1) q by (auto simp: strict_prefix_def)
    with m e True dd' have "matches sd s d (queue @ [?x]) (todo - {?x}) dd'"
      by (auto simp: matches_def)
    with dd' True show ?thesis by (auto simp: copy_entry_def)
  next
    case False
    then obtain c where c: "vS sd (s @ ?x) = FileEntry c" using e by (cases "vS sd (s @ ?x)") auto
    obtain dd' where dd': "fs_write_file D ((d @ f) @ [fse_name e]) c dd = Ok dd'" "okD dd'"
      "vD dd' = (vD dd)((d @ f) @ [fse_name e] := FileEntry c)"
      using dst.write_step [OF okD dir] free by (metis entry.distinct(3))
    have "vS sd (s @ r) = NoEntry" if "strict_prefix ?x r" for r
      using src.below [of sd "s @ ?x" "drop (length ?x) r"] that c by (fastforce simp: strict_prefix_def prefix_def)
    then have "matches sd s d queue (todo - {?x}) dd'"
      using m dd'(3) c q x(1) unfolding matches_def awaited_def siblings
      by (auto simp: strict_prefix_def)
    with dd' False c show ?thesis by (auto simp: copy_entry_def src.read)
  qed
qed

lemma copy_entries_step:
  assumes okD: "okD dd" and f: "vS sd (s @ f) = DirEntry"
    and queue: "\<forall>p \<in> set queue. \<not> prefix p f"
    and es: "distinct (map fse_name es)"
      "\<forall>e \<in> set es. vS sd (s @ f @ [fse_name e]) \<noteq> NoEntry \<and>
         (fse_directory e \<longleftrightarrow> vS sd (s @ f @ [fse_name e]) = DirEntry)"
    and m: "matches sd s d queue (range (\<lambda>x. f @ [x])) dd"
  shows "\<exists>dd'. fold_result (copy_entry S s sd D d f) (dd, queue) es =
      Ok (dd', queue @ map (\<lambda>e. f @ [fse_name e]) (filter fse_directory es)) \<and> okD dd' \<and>
    matches sd s d (queue @ map (\<lambda>e. f @ [fse_name e]) (filter fse_directory es))
      (range (\<lambda>x. f @ [x]) - (\<lambda>e. f @ [fse_name e]) ` set es) dd' \<and>
    (\<forall>p. \<not> prefix d p \<longrightarrow> vD dd' p = vD dd p)"
  using es
proof (induction es rule: rev_induct)
  case Nil
  with okD m show ?case by simp
next
  case (snoc e es)
  let ?q = "queue @ map (\<lambda>e. f @ [fse_name e]) (filter fse_directory es)"
  let ?t = "range (\<lambda>x. f @ [x]) - (\<lambda>e. f @ [fse_name e]) ` set es"
  obtain d1 where d1: "fold_result (copy_entry S s sd D d f) (dd, queue) es = Ok (d1, ?q)" "okD d1"
    "matches sd s d ?q ?t d1" "\<forall>p. \<not> prefix d p \<longrightarrow> vD d1 p = vD dd p"
    using snoc by auto
  have "\<not> awaited ?q ?t f" using queue by (auto simp: awaited_def strict_prefix_def)
  moreover have "f @ [fse_name e] \<in> ?t" using snoc.prems(1) by auto
  moreover have "\<forall>p \<in> set ?q. \<not> strict_prefix p (f @ [fse_name e])"
    using queue by (auto simp: strict_prefix_def prefix_snoc)
  ultimately obtain d2 where d2: "copy_entry S s sd D d f (d1, ?q) e =
      Ok (d2, ?q @ (if fse_directory e then [f @ [fse_name e]] else []))" "okD d2"
    "matches sd s d (?q @ (if fse_directory e then [f @ [fse_name e]] else []))
      (?t - {f @ [fse_name e]}) d2" "\<forall>p. \<not> prefix d p \<longrightarrow> vD d2 p = vD d1 p"
    using copy_entry_step [OF d1(2,3) _ f, of e] snoc.prems(2) by auto
  have "?t - {f @ [fse_name e]} = range (\<lambda>x. f @ [x]) - (\<lambda>e. f @ [fse_name e]) ` set (es @ [e])"
    by auto
  with d1 d2 show ?case by (intro exI [of _ d2]) (auto simp: fold_result_append split: if_splits)
qed

text \<open>The directories of the source that are still to be visited.\<close>

definition unvisited :: "'c node \<Rightarrow> path \<Rightarrow> path list \<Rightarrow> path set" where
  "unvisited sd s queue = {r. vS sd (s @ r) = DirEntry \<and> (\<exists>p \<in> set queue. prefix p r)}"

lemma finite_unvisited: "finite (unvisited sd s queue)"
proof -
  have "(@) s ` unvisited sd s queue \<subseteq> {p. vS sd p \<noteq> NoEntry}" by (auto simp: unvisited_def)
  then have "finite ((@) s ` unvisited sd s queue)"
    using src.finite_entries finite_subset by blast
  then show ?thesis by (rule finite_imageD) (simp add: inj_on_def)
qed

lemma strict_prefix_child: "strict_prefix f r \<longleftrightarrow> (\<exists>x. prefix (f @ [x]) r)"
proof
  assume "strict_prefix f r"
  then obtain x zs where "r = f @ x # zs" by (rule strict_prefixE')
  then show "\<exists>x. prefix (f @ [x]) r" by auto
qed (auto simp: strict_prefix_def prefix_def)

lemma antichain_children:
  assumes "antichain (queue @ [f])" and "distinct xs"
  shows "antichain (queue @ map (\<lambda>x. f @ [x]) xs)"
proof -
  have apart: "\<not> prefix p f" "\<not> prefix f p" if "p \<in> set queue" for p
    using assms(1) that by (auto simp: antichain_def)
  have "\<not> prefix (f @ [x]) p" if "p \<in> set queue" for p x
    using apart(2) [OF that] append_prefixD by blast
  with apart assms show ?thesis
    by (auto simp: antichain_def distinct_map inj_on_def prefix_snoc)
qed

lemma copy_dir_step:
  assumes ok: "okS sd" "okD dd" and anti: "antichain (rest @ [f])"
    and dirs: "\<forall>p \<in> set (rest @ [f]). vS sd (s @ p) = DirEntry"
    and m: "matches sd s d (rest @ [f]) {} dd"
  shows "\<exists>es dd' queue'. fs_list_files S (s @ f) sd = Ok es \<and>
    fold_result (copy_entry S s sd D d f) (dd, rest) es = Ok (dd', queue') \<and> okD dd' \<and>
    antichain queue' \<and> (\<forall>p \<in> set queue'. vS sd (s @ p) = DirEntry) \<and> matches sd s d queue' {} dd' \<and>
    card (unvisited sd s queue') < card (unvisited sd s (rest @ [f])) \<and>
    (\<forall>p. \<not> prefix d p \<longrightarrow> vD dd' p = vD dd p)"
proof -
  have f: "vS sd (s @ f) = DirEntry" and apart: "\<forall>p \<in> set rest. \<not> prefix p f"
    using dirs anti by (auto simp: antichain_def)
  obtain es where es: "fs_list_files S (s @ f) sd = Ok es" "distinct (map fse_name es)"
    "\<forall>e \<in> set es. vS sd (s @ f @ [fse_name e]) \<noteq> NoEntry \<and>
       (fse_directory e \<longleftrightarrow> vS sd (s @ f @ [fse_name e]) = DirEntry)"
    "\<forall>x. vS sd (s @ f @ [x]) \<noteq> NoEntry \<longrightarrow> x \<in> fse_name ` set es"
    using src.list_ok [OF ok(1) f] by auto
  let ?q = "rest @ map (\<lambda>e. f @ [fse_name e]) (filter fse_directory es)"
  have "matches sd s d rest (range (\<lambda>x. f @ [x])) dd"
    using m by (simp add: matches_def awaited_def strict_prefix_child [of f])
  from copy_entries_step [OF ok(2) f apart es(2,3) this] obtain dd' where
    dd': "fold_result (copy_entry S s sd D d f) (dd, rest) es = Ok (dd', ?q)" "okD dd'"
    "matches sd s d ?q (range (\<lambda>x. f @ [x]) - (\<lambda>e. f @ [fse_name e]) ` set es) dd'"
    "\<forall>p. \<not> prefix d p \<longrightarrow> vD dd' p = vD dd p" by blast
  have gone: "vS sd (s @ r) = NoEntry" if "prefix (f @ [x]) r" "x \<notin> fse_name ` set es" for x r
  proof (rule ccontr)
    assume "vS sd (s @ r) \<noteq> NoEntry"
    moreover from that(1) obtain zs where "r = (f @ [x]) @ zs" by (auto simp: prefix_def)
    ultimately have "vS sd (s @ f @ [x]) \<noteq> NoEntry"
      using src.below [of sd "s @ f @ [x]" zs] by (cases zs) auto
    with es(4) that(2) show False by blast
  qed
  have "matches sd s d ?q {} dd'"
    using dd'(3) gone unfolding matches_def awaited_def by (auto simp: image_iff)
  moreover have "antichain ?q"
    using antichain_children [OF anti, of "map fse_name (filter fse_directory es)"] es(2)
    by (simp add: comp_def distinct_map_filter)
  moreover have "\<forall>p \<in> set ?q. vS sd (s @ p) = DirEntry" using dirs es(3) by auto
  moreover have "card (unvisited sd s ?q) < card (unvisited sd s (rest @ [f]))"
  proof (rule psubset_card_mono [OF finite_unvisited])
    have "f \<in> unvisited sd s (rest @ [f])" using f by (simp add: unvisited_def)
    moreover have "f \<notin> unvisited sd s ?q" using apart by (auto simp: unvisited_def)
    moreover have "unvisited sd s ?q \<subseteq> unvisited sd s (rest @ [f])"
      by (auto simp: unvisited_def dest: append_prefixD)
    ultimately show "unvisited sd s ?q \<subset> unvisited sd s (rest @ [f])" by blast
  qed
  ultimately show ?thesis using es(1) dd' by blast
qed

lemma copy_queue_spec:
  assumes "okS sd" and "okD dd" and "antichain queue" and "\<forall>p \<in> set queue. vS sd (s @ p) = DirEntry"
    and "matches sd s d queue {} dd" and "card (unvisited sd s queue) \<le> fuel"
  shows "\<exists>dd'. copy_queue fuel S s sd D d queue dd = Some (Ok dd') \<and> okD dd' \<and>
    (\<forall>r. vD dd' (d @ r) = vS sd (s @ r)) \<and> (\<forall>p. \<not> prefix d p \<longrightarrow> vD dd' p = vD dd p)"
  using assms(2-6)
proof (induction fuel arbitrary: queue dd)
  case 0
  have "queue = []"
  proof (rule ccontr)
    assume "queue \<noteq> []"
    then have "hd queue \<in> unvisited sd s queue" using "0.prems"(3) by (auto simp: unvisited_def)
    with "0.prems"(5) finite_unvisited show False by fastforce
  qed
  with "0.prems" show ?case by (simp add: matches_def awaited_def)
next
  case (Suc fuel)
  show ?case
  proof (cases queue rule: rev_cases)
    case Nil
    with Suc.prems show ?thesis by (simp add: matches_def awaited_def)
  next
    case (snoc rest f)
    from copy_dir_step [OF assms(1) Suc.prems(1) Suc.prems(2-4) [unfolded snoc]]
    obtain es dd' queue' where step: "fs_list_files S (s @ f) sd = Ok es"
      "fold_result (copy_entry S s sd D d f) (dd, rest) es = Ok (dd', queue')" "okD dd'"
      "antichain queue'" "\<forall>p \<in> set queue'. vS sd (s @ p) = DirEntry" "matches sd s d queue' {} dd'"
      "card (unvisited sd s queue') < card (unvisited sd s queue)"
      "\<forall>p. \<not> prefix d p \<longrightarrow> vD dd' p = vD dd p" unfolding snoc by blast
    have "copy_queue (Suc fuel) S s sd D d queue dd = copy_queue fuel S s sd D d queue' dd'"
    proof -
      obtain q qs where "queue = q # qs" using snoc by (metis neq_Nil_conv snoc_eq_iff_butlast)
      with snoc have "last (q # qs) = f" "butlast (q # qs) = rest"
        by (metis last_snoc, metis butlast_snoc)
      with step(1,2) \<open>queue = q # qs\<close> show ?thesis by (simp add: Let_def)
    qed
    with Suc.IH [OF step(3-6)] step(7,8) Suc.prems(5) show ?thesis by auto
  qed
qed

lemma copy_dir_spec:
  assumes "okS sd" and "okD dd" and "vS sd s = DirEntry"
    and "\<And>q c. prefix q d \<Longrightarrow> vD dd q \<noteq> FileEntry c" and "\<And>r. r \<noteq> [] \<Longrightarrow> vD dd (d @ r) = NoEntry"
    and "card {r. vS sd (s @ r) = DirEntry} \<le> fuel"
  shows "\<exists>dd'. copy_dir_between_systems fuel S s sd D d dd = Some (Ok dd') \<and> okD dd' \<and>
    (\<forall>r. vD dd' (d @ r) = vS sd (s @ r)) \<and>
    (\<forall>p. \<not> prefix d p \<longrightarrow> vD dd' p = (if prefix p d then DirEntry else vD dd p))"
proof -
  obtain d1 where d1: "fs_mkdir_all D d dd = Ok d1"
    using dst.mkdir_ok [OF assms(2,4)] by (auto simp: is_ok_iff)
  note v1 = dst.mkdir_view [OF d1 assms(2)]
  have "vD d1 (d @ r) = (if awaited [[]] {} r then NoEntry else vS sd (s @ r))" for r
    using v1 [of "d @ r"] assms(3,5) by (cases "r = []") (auto simp: awaited_def strict_prefix_def)
  then have "matches sd s d [[]] {} d1" by (simp add: matches_def)
  moreover have "card (unvisited sd s [[]]) \<le> fuel" using assms(6) by (simp add: unvisited_def)
  moreover have "antichain [[]]" "\<forall>p \<in> set [[]]. vS sd (s @ p) = DirEntry" "okD d1"
    using assms(3) v1 by (simp_all add: antichain_def)
  ultimately obtain dd' where "copy_queue fuel S s sd D d [[]] d1 = Some (Ok dd')" "okD dd'"
    "\<forall>r. vD dd' (d @ r) = vS sd (s @ r)" "\<forall>p. \<not> prefix d p \<longrightarrow> vD dd' p = vD d1 p"
    using copy_queue_spec [of sd d1 "[[]]" s d fuel] assms(1) by blast
  with d1 v1 show ?thesis by (auto simp: copy_dir_between_systems_def)
qed

end

interpretation local_pair: storage_pair "prefixed_storage a" "\<lambda>d p. fs_view d (a @ p)" "disk_ok a"
    "prefixed_storage b" "\<lambda>d p. fs_view d (b @ p)" "disk_ok b" for a b :: path
  by (rule storage_pair.intro) (rule prefixed.file_storage_axioms)+

subsection \<open>Properties\<close>

text \<open>
  C23: copying a directory between two storages ends and is exact.  If the source is a
  directory and nothing is in the way below the destination, then the worklist loop ends
  successfully within as many rounds as the source has directories, the destination shows at
  every relative path exactly what the source shows there, and outside of it only its parent
  directories may be new.
\<close>

theorem copy_dir_between_systems_exact:
  assumes "disk_ok a sdisk" and "disk_ok b ddisk" and "fs_view sdisk (a @ s) = DirEntry"
    and "\<And>q c. prefix q d \<Longrightarrow> fs_view ddisk (b @ q) \<noteq> FileEntry c"
    and "\<And>r. r \<noteq> [] \<Longrightarrow> fs_view ddisk (b @ d @ r) = NoEntry"
    and "card {r. fs_view sdisk (a @ s @ r) = DirEntry} \<le> fuel"
  shows "\<exists>ddisk'. copy_dir_between_systems fuel (prefixed_storage a) s sdisk (prefixed_storage b) d ddisk =
      Some (Ok ddisk') \<and> disk_ok b ddisk' \<and>
    (\<forall>r. fs_view ddisk' (b @ d @ r) = fs_view sdisk (a @ s @ r)) \<and>
    (\<forall>p. \<not> prefix d p \<longrightarrow>
      fs_view ddisk' (b @ p) = (if prefix p d then DirEntry else fs_view ddisk (b @ p)))"
  by (rule local_pair.copy_dir_spec [OF assms])

definition example_disk :: "nat node" where
  "example_disk = Dir [(''cp'', Dir [(''CURRENT'', File 1), (''sst'', Dir [(''1'', File 7)])])]"

lemma example_disk_dirs: "{r. fs_view example_disk ([] @ [''cp''] @ r) = DirEntry} \<subseteq> {[], [''sst'']}"
proof
  fix r assume "r \<in> {r. fs_view example_disk ([] @ [''cp''] @ r) = DirEntry}"
  then show "r \<in> {[], [''sst'']}"
    by (cases r; cases "tl r") (auto simp: example_disk_def split: if_splits)
qed

theorem copy_dir_between_systems_exact_witness:
  "\<exists>ddisk'. copy_dir_between_systems 2 (prefixed_storage []) [''cp''] example_disk
      (prefixed_storage []) [''up'', ''cp''] (Dir []) = Some (Ok ddisk') \<and>
    (\<forall>r. fs_view ddisk' ([] @ [''up'', ''cp''] @ r) = fs_view example_disk ([] @ [''cp''] @ r))"
proof -
  have "card {r. fs_view example_disk ([] @ [''cp''] @ r) = DirEntry} \<le> 2"
    using card_mono [OF _ example_disk_dirs] by simp
  moreover have "disk_ok [] example_disk" "disk_ok [] (Dir [] :: nat node)"
    "fs_view example_disk ([] @ [''cp'']) = DirEntry"
    by (simp_all add: disk_ok_def example_disk_def)
  moreover have "fs_view (Dir [] :: nat node) ([] @ q) \<noteq> FileEntry c" for q c by simp
  moreover have "fs_view (Dir [] :: nat node) ([] @ [''up'', ''cp''] @ r) = NoEntry" for r by simp
  ultimately show ?thesis
    using copy_dir_between_systems_exact [of "[]" example_disk "[]" "Dir []" "[''cp'']" "[''up'', ''cp'']" 2]
    by blast
qed

end
