(* ===== verification/Checkpoint_Storage.thy ===== *)
theory Checkpoint_Storage
  imports Partitioning File_System
begin

text \<open>
  \<open>src/streaming/state/checkpoint_storage.rs\<close>: the index of completed checkpoints an
  operator keeps in \<open>latest.json\<close>, and the search for checkpoint parts that together
  cover a partition range.

  Paths are lists of components.  The JSON and UTF-8 codec of the index is the argument
  \<open>json\<close>, random identifiers and the clock are arguments as well.  The theorems show that
  a successful search tiles the searched range with parts of distinct checkpoints, that it
  finds a tiling whenever the available ranges are listed by start and cover the range, and
  that an index entry written is found again; further ones show by example where the code
  differs from its comments: the order of the ranges, the order of the entries, and the
  proportional rescaling of ranges that select hashes by remainder.
\<close>

subsection \<open>The index\<close>

record partition_info =
  pi_partition_range :: partition_range
  pi_timestamp :: u64
  pi_checkpoint_dir :: path

record checkpoint_entry =
  ce_id :: string
  ce_partitions :: "partition_info list"

record latest_checkpoints =
  completed_checkpoints :: "checkpoint_entry list"

record 'c state_storage =
  ss_storage :: "'c fs_storage"
  ss_root_dir :: path

record 'c json_lib =
  js_print :: "latest_checkpoints \<Rightarrow> 'c option"
  js_parse :: "'c \<Rightarrow> latest_checkpoints option"

definition get_checkpoint_path :: "'c state_storage \<Rightarrow> string \<Rightarrow> string \<Rightarrow> path" where
  "get_checkpoint_path st operator_id checkpoint_id =
     ss_root_dir st @ [''operators'', operator_id, ''checkpoints'', checkpoint_id]"

definition get_latest_json_path :: "'c state_storage \<Rightarrow> string \<Rightarrow> path" where
  "get_latest_json_path st operator_id = ss_root_dir st @ [''operators'', operator_id, ''latest.json'']"

definition read_latest_json ::
  "'c json_lib \<Rightarrow> 'c state_storage \<Rightarrow> path \<Rightarrow> 'c node \<Rightarrow> latest_checkpoints result" where
  "read_latest_json json st p disk =
     (case fs_read_file (ss_storage st) p disk of
        Ok content \<Rightarrow> ok_or (js_parse json content) (Internal ''Failed to parse JSON'')
      | Err _ \<Rightarrow> Ok \<lparr>completed_checkpoints = []\<rparr>)"

definition write_latest_json ::
  "'c json_lib \<Rightarrow> 'c state_storage \<Rightarrow> path \<Rightarrow> latest_checkpoints \<Rightarrow> 'c node \<Rightarrow> 'c node result" where
  "write_latest_json json st p latest disk =
     bind_result (ok_or (js_print json latest) (Internal ''Failed to serialize JSON'')) (\<lambda>content.
     bind_result (if p = [] then Ok disk else fs_mkdir_all (ss_storage st) (butlast p) disk) (\<lambda>disk'.
     fs_write_file (ss_storage st) p content disk'))"

definition start_checkpoint ::
  "'c state_storage \<Rightarrow> string \<Rightarrow> string \<Rightarrow> 'c node \<Rightarrow> (path \<times> 'c node) result" where
  "start_checkpoint st operator_id uuid disk =
     (let checkpoint_path = get_checkpoint_path st operator_id uuid
      in map_result (\<lambda>disk'. (checkpoint_path, disk'))
           (fs_mkdir_all (ss_storage st) checkpoint_path disk))"

text \<open>The update of the first entry with the identifier, or a new entry at the end.\<close>

fun add_partition ::
  "string \<Rightarrow> partition_info \<Rightarrow> checkpoint_entry list \<Rightarrow> checkpoint_entry list" where
  "add_partition checkpoint_id info [] = [\<lparr>ce_id = checkpoint_id, ce_partitions = [info]\<rparr>]"
| "add_partition checkpoint_id info (entry # entries) =
     (if ce_id entry = checkpoint_id
      then entry\<lparr>ce_partitions := ce_partitions entry @ [info]\<rparr> # entries
      else entry # add_partition checkpoint_id info entries)"

definition complete_checkpoint ::
  "'c json_lib \<Rightarrow> 'c state_storage \<Rightarrow> u64 \<Rightarrow> string \<Rightarrow> string \<Rightarrow> path \<Rightarrow> partition_range \<Rightarrow> 'c node
     \<Rightarrow> 'c node result" where
  "complete_checkpoint json st timestamp operator_id checkpoint_id checkpoint_dir prange disk =
     (let info = \<lparr>pi_partition_range = prange, pi_timestamp = timestamp,
                  pi_checkpoint_dir = checkpoint_dir\<rparr>;
          latest_path = get_latest_json_path st operator_id
      in bind_result (read_latest_json json st latest_path disk) (\<lambda>latest.
           write_latest_json json st latest_path
             \<lparr>completed_checkpoints = add_partition checkpoint_id info (completed_checkpoints latest)\<rparr>
             disk))"

subsection \<open>The search\<close>

record overlapping_partition =
  op_index :: nat
  op_selected_partition_range :: partition_range

definition normalize :: "usize \<Rightarrow> usize \<Rightarrow> partition_range \<Rightarrow> usize result" where
  "normalize target position prange = usize_div (usize_mul position target) (pr_partitions prange)"

definition normalize_partition ::
  "usize \<Rightarrow> nat \<times> partition_range \<Rightarrow> (nat \<times> usize \<times> usize) result" where
  "normalize_partition target p =
     (case p of (index, prange) \<Rightarrow>
        bind_result (normalize target (pr_start prange) prange) (\<lambda>normalized_start.
        bind_result (normalize target (pr_end prange) prange) (\<lambda>normalized_end.
        Ok (index, normalized_start, normalized_end))))"

text \<open>The loop over the normalised ranges.\<close>

fun scan_partitions ::
  "usize \<Rightarrow> usize \<Rightarrow> usize \<Rightarrow> overlapping_partition list \<Rightarrow> (nat \<times> usize \<times> usize) list
     \<Rightarrow> overlapping_partition list option result" where
  "scan_partitions target search_end current found [] =
     (if current < search_end then Ok None
      else Err (Panic ''Search algorithm finished without returning the success case''))"
| "scan_partitions target search_end current found ((index, start, end) # ps) =
     (if end > current
      then if start > current then Ok None
           else let overlap_end = min search_end end;
                    found' = found @ [\<lparr>op_index = index,
                      op_selected_partition_range = pr_new current overlap_end target\<rparr>]
                in if overlap_end \<ge> search_end then Ok (Some found')
                   else scan_partitions target search_end overlap_end found' ps
      else scan_partitions target search_end current found ps)"

text \<open>The key of \<open>sort_by_key\<close> is the first component of the tuples, the index.\<close>

definition get_non_overlapping_partitions ::
  "partition_range \<Rightarrow> partition_range list \<Rightarrow> overlapping_partition list option result" where
  "get_non_overlapping_partitions search_range available =
     (let target = fold max (map pr_partitions available) (pr_partitions search_range)
      in bind_result (normalize target (pr_start search_range) search_range) (\<lambda>search_start.
         bind_result (normalize target (pr_end search_range) search_range) (\<lambda>search_end.
         bind_result (collect_results (map (normalize_partition target) (enumerate 0 available)))
           (\<lambda>normalized.
              scan_partitions target search_end search_start []
                (sort_key (\<lambda>(start, _, _). start)
                  (filter (\<lambda>(_, start, end). start < search_end \<and> end > search_start) normalized))))))"

text \<open>
  The parts of one index entry that cover a range (the closure of \<open>find_map\<close>), and the
  first entry that has them.
\<close>

definition entry_parts ::
  "partition_range \<Rightarrow> checkpoint_entry \<Rightarrow> (path \<times> partition_range) list option result" where
  "entry_parts prange entry =
     map_result (map_option (map (\<lambda>overlap.
         (pi_checkpoint_dir (ce_partitions entry ! op_index overlap),
          op_selected_partition_range overlap))))
       (get_non_overlapping_partitions prange (map pi_partition_range (ce_partitions entry)))"

fun find_parts ::
  "partition_range \<Rightarrow> checkpoint_entry list \<Rightarrow> (string \<times> (path \<times> partition_range) list) option result" where
  "find_parts prange [] = Ok None"
| "find_parts prange (entry # entries) =
     bind_result (entry_parts prange entry) (\<lambda>parts.
       case parts of Some ps \<Rightarrow> Ok (Some (ce_id entry, ps)) | None \<Rightarrow> find_parts prange entries)"

definition get_operator_checkpoints ::
  "'c json_lib \<Rightarrow> 'c state_storage \<Rightarrow> string \<Rightarrow> partition_range \<Rightarrow> string \<Rightarrow> 'c node
     \<Rightarrow> (path \<times> partition_range) list result" where
  "get_operator_checkpoints json st operator_id prange checkpoint_id disk =
     bind_result (read_latest_json json st (get_latest_json_path st operator_id) disk) (\<lambda>latest.
     bind_result (find_parts prange
        (filter (\<lambda>entry. ce_id entry = checkpoint_id) (completed_checkpoints latest))) (\<lambda>found.
     ok_or (map_option snd found) (Internal ''No viable checkpoints found'')))"

definition get_latest_operator_checkpoints ::
  "'c json_lib \<Rightarrow> 'c state_storage \<Rightarrow> string \<Rightarrow> partition_range \<Rightarrow> 'c node
     \<Rightarrow> (string \<times> (path \<times> partition_range) list) result" where
  "get_latest_operator_checkpoints json st operator_id prange disk =
     bind_result (read_latest_json json st (get_latest_json_path st operator_id) disk) (\<lambda>latest.
     bind_result (find_parts prange (completed_checkpoints latest)) (\<lambda>found.
     ok_or found (Internal ''No viable checkpoints found'')))"

subsection \<open>The search tiles the range\<close>

text \<open>Sorting by the index changes nothing: the ranges are enumerated.\<close>

lemma sort_index_id: "sorted (map fst xs) \<Longrightarrow> sort_key (\<lambda>(start, _, _). start) xs = xs"
proof (rule sort_key_id_if_sorted)
  assume "sorted (map fst xs)"
  moreover have "map (\<lambda>(start, _, _). start) xs = map fst xs" by auto
  ultimately show "sorted (map (\<lambda>(start, _, _). start) xs)" by (simp only:)
qed

definition selected :: "overlapping_partition list \<Rightarrow> (nat \<times> nat) list" where
  "selected found = map (\<lambda>overlap. range_bounds (op_selected_partition_range overlap)) found"

definition part_of :: "usize \<Rightarrow> (nat \<times> usize \<times> usize) list \<Rightarrow> overlapping_partition \<Rightarrow> bool" where
  "part_of target ps overlap \<longleftrightarrow>
     pr_partitions (op_selected_partition_range overlap) = target \<and>
     (\<exists>s e. (op_index overlap, s, e) \<in> set ps \<and> s \<le> pr_start (op_selected_partition_range overlap) \<and>
        pr_end (op_selected_partition_range overlap) \<le> e)"

lemma part_of_mono: "part_of target ps overlap \<Longrightarrow> set ps \<subseteq> set qs \<Longrightarrow> part_of target qs overlap"
  by (auto simp: part_of_def)

lemma scan_sound:
  assumes "scan_partitions target se cur found ps = Ok (Some result)" and "cur < se"
  shows "\<exists>new. result = found @ new \<and> tiles cur se (selected new) \<and>
    list_all (part_of target ps) new \<and> subseq (map op_index new) (map fst ps)"
  using assms
proof (induction target se cur found ps rule: scan_partitions.induct)
  case (2 target se cur found index start stop ps)
  let ?oe = "min se stop"
  let ?o = "\<lparr>op_index = index, op_selected_partition_range = pr_new cur ?oe target\<rparr>"
  show ?case
  proof (cases "cur < stop")
    case False
    with "2.IH"(2) "2.prems" obtain new where "result = found @ new" "tiles cur se (selected new)"
      "list_all (part_of target ps) new" "subseq (map op_index new) (map fst ps)" by auto
    then show ?thesis
      by (intro exI [of _ new]) (auto simp: list_all_iff intro: part_of_mono)
  next
    case True
    with "2.prems" have start: "start \<le> cur" by (auto split: if_splits)
    have part: "part_of target ((index, start, stop) # ps) ?o"
      unfolding part_of_def using start
      by (intro conjI exI [of _ start] exI [of _ stop]) (auto simp: pr_new_def)
    have sel: "selected (?o # new) = (cur, ?oe) # selected new" for new
      by (simp add: selected_def range_bounds_def pr_new_def)
    show ?thesis
    proof (cases "se \<le> ?oe")
      case True
      then have "?oe = se" by simp
      with \<open>cur < stop\<close> start "2.prems" part sel [of "[]"] show ?thesis
        by (intro exI [of _ "[?o]"]) (auto simp: selected_def [of "[]"])
    next
      case False
      have run: "scan_partitions target se ?oe (found @ [?o]) ps = Ok (Some result)"
        using "2.prems"(1) \<open>cur < stop\<close> start False by (simp add: Let_def)
      have "\<not> cur < start" "?oe < se" using start False by auto
      from "2.IH"(1) [OF \<open>cur < stop\<close> this(1) refl refl False run this(2)] obtain new where
        "result = (found @ [?o]) @ new" "tiles ?oe se (selected new)" "list_all (part_of target ps) new"
        "subseq (map op_index new) (map fst ps)" by blast
      with part sel [of new] \<open>cur < stop\<close> "2.prems"(2) show ?thesis
        by (intro exI [of _ "?o # new"]) (auto simp: list_all_iff intro: part_of_mono)
    qed
  qed
qed (auto split: if_splits)

lemma scan_total: "cur < se \<Longrightarrow> \<exists>r. scan_partitions target se cur found ps = Ok r"
  by (induction target se cur found ps rule: scan_partitions.induct) (auto simp: Let_def)

lemma scan_complete:
  assumes "cur < se" and "sorted (map (\<lambda>(_, s, _). s) ps)"
    and "\<And>x. cur \<le> x \<Longrightarrow> x < se \<Longrightarrow> \<exists>(_, s, e) \<in> set ps. s \<le> x \<and> x < e"
  shows "\<exists>r. scan_partitions target se cur found ps = Ok (Some r)"
  using assms
proof (induction target se cur found ps rule: scan_partitions.induct)
  case (1 target se cur found)
  then show ?case by fastforce
next
  case (2 target se cur found index start stop ps)
  have starts: "\<forall>(_, s, _) \<in> set ps. start \<le> s" and sorted: "sorted (map (\<lambda>(_, s, _). s) ps)"
    using "2.prems"(2) by auto
  show ?case
  proof (cases "cur < stop")
    case False
    have "\<exists>(_, s, e) \<in> set ps. s \<le> x \<and> x < e" if "cur \<le> x" "x < se" for x
      using "2.prems"(3) [OF that] False that by auto
    with "2.IH"(2) False "2.prems"(1) sorted show ?thesis by auto
  next
    case True
    have "start \<le> cur"
      using "2.prems"(3) [of cur] "2.prems"(1) starts by fastforce
    show ?thesis
    proof (cases "se \<le> min se stop")
      case False
      have "\<exists>(_, s, e) \<in> set ps. s \<le> x \<and> x < e" if "min se stop \<le> x" "x < se" for x
      proof -
        have "stop \<le> x" "cur \<le> x" using that True False by auto
        with "2.prems"(3) [of x] that show ?thesis by auto
      qed
      with "2.IH"(1) [OF True _ refl refl False] \<open>start \<le> cur\<close> sorted False True show ?thesis
        by (auto simp: Let_def)
    qed (use True \<open>start \<le> cur\<close> in \<open>auto simp: Let_def\<close>)
  qed
qed

subsection \<open>Normalisation without overflow\<close>

definition small_range :: "partition_range \<Rightarrow> bool" where
  "small_range r \<longleftrightarrow> range_ok r \<and> 0 < pr_partitions r \<and> pr_partitions r < 2 ^ 32"

definition target_partitions :: "partition_range \<Rightarrow> partition_range list \<Rightarrow> usize" where
  "target_partitions search_range available =
     fold max (map pr_partitions available) (pr_partitions search_range)"

definition scaled :: "usize \<Rightarrow> partition_range \<Rightarrow> usize \<times> usize" where
  "scaled target r =
     (pr_start r * target div pr_partitions r, pr_end r * target div pr_partitions r)"

lemma target_small:
  assumes "small_range r" and "\<forall>a \<in> set available. small_range a"
  shows "target_partitions r available < 2 ^ 32"
proof -
  have "fold max xs b < (2 :: nat) ^ 32" if "b < 2 ^ 32" "\<forall>x \<in> set xs. x < 2 ^ 32" for xs b
    using that by (induction xs arbitrary: b) auto
  with assms show ?thesis by (auto simp: target_partitions_def small_range_def)
qed

lemma normalize_exact:
  assumes "small_range r" and "target < 2 ^ 32" and "position \<le> pr_end r"
  shows "normalize target position r = Ok (position * target div pr_partitions r)"
proof -
  have "position < 2 ^ 32" using assms by (auto simp: small_range_def range_ok_def)
  then have "position * target \<le> (2 ^ 32 - 1) * (2 ^ 32 - 1)"
    using assms(2) by (intro mult_mono) auto
  then have "position * target < usize_limit" by (simp add: usize_limit_def)
  with assms(1) show ?thesis
    by (simp add: normalize_def usize_div_def usize_simps small_range_def)
qed

lemma normalize_partition_exact:
  "small_range r \<Longrightarrow> target < 2 ^ 32 \<Longrightarrow> normalize_partition target (i, r) = Ok (i, scaled target r)"
  by (simp add: normalize_partition_def normalize_exact scaled_def small_range_def range_ok_def)

definition candidates ::
  "usize \<Rightarrow> usize \<times> usize \<Rightarrow> partition_range list \<Rightarrow> (nat \<times> usize \<times> usize) list" where
  "candidates target search available =
     filter (\<lambda>(_, s, e). s < snd search \<and> e > fst search)
       (map (\<lambda>(i, r). (i, scaled target r)) (enumerate 0 available))"

lemma candidates_index: "sorted_wrt (<) (map fst (candidates target search available))"
proof -
  have "sorted_wrt (<) (map fst (map (\<lambda>(i, r). (i, scaled target r)) (enumerate 0 available)))"
    by (simp add: comp_def case_prod_beta map_fst_enumerate)
  then have "sorted_wrt (\<lambda>x y. fst x < fst y) (map (\<lambda>(i, r). (i, scaled target r)) (enumerate 0 available))"
    by (simp only: sorted_wrt_map)
  then show ?thesis unfolding candidates_def sorted_wrt_map [of _ fst] by (rule sorted_wrt_filter)
qed

lemma search_scans:
  assumes "small_range r" and "\<forall>a \<in> set available. small_range a"
  shows "get_non_overlapping_partitions r available =
    (let target = target_partitions r available; search = scaled target r
     in scan_partitions target (snd search) (fst search) [] (candidates target search available))"
proof -
  let ?t = "target_partitions r available"
  note t = target_small [OF assms]
  have ends: "pr_start r \<le> pr_end r" using assms(1) by (simp add: small_range_def range_ok_def)
  have "map (normalize_partition ?t) (enumerate 0 available) =
      map Ok (map (\<lambda>(i, a). (i, scaled ?t a)) (enumerate 0 available))"
    using assms(2) t by (auto simp: normalize_partition_exact in_set_enumerate_eq)
  then have "collect_results (map (normalize_partition ?t) (enumerate 0 available)) =
      Ok (map (\<lambda>(i, a). (i, scaled ?t a)) (enumerate 0 available))"
    by (simp only: collect_results_Ok_iff)
  moreover have "sorted (map fst (candidates ?t (scaled ?t r) available))"
    using candidates_index strict_sorted_imp_sorted by blast
  ultimately show ?thesis
    using normalize_exact [OF assms(1) t ends] normalize_exact [OF assms(1) t order_refl]
      sort_index_id [of "candidates ?t (scaled ?t r) available"]
    by (simp add: get_non_overlapping_partitions_def target_partitions_def [symmetric] Let_def
        candidates_def scaled_def)
qed

lemma subseq_set: "subseq xs ys \<Longrightarrow> set xs \<subseteq> set ys"
  by (auto elim: list_emb_set)

lemma sorted_wrt_subseq: "subseq xs ys \<Longrightarrow> sorted_wrt P ys \<Longrightarrow> sorted_wrt P xs"
  by (induction rule: list_emb.induct) (auto dest: subseq_set)

lemma candidates_member:
  "(i, s, e) \<in> set (candidates target search available) \<longleftrightarrow>
     i < length available \<and> scaled target (available ! i) = (s, e) \<and> s < snd search \<and> e > fst search"
proof -
  have "(i, s, e) \<in> (\<lambda>(i, r). (i, scaled target r)) ` set (enumerate 0 available) \<longleftrightarrow>
      i < length available \<and> scaled target (available ! i) = (s, e)"
    unfolding image_iff Bex_def in_set_enumerate_eq by auto
  then show ?thesis by (auto simp: candidates_def)
qed

subsection \<open>Properties of the search\<close>

text \<open>
  C18: the search for checkpoint parts is sound and does not fail.  For ranges of fewer than
  2^32 partitions and a search range that is not empty after scaling to the largest partition
  count, the search returns; the parts it returns are adjacent and cover the scaled search
  range exactly, each lies inside the scaled range of the available checkpoint it names, and
  no checkpoint is named twice.
\<close>

theorem search_sound:
  assumes "small_range r" and "\<forall>a \<in> set available. small_range a"
    and "target = target_partitions r available" and "fst (scaled target r) < snd (scaled target r)"
  shows "\<exists>answer. get_non_overlapping_partitions r available = Ok answer \<and>
    (case answer of
       None \<Rightarrow> True
     | Some found \<Rightarrow>
         tiles (fst (scaled target r)) (snd (scaled target r)) (selected found) \<and>
         sorted_wrt (<) (map op_index found) \<and>
         list_all (\<lambda>overlap. op_index overlap < length available \<and>
             pr_partitions (op_selected_partition_range overlap) = target \<and>
             fst (scaled target (available ! op_index overlap))
               \<le> pr_start (op_selected_partition_range overlap) \<and>
             pr_end (op_selected_partition_range overlap)
               \<le> snd (scaled target (available ! op_index overlap))) found)"
proof -
  let ?s = "scaled target r" and ?cs = "candidates target (scaled target r) available"
  have run: "get_non_overlapping_partitions r available = scan_partitions target (snd ?s) (fst ?s) [] ?cs"
    using search_scans [OF assms(1,2)] assms(3) by (simp add: Let_def)
  obtain answer where answer: "scan_partitions target (snd ?s) (fst ?s) [] ?cs = Ok answer"
    using scan_total [OF assms(4)] by blast
  show ?thesis
  proof (cases answer)
    case (Some found)
    with scan_sound [OF _ assms(4)] answer obtain new where found: "found = [] @ new"
      "tiles (fst ?s) (snd ?s) (selected new)" "list_all (part_of target ?cs) new"
      "subseq (map op_index new) (map fst ?cs)" by blast
    have "sorted_wrt (<) (map op_index new)"
      using found(4) candidates_index by (rule sorted_wrt_subseq)
    moreover have "list_all (\<lambda>overlap. op_index overlap < length available \<and>
        pr_partitions (op_selected_partition_range overlap) = target \<and>
        fst (scaled target (available ! op_index overlap)) \<le> pr_start (op_selected_partition_range overlap) \<and>
        pr_end (op_selected_partition_range overlap) \<le> snd (scaled target (available ! op_index overlap))) new"
      using found(3) by (auto simp: list_all_iff part_of_def candidates_member)
    ultimately show ?thesis using run answer found Some by simp
  qed (use run answer in simp)
qed

theorem search_sound_witness:
  "\<exists>answer. get_non_overlapping_partitions (pr_new 2 6 8) [pr_new 3 8 16, pr_new 6 16 16] = Ok answer \<and>
    (case answer of None \<Rightarrow> False | Some found \<Rightarrow> tiles 4 12 (selected found))"
proof -
  have "small_range (pr_new 2 6 8)" "\<forall>a \<in> set [pr_new 3 8 16, pr_new 6 16 16]. small_range a"
    "16 = target_partitions (pr_new 2 6 8) [pr_new 3 8 16, pr_new 6 16 16]"
    "fst (scaled 16 (pr_new 2 6 8)) < snd (scaled 16 (pr_new 2 6 8))"
    by (simp_all add: small_range_def range_ok_def pr_new_def usize_limit_def target_partitions_def scaled_def)
  from search_sound [OF this] show ?thesis
    by (auto simp: get_non_overlapping_partitions_def normalize_def normalize_partition_def pr_new_def
        usize_mul_def usize_div_def usize_limit_def scaled_def selected_def range_bounds_def
        sort_key_def insort_key_def)
qed

lemma candidates_sorted:
  assumes "sorted (map (\<lambda>a. fst (scaled target a)) available)"
  shows "sorted (map (\<lambda>(_, s, _). s) (candidates target search available))"
proof -
  let ?xs = "map (\<lambda>(i, r). (i, scaled target r)) (enumerate 0 available)"
  have "map (\<lambda>(_, s, _). s) ?xs = map (\<lambda>a. fst (scaled target a)) (map snd (enumerate 0 available))"
    by (simp only: map_map comp_def case_prod_beta fst_conv snd_conv)
  with assms have "sorted (map (\<lambda>(_, s, _). s) ?xs)" by (simp only: map_snd_enumerate)
  then show ?thesis unfolding candidates_def by (rule sorted_filter)
qed

text \<open>
  C19: the search finds a cover when the available ranges are listed by start.  If every
  position of the scaled search range lies in the scaled range of some available checkpoint,
  and the available ranges are listed in the order of their scaled starts, then the search
  succeeds.
\<close>

theorem search_complete_when_sorted:
  assumes "small_range r" and "\<forall>a \<in> set available. small_range a"
    and "target = target_partitions r available" and "fst (scaled target r) < snd (scaled target r)"
    and "sorted (map (\<lambda>a. fst (scaled target a)) available)"
    and "\<And>x. fst (scaled target r) \<le> x \<Longrightarrow> x < snd (scaled target r) \<Longrightarrow>
      \<exists>a \<in> set available. fst (scaled target a) \<le> x \<and> x < snd (scaled target a)"
  shows "\<exists>found. get_non_overlapping_partitions r available = Ok (Some found)"
proof -
  let ?s = "scaled target r" and ?cs = "candidates target (scaled target r) available"
  have "\<exists>(_, s, e) \<in> set ?cs. s \<le> x \<and> x < e" if x: "fst ?s \<le> x" "x < snd ?s" for x
  proof -
    obtain i where "i < length available" "fst (scaled target (available ! i)) \<le> x"
      "x < snd (scaled target (available ! i))"
      using assms(6) [OF x] by (metis in_set_conv_nth)
    moreover from this have "(i, scaled target (available ! i)) \<in> set ?cs"
      using x candidates_member [of i "fst (scaled target (available ! i))"
          "snd (scaled target (available ! i))" target ?s available] by simp
    ultimately show ?thesis by (auto intro!: bexI [of _ "(i, scaled target (available ! i))"])
  qed
  then show ?thesis
    using scan_complete [OF assms(4) candidates_sorted [OF assms(5)]] search_scans [OF assms(1,2)] assms(3)
    by (simp add: Let_def)
qed

theorem search_complete_when_sorted_witness:
  "\<exists>found. get_non_overlapping_partitions (pr_new 0 4 4) [pr_new 0 2 4, pr_new 2 4 4] = Ok (Some found)"
proof (rule search_complete_when_sorted [where target = 4])
  show "\<exists>a \<in> set [pr_new 0 2 4, pr_new 2 4 4]. fst (scaled 4 a) \<le> x \<and> x < snd (scaled 4 a)"
    if "x < snd (scaled 4 (pr_new 0 4 4))" for x
    using that by (auto simp: scaled_def pr_new_def)
qed (simp_all add: small_range_def range_ok_def pr_new_def usize_limit_def target_partitions_def scaled_def)

subsection \<open>Where the search differs from its comments\<close>

lemmas search_eval = get_non_overlapping_partitions_def normalize_def normalize_partition_def pr_new_def
  usize_mul_def usize_div_def usize_limit_def sort_key_def insort_key_def

text \<open>
  The order of the available ranges matters.  The comment says the ranges are sorted by
  start, but the sort key is their index: two checkpoints that cover the search range are not
  found when the later half was completed first, and are found in the other order.
\<close>

theorem search_misses_unsorted_cover:
  "get_non_overlapping_partitions (pr_new 0 4 4) [pr_new 2 4 4, pr_new 0 2 4] = Ok None \<and>
   (\<exists>found. get_non_overlapping_partitions (pr_new 0 4 4) [pr_new 0 2 4, pr_new 2 4 4] = Ok (Some found))"
  by (simp add: search_eval)

text \<open>
  Scaling a range changes the rows it stands for.  A range selects the hashes whose
  remainder by its own partition count lies in it.  The search accepts the first four of eight
  partitions as the content of the first of two, although hash 4 belongs to the requested
  range and not to the accepted one, and hash 1 the other way round.
\<close>

theorem search_scales_against_hashing:
  "get_non_overlapping_partitions (pr_new 0 1 2) [pr_new 0 4 8] =
     Ok (Some [\<lparr>op_index = 0, op_selected_partition_range = pr_new 0 4 8\<rparr>]) \<and>
   contains_hash (pr_new 0 1 2) 4 = Ok True \<and> contains_hash (pr_new 0 4 8) 4 = Ok False \<and>
   contains_hash (pr_new 0 1 2) 1 = Ok False \<and> contains_hash (pr_new 0 4 8) 1 = Ok True"
  by (simp add: search_eval contains_hash_def usize_rem_def)

subsection \<open>Writing and finding an index entry\<close>

lemma add_partition_new:
  "\<forall>entry \<in> set entries. ce_id entry \<noteq> cid \<Longrightarrow>
   filter (\<lambda>entry. ce_id entry = cid) (add_partition cid info entries) =
     [\<lparr>ce_id = cid, ce_partitions = [info]\<rparr>]"
  by (induction entries) auto

lemma add_partition_other:
  "cid' \<noteq> cid \<Longrightarrow> filter (\<lambda>entry. ce_id entry = cid') (add_partition cid info entries) =
     filter (\<lambda>entry. ce_id entry = cid') entries"
  by (induction entries) auto

lemma search_itself:
  assumes "small_range r" and "pr_start r < pr_end r"
  shows "get_non_overlapping_partitions r [r] =
    Ok (Some [\<lparr>op_index = 0, op_selected_partition_range = r\<rparr>])"
proof -
  have t: "target_partitions r [r] = pr_partitions r" by (simp add: target_partitions_def)
  have s: "scaled (pr_partitions r) r = (pr_start r, pr_end r)"
    using assms(1) by (simp add: scaled_def small_range_def)
  have "candidates (pr_partitions r) (pr_start r, pr_end r) [r] = [(0, pr_start r, pr_end r)]"
    using assms(2) s by (simp add: candidates_def)
  then show ?thesis
    using search_scans [of r "[r]"] assms t s by (cases r) (simp add: Let_def pr_new_def)
qed

lemma entry_parts_itself:
  assumes "small_range r" and "pr_start r < pr_end r"
  shows "entry_parts r \<lparr>ce_id = cid, ce_partitions =
      [\<lparr>pi_partition_range = r, pi_timestamp = t, pi_checkpoint_dir = dir\<rparr>]\<rparr> = Ok (Some [(dir, r)])"
  using search_itself [OF assms] by (simp add: entry_parts_def)

text \<open>The codec of the index reads back what it writes.\<close>

definition codec_ok :: "'c json_lib \<Rightarrow> bool" where
  "codec_ok json \<longleftrightarrow> (\<forall>latest. \<exists>c. js_print json latest = Some c \<and> js_parse json c = Some latest)"

context file_storage
begin

lemma read_latest_view:
  "vw d p = vw d' p \<Longrightarrow> ss_storage st = S \<Longrightarrow> read_latest_json json st p d = read_latest_json json st p d'"
  by (simp add: read_latest_json_def read)

lemma write_latest_spec:
  assumes "ok d" and "codec_ok json" and "ss_storage st = S"
    and free: "\<And>q c. prefix q p \<Longrightarrow> vw d q \<noteq> FileEntry c" and "vw d (p @ [x]) \<noteq> DirEntry"
  obtains d' where "write_latest_json json st (p @ [x]) latest d = Ok d'" and "ok d'"
    and "read_latest_json json st (p @ [x]) d' = Ok latest"
    and "\<And>q. \<not> prefix q (p @ [x]) \<Longrightarrow> vw d' q = vw d q"
proof -
  obtain c where c: "js_print json latest = Some c" "js_parse json c = Some latest"
    using assms(2) by (auto simp: codec_ok_def)
  obtain d1 where d1: "fs_mkdir_all S p d = Ok d1"
    using mkdir_ok [OF assms(1) free] by (auto simp: is_ok_iff)
  note v1 = mkdir_view [OF d1 assms(1)]
  have "vw d1 p = DirEntry" "vw d1 (p @ [x]) \<noteq> DirEntry" using v1 assms(5) by auto
  then obtain d2 where d2: "fs_write_file S (p @ [x]) c d1 = Ok d2" "ok d2"
      "vw d2 = (vw d1)(p @ [x] := FileEntry c)"
    using write_step v1 by blast
  show ?thesis
  proof (rule that [of d2])
    show "write_latest_json json st (p @ [x]) latest d = Ok d2"
      using c d1 d2 assms(3) by (simp add: write_latest_json_def)
    show "read_latest_json json st (p @ [x]) d2 = Ok latest"
      using c d2 assms(3) by (simp add: read_latest_json_def read)
    show "vw d2 q = vw d q" if "\<not> prefix q (p @ [x])" for q
      using that d2(3) v1 by auto
  qed (rule d2)
qed

lemma complete_checkpoint_spec:
  assumes "ok d" and "codec_ok json" and "ss_storage st = S"
    and "\<And>q c. prefix q (ss_root_dir st @ [''operators'', op]) \<Longrightarrow> vw d q \<noteq> FileEntry c"
    and "vw d (get_latest_json_path st op) \<noteq> DirEntry"
    and "read_latest_json json st (get_latest_json_path st op) d = Ok latest"
  obtains d' where "complete_checkpoint json st t op cid dir r d = Ok d'" and "ok d'"
    and "read_latest_json json st (get_latest_json_path st op) d' = Ok \<lparr>completed_checkpoints =
      add_partition cid \<lparr>pi_partition_range = r, pi_timestamp = t, pi_checkpoint_dir = dir\<rparr>
        (completed_checkpoints latest)\<rparr>"
    and "\<And>op'. op' \<noteq> op \<Longrightarrow> read_latest_json json st (get_latest_json_path st op') d' =
      read_latest_json json st (get_latest_json_path st op') d"
    and "\<And>q. \<not> prefix q (get_latest_json_path st op) \<Longrightarrow> vw d' q = vw d q"
proof -
  let ?p = "ss_root_dir st @ [''operators'', op]"
  let ?l = "\<lparr>completed_checkpoints =
      add_partition cid \<lparr>pi_partition_range = r, pi_timestamp = t, pi_checkpoint_dir = dir\<rparr>
        (completed_checkpoints latest)\<rparr>"
  have path: "get_latest_json_path st op = ?p @ [''latest.json'']" by (simp add: get_latest_json_path_def)
  obtain d' where d': "write_latest_json json st (?p @ [''latest.json'']) ?l d = Ok d'" "ok d'"
      "read_latest_json json st (?p @ [''latest.json'']) d' = Ok ?l"
      "\<And>q. \<not> prefix q (?p @ [''latest.json'']) \<Longrightarrow> vw d' q = vw d q"
    using write_latest_spec [OF assms(1-3) assms(4), of ?p "''latest.json''" ?l] assms(5) path
    by (metis (no_types, lifting))
  show ?thesis
  proof (rule that [of d'])
    show "complete_checkpoint json st t op cid dir r d = Ok d'"
      using d'(1) assms(6) path by (simp add: complete_checkpoint_def Let_def)
    show "read_latest_json json st (get_latest_json_path st op') d' =
        read_latest_json json st (get_latest_json_path st op') d" if "op' \<noteq> op" for op'
      using that by (intro read_latest_view d'(4) assms(3)) (auto simp: get_latest_json_path_def)
  qed (use d' path in simp_all)
qed

end

lemma get_completed:
  assumes "read_latest_json json st (get_latest_json_path st op) d = Ok \<lparr>completed_checkpoints =
      add_partition cid \<lparr>pi_partition_range = r, pi_timestamp = t, pi_checkpoint_dir = cdir\<rparr> entries\<rparr>"
    and "\<forall>entry \<in> set entries. ce_id entry \<noteq> cid" and "small_range r" and "pr_start r < pr_end r"
  shows "get_operator_checkpoints json st op r cid d = Ok [(cdir, r)]"
  using assms(1) add_partition_new [OF assms(2)] entry_parts_itself [OF assms(3,4)]
  by (simp add: get_operator_checkpoints_def)

text \<open>
  C17: a completed checkpoint is found again, and nothing else changes.  On the local storage,
  with an index codec that reads back what it writes, completing a checkpoint under a new
  identifier succeeds; asking for that checkpoint at the same range then returns its
  directory with exactly that range, and the answers for other operators and for other
  checkpoints of the operator are the same as before.
\<close>

theorem completed_checkpoint_found:
  assumes "disk_ok dir disk" and "codec_ok json"
    and "st = \<lparr>ss_storage = prefixed_storage dir, ss_root_dir = root\<rparr>"
    and "\<And>q c. prefix q (root @ [''operators'', op]) \<Longrightarrow> fs_view disk (dir @ q) \<noteq> FileEntry c"
    and "fs_view disk (dir @ get_latest_json_path st op) \<noteq> DirEntry"
    and "read_latest_json json st (get_latest_json_path st op) disk = Ok latest"
    and "\<forall>entry \<in> set (completed_checkpoints latest). ce_id entry \<noteq> cid"
    and "small_range r" and "pr_start r < pr_end r"
  shows "\<exists>disk'. complete_checkpoint json st t op cid cdir r disk = Ok disk' \<and>
    get_operator_checkpoints json st op r cid disk' = Ok [(cdir, r)] \<and>
    (\<forall>op' r' cid'. op' \<noteq> op \<or> cid' \<noteq> cid \<longrightarrow>
       get_operator_checkpoints json st op' r' cid' disk' = get_operator_checkpoints json st op' r' cid' disk)"
proof -
  let ?info = "\<lparr>pi_partition_range = r, pi_timestamp = t, pi_checkpoint_dir = cdir\<rparr>"
  from assms(3-5) have st: "ss_storage st = prefixed_storage dir"
    "\<And>q c. prefix q (ss_root_dir st @ [''operators'', op]) \<Longrightarrow> fs_view disk (dir @ q) \<noteq> FileEntry c" by simp_all
  obtain disk' where D: "complete_checkpoint json st t op cid cdir r disk = Ok disk'"
    "read_latest_json json st (get_latest_json_path st op) disk' = Ok \<lparr>completed_checkpoints =
      add_partition cid ?info (completed_checkpoints latest)\<rparr>"
    "\<And>op'. op' \<noteq> op \<Longrightarrow> read_latest_json json st (get_latest_json_path st op') disk' =
      read_latest_json json st (get_latest_json_path st op') disk"
    using prefixed.complete_checkpoint_spec [OF assms(1,2) st assms(5,6)] by metis
  have "get_operator_checkpoints json st op r cid disk' = Ok [(cdir, r)]"
    by (rule get_completed [OF D(2) assms(7-9)])
  moreover have "get_operator_checkpoints json st op' r' cid' disk' = get_operator_checkpoints json st op' r' cid' disk"
    if "op' \<noteq> op \<or> cid' \<noteq> cid" for op' r' cid'
    using that D(2,3) assms(6) by (cases "op' = op") (auto simp: get_operator_checkpoints_def add_partition_other)
  ultimately show ?thesis using D(1) by blast
qed

definition plain_json :: "latest_checkpoints json_lib" where
  "plain_json = \<lparr>js_print = Some, js_parse = Some\<rparr>"

theorem completed_checkpoint_found_witness:
  "\<exists>disk'. complete_checkpoint plain_json \<lparr>ss_storage = prefixed_storage [], ss_root_dir = []\<rparr> 7
      ''op'' ''1'' [''cp''] (pr_new 0 2 4) (Dir []) = Ok disk' \<and>
    get_operator_checkpoints plain_json \<lparr>ss_storage = prefixed_storage [], ss_root_dir = []\<rparr>
      ''op'' (pr_new 0 2 4) ''1'' disk' = Ok [([''cp''], pr_new 0 2 4)]"
proof -
  let ?st = "\<lparr>ss_storage = prefixed_storage [] :: latest_checkpoints fs_storage, ss_root_dir = []\<rparr>"
  have "fs_view (Dir []) ([] @ q) \<noteq> FileEntry (c :: latest_checkpoints)" for q c by (cases q) auto
  moreover have "fs_view (Dir []) ([] @ get_latest_json_path ?st ''op'') \<noteq> (DirEntry :: latest_checkpoints entry)"
    by (simp add: get_latest_json_path_def)
  moreover have "read_latest_json plain_json ?st (get_latest_json_path ?st ''op'') (Dir []) =
      Ok \<lparr>completed_checkpoints = []\<rparr>"
    by (simp add: read_latest_json_def get_latest_json_path_def prefixed_read_file_def)
  moreover have "disk_ok [] (Dir [] :: latest_checkpoints node)" by (simp add: disk_ok_def)
  moreover have "codec_ok plain_json" by (simp add: codec_ok_def plain_json_def)
  moreover have "small_range (pr_new 0 2 4)" "pr_start (pr_new 0 2 4) < pr_end (pr_new 0 2 4)"
    by (simp_all add: small_range_def range_ok_def pr_new_def usize_limit_def)
  ultimately show ?thesis
    using completed_checkpoint_found [of "[]" "Dir []" plain_json ?st "[]" "''op''" "\<lparr>completed_checkpoints = []\<rparr>"
        "''1''" "pr_new 0 2 4" 7 "[''cp'']"] by fastforce
qed

text \<open>
  The latest checkpoint is the oldest viable one.  Entries are appended and searched from
  the front: with two complete checkpoints in the index the search for the latest returns
  the one completed first, whatever the timestamps.
\<close>

theorem latest_is_the_oldest:
  assumes "small_range r" and "pr_start r < pr_end r" and "cid' \<noteq> cid"
    and "read_latest_json json st (get_latest_json_path st op) disk = Ok \<lparr>completed_checkpoints =
      add_partition cid' \<lparr>pi_partition_range = r, pi_timestamp = t', pi_checkpoint_dir = dir'\<rparr>
        (add_partition cid \<lparr>pi_partition_range = r, pi_timestamp = t, pi_checkpoint_dir = dir\<rparr> [])\<rparr>"
  shows "get_latest_operator_checkpoints json st op r disk = Ok (cid, [(dir, r)])"
  using assms(3,4) entry_parts_itself [OF assms(1,2)] by (simp add: get_latest_operator_checkpoints_def)

theorem latest_is_the_oldest_witness:
  "get_latest_operator_checkpoints plain_json \<lparr>ss_storage = prefixed_storage [], ss_root_dir = []\<rparr> ''op''
    (pr_new 0 2 4)
    (Dir [(''operators'', Dir [(''op'', Dir [(''latest.json'', File \<lparr>completed_checkpoints =
      [\<lparr>ce_id = ''1'', ce_partitions = [\<lparr>pi_partition_range = pr_new 0 2 4, pi_timestamp = 10,
          pi_checkpoint_dir = [''a'']\<rparr>]\<rparr>,
       \<lparr>ce_id = ''2'', ce_partitions = [\<lparr>pi_partition_range = pr_new 0 2 4, pi_timestamp = 20,
          pi_checkpoint_dir = [''b'']\<rparr>]\<rparr>]\<rparr>)])])]) = Ok (''1'', [([''a''], pr_new 0 2 4)])"
  by (rule latest_is_the_oldest [where cid' = "''2''" and t' = 20 and dir' = "[''b'']" and t = 10])
    (simp_all add: small_range_def range_ok_def pr_new_def usize_limit_def read_latest_json_def
      get_latest_json_path_def prefixed_read_file_def plain_json_def)

end
