(* ===== verification/State_Backend.thy ===== *)
theory State_Backend
  imports Checkpoint_Storage "HOL-Library.Word"
begin

text \<open>
  \<open>src/streaming/state/state.rs\<close>: the state of an operator, a RocksDB database in a local
  working directory, its numbered checkpoints on the local disk and in the remote storage.

  RocksDB is the argument \<open>rk\<close>, a record of the library functions the code calls; each of
  them acts on the local disk.  \<open>rocks_ok\<close> states what the code relies on (a database
  shows what was put into it, a checkpoint directory opens as a database with the contents of
  the checkpointed one, files outside its own directories are left alone), and a small
  database that keeps its pairs in one file shows that it can hold.  Fresh identifiers and the
  clock are arguments.  An operation that fails returns its error; what it leaves on the disk
  is not part of the result.

  The backend refines a key-value store with numbered snapshots: after puts, checkpoints and moves
  to checkpointed numbers it shows the contents of a run of the specification.  A number that is
  checkpointed again has several snapshots, and a move restores one of them.  A checkpoint uploaded
  by one backend is restored by another one on a different disk.
\<close>

type_synonym bytes = "8 word list"
type_synonym content = "bytes \<Rightarrow> bytes option"

subsection \<open>The library\<close>

record ('c, 'db, 'sst) rocks =
  rk_open_default :: "path \<Rightarrow> 'c node \<Rightarrow> ('db \<times> 'c node) option"
  rk_put :: "'db \<Rightarrow> bytes \<Rightarrow> bytes \<Rightarrow> 'c node \<Rightarrow> ('db \<times> 'c node) option"
  rk_get :: "'db \<Rightarrow> bytes \<Rightarrow> 'c node \<Rightarrow> bytes option option"
  rk_iterator :: "'db \<Rightarrow> 'c node \<Rightarrow> (bytes \<times> bytes) option list"
  rk_flush :: "'db \<Rightarrow> 'c node \<Rightarrow> ('db \<times> 'c node) option"
  rk_create_checkpoint :: "'db \<Rightarrow> path \<Rightarrow> 'c node \<Rightarrow> ('db \<times> 'c node) option"
  rk_destroy :: "path \<Rightarrow> 'c node \<Rightarrow> 'c node option"
  rk_sst_open :: "path \<Rightarrow> 'c node \<Rightarrow> ('sst \<times> 'c node) option"
  rk_sst_put :: "'sst \<Rightarrow> bytes \<Rightarrow> bytes \<Rightarrow> 'sst option"
  rk_sst_finish :: "'sst \<Rightarrow> 'c node \<Rightarrow> 'c node option"
  rk_ingest_external_file :: "'db \<Rightarrow> path list \<Rightarrow> 'c node \<Rightarrow> ('db \<times> 'c node) option"

subsection \<open>Names of directories\<close>

text \<open>The decimal digits of a number, as \<open>format!\<close> prints them.\<close>

fun show_usize :: "usize \<Rightarrow> string" where
  "show_usize n = (if n < 10 then [char_of (48 + n)] else show_usize (n div 10) @ [char_of (48 + n mod 10)])"

declare show_usize.simps [simp del]

definition create_root_directory_path :: "string \<Rightarrow> partition_range \<Rightarrow> path" where
  "create_root_directory_path state_id partitions =
     [state_id, ''partition-'' @ show_usize (pr_start partitions) @ ''-'' @ show_usize (pr_end partitions) @
        ''-'' @ show_usize (pr_partitions partitions)]"

definition base_working_directory_path :: "path \<Rightarrow> path" where
  "base_working_directory_path root_dir = root_dir @ [''working'']"

definition create_working_directory_path :: "path \<Rightarrow> string \<Rightarrow> path" where
  "create_working_directory_path root_dir uuid = base_working_directory_path root_dir @ [uuid]"

definition base_checkpoint_directory_path :: "path \<Rightarrow> path" where
  "base_checkpoint_directory_path root_dir = root_dir @ [''checkpoint'']"

definition checkpoint_prefix :: "usize \<Rightarrow> string" where
  "checkpoint_prefix checkpoint = show_usize checkpoint @ ''__''"

definition create_checkpoint_directory_path :: "path \<Rightarrow> usize \<Rightarrow> string \<Rightarrow> path" where
  "create_checkpoint_directory_path root_dir checkpoint uuid =
     base_checkpoint_directory_path root_dir @ [checkpoint_prefix checkpoint @ uuid]"

subsection \<open>The backend\<close>

text \<open>
  The messages in the bounded channel to the background task are the component
  \<open>sb_background_sync_channel\<close>.
\<close>

record ('c, 'db) state_backend =
  sb_state_id :: string
  sb_root_dir :: path
  sb_partitions :: partition_range
  sb_remote_checkpoint_storage :: "'c state_storage"
  sb_local_file_system :: "'c fs_storage"
  sb_working_dir :: path
  sb_open_db :: 'db
  sb_background_sync_channel :: "(string \<times> partition_range \<times> path) list"

definition open_rocksdb_database ::
  "('c, 'db, 'sst) rocks \<Rightarrow> 'c fs_storage \<Rightarrow> path \<Rightarrow> 'c node \<Rightarrow> ('db \<times> 'c node) result" where
  "open_rocksdb_database rk file_system working_dir disk =
     bind_result (fs_get_physical_path file_system working_dir) (\<lambda>absolute_working_dir.
     ok_or (rk_open_default rk absolute_working_dir disk) (Internal ''Failed to open RocksDB''))"

definition destroy_rocksdb ::
  "('c, 'db, 'sst) rocks \<Rightarrow> 'c fs_storage \<Rightarrow> path \<Rightarrow> 'c node \<Rightarrow> 'c node result" where
  "destroy_rocksdb rk file_system working_dir disk =
     bind_result (fs_get_physical_path file_system working_dir) (\<lambda>absolute_old_working_dir.
     ok_or (rk_destroy rk absolute_old_working_dir disk) (Internal ''Failed to destroy old RocksDB''))"

definition create_local_rocksdb_checkpoint ::
  "('c, 'db, 'sst) rocks \<Rightarrow> 'c fs_storage \<Rightarrow> 'db \<Rightarrow> path \<Rightarrow> 'c node \<Rightarrow> ('db \<times> 'c node) result" where
  "create_local_rocksdb_checkpoint rk file_system db checkpoint_dir disk =
     bind_result (fs_get_physical_path file_system checkpoint_dir) (\<lambda>absolute_checkpoint_dir.
     ok_or (rk_create_checkpoint rk db absolute_checkpoint_dir disk) (Internal ''Failed to create checkpoint''))"

definition open_new ::
  "('c, 'db, 'sst) rocks \<Rightarrow> string \<Rightarrow> partition_range \<Rightarrow> 'c state_storage \<Rightarrow> 'c fs_storage \<Rightarrow> string
     \<Rightarrow> 'c node \<Rightarrow> (('c, 'db) state_backend \<times> 'c node) result" where
  "open_new rk state_id partitions remote local_fs uuid disk =
     (let root_dir = create_root_directory_path state_id partitions;
          working_dir = create_working_directory_path root_dir uuid
      in bind_result (fs_mkdir_all local_fs (base_working_directory_path root_dir) disk) (\<lambda>disk1.
         bind_result (fs_mkdir_all local_fs (base_checkpoint_directory_path root_dir) disk1) (\<lambda>disk2.
         bind_result (open_rocksdb_database rk local_fs working_dir disk2) (\<lambda>(db, disk3).
         Ok (\<lparr>sb_state_id = state_id, sb_root_dir = root_dir, sb_partitions = partitions,
              sb_remote_checkpoint_storage = remote, sb_local_file_system = local_fs,
              sb_working_dir = working_dir, sb_open_db = db, sb_background_sync_channel = []\<rparr>, disk3)))))"

definition backend_put ::
  "('c, 'db, 'sst) rocks \<Rightarrow> bytes \<Rightarrow> bytes \<Rightarrow> ('c, 'db) state_backend \<times> 'c node
     \<Rightarrow> (('c, 'db) state_backend \<times> 'c node) result" where
  "backend_put rk k v s =
     (case s of (b, disk) \<Rightarrow>
        map_result (\<lambda>(db, disk'). (b\<lparr>sb_open_db := db\<rparr>, disk'))
          (ok_or (rk_put rk (sb_open_db b) k v disk) (Internal ''Failed to put key-value pair in RocksDB'')))"

definition backend_get ::
  "('c, 'db, 'sst) rocks \<Rightarrow> bytes \<Rightarrow> ('c, 'db) state_backend \<times> 'c node \<Rightarrow> bytes option result" where
  "backend_get rk k s =
     ok_or (rk_get rk (sb_open_db (fst s)) k (snd s)) (Internal ''Failed to get key from RocksDB'')"

definition backend_iterate ::
  "('c, 'db, 'sst) rocks \<Rightarrow> ('c, 'db) state_backend \<times> 'c node \<Rightarrow> (bytes \<times> bytes) result list" where
  "backend_iterate rk s =
     map (\<lambda>entry. ok_or entry (Internal ''Failed to iterate over RocksDB''))
       (rk_iterator rk (sb_open_db (fst s)) (snd s))"

text \<open>Sending to the channel waits for room; the model appends the message.\<close>

definition backend_checkpoint ::
  "('c, 'db, 'sst) rocks \<Rightarrow> string \<Rightarrow> usize \<Rightarrow> partition_range \<Rightarrow> ('c, 'db) state_backend \<times> 'c node
     \<Rightarrow> (('c, 'db) state_backend \<times> 'c node) result" where
  "backend_checkpoint rk uuid checkpoint_id prange s =
     (case s of (b, disk) \<Rightarrow>
        bind_result (ok_or (rk_flush rk (sb_open_db b) disk) (Internal ''Failed to flush RocksDB'')) (\<lambda>(db1, disk1).
        let checkpoint_dir = create_checkpoint_directory_path (sb_root_dir b) checkpoint_id uuid
        in bind_result (create_local_rocksdb_checkpoint rk (sb_local_file_system b) db1 checkpoint_dir disk1)
             (\<lambda>(db2, disk2).
               Ok (b\<lparr>sb_open_db := db2, sb_background_sync_channel :=
                       sb_background_sync_channel b @ [(show_usize checkpoint_id, prange, checkpoint_dir)]\<rparr>,
                   disk2))))"

text \<open>The search: a local directory whose name starts with the number, or the remote index.\<close>

definition find_checkpoint ::
  "'c json_lib \<Rightarrow> usize \<Rightarrow> partition_range \<Rightarrow> ('c, 'db) state_backend \<Rightarrow> 'c node \<Rightarrow> 'c node
     \<Rightarrow> (bool \<times> (path \<times> partition_range) list) result" where
  "find_checkpoint json checkpoint prange b disk rdisk =
     (let checkpoint_root_dir = base_checkpoint_directory_path (sb_root_dir b)
      in bind_result (fs_list_files (sb_local_file_system b) checkpoint_root_dir disk) (\<lambda>checkpoint_files.
         case find (\<lambda>entry. prefix (checkpoint_prefix checkpoint) (fse_name entry)) checkpoint_files of
           Some checkpoint_dir \<Rightarrow>
             bind_result (fs_get_physical_path (sb_local_file_system b)
                 (checkpoint_root_dir @ [fse_name checkpoint_dir])) (\<lambda>_.
               Ok (True, [(checkpoint_root_dir @ [fse_name checkpoint_dir], prange)]))
         | None \<Rightarrow>
             map_result (Pair False)
               (get_operator_checkpoints json (sb_remote_checkpoint_storage b) (sb_state_id b)
                  (sb_partitions b) (show_usize checkpoint) rdisk)))"

text \<open>\<open>None\<close> stands for a loop that ran out of fuel.\<close>

fun bind_run :: "'a result option \<Rightarrow> ('a \<Rightarrow> 'b result option) \<Rightarrow> 'b result option" where
  "bind_run None f = None"
| "bind_run (Some (Ok x)) f = f x"
| "bind_run (Some (Err e)) f = Some (Err e)"

fun download_checkpoints ::
  "nat \<Rightarrow> 'c fs_storage \<Rightarrow> 'c node \<Rightarrow> 'c fs_storage \<Rightarrow> (path \<times> partition_range) list \<Rightarrow> 'c node
     \<Rightarrow> 'c node result option" where
  "download_checkpoints fuel remote rdisk local_fs [] disk = Some (Ok disk)"
| "download_checkpoints fuel remote rdisk local_fs ((checkpoint_path, _) # checkpoints) disk =
     bind_run (copy_dir_between_systems fuel remote checkpoint_path rdisk local_fs checkpoint_path disk)
       (\<lambda>disk'. download_checkpoints fuel remote rdisk local_fs checkpoints disk')"

text \<open>One checkpoint written out as an SST file, and the ingestion of all of them.\<close>

fun sst_put_all :: "('c, 'db, 'sst) rocks \<Rightarrow> 'sst \<Rightarrow> (bytes \<times> bytes) option list \<Rightarrow> 'sst result" where
  "sst_put_all rk w [] = Ok w"
| "sst_put_all rk w (None # entries) = Err (Panic ''unwrap'')"
| "sst_put_all rk w (Some (k, v) # entries) =
     bind_result (ok_or (rk_sst_put rk w k v) (Panic ''unwrap'')) (\<lambda>w'. sst_put_all rk w' entries)"

definition export_checkpoint ::
  "('c, 'db, 'sst) rocks \<Rightarrow> 'c fs_storage \<Rightarrow> path \<Rightarrow> path list \<times> 'c node \<Rightarrow> path \<times> partition_range
     \<Rightarrow> (path list \<times> 'c node) result" where
  "export_checkpoint rk local_fs sst_dir acc checkpoint =
     (let sst_path = sst_dir @ fst checkpoint; paths = fst acc
      in bind_result (ok_or (mkdir_node sst_path (snd acc)) (IoErr ''create_dir_all'')) (\<lambda>disk1.
         bind_result (ok_or (rk_sst_open rk sst_path disk1) (Panic ''unwrap'')) (\<lambda>(w, disk2).
         bind_result (open_rocksdb_database rk local_fs (fst checkpoint) disk2) (\<lambda>(checkpoint_db, disk3).
         bind_result (sst_put_all rk w (rk_iterator rk checkpoint_db disk3)) (\<lambda>w'.
         bind_result (ok_or (rk_sst_finish rk w' disk3) (External (OtherExternal ''rocksdb''))) (\<lambda>disk4.
         Ok (paths @ [sst_path], disk4)))))))"

definition merge_checkpoints ::
  "('c, 'db, 'sst) rocks \<Rightarrow> 'c fs_storage \<Rightarrow> path \<Rightarrow> (path \<times> partition_range) list \<Rightarrow> path \<Rightarrow> 'c node
     \<Rightarrow> ('db \<times> 'c node) result" where
  "merge_checkpoints rk local_fs sst_dir checkpoints new_working_dir disk =
     bind_result (fold_result (export_checkpoint rk local_fs sst_dir) ([], disk) checkpoints) (\<lambda>(paths, disk1).
     bind_result (open_rocksdb_database rk local_fs new_working_dir disk1) (\<lambda>(db, disk2).
     ok_or (rk_ingest_external_file rk db paths disk2) (External (OtherExternal ''rocksdb''))))"

definition move_to_checkpoint ::
  "('c, 'db, 'sst) rocks \<Rightarrow> 'c json_lib \<Rightarrow> nat \<Rightarrow> string \<Rightarrow> path \<Rightarrow> usize \<Rightarrow> partition_range \<Rightarrow> 'c node
     \<Rightarrow> ('c, 'db) state_backend \<times> 'c node \<Rightarrow> (('c, 'db) state_backend \<times> 'c node) result option" where
  "move_to_checkpoint rk json fuel uuid sst_dir checkpoint prange rdisk s =
     (case s of (b, disk) \<Rightarrow>
      let local_fs = sb_local_file_system b;
          new_working_dir = create_working_directory_path (sb_root_dir b) uuid
      in case find_checkpoint json checkpoint prange b disk rdisk of
           Err e \<Rightarrow> Some (Err e)
         | Ok (is_local, checkpoints) \<Rightarrow>
             bind_run
               (if \<not> is_local
                then download_checkpoints fuel (ss_storage (sb_remote_checkpoint_storage b)) rdisk local_fs
                       checkpoints disk
                else Some (Ok disk))
               (\<lambda>disk1. Some
                  (bind_result
                     (if length checkpoints = 1
                      then bind_result (fs_copy local_fs (fst (checkpoints ! 0)) new_working_dir disk1)
                             (open_rocksdb_database rk local_fs new_working_dir)
                      else merge_checkpoints rk local_fs sst_dir checkpoints new_working_dir disk1)
                     (\<lambda>(new_db, disk2).
                        map_result (Pair (b\<lparr>sb_working_dir := new_working_dir, sb_open_db := new_db\<rparr>))
                          (destroy_rocksdb rk local_fs (sb_working_dir b) disk2)))))"

subsection \<open>The upload\<close>

definition upload_checkpoint ::
  "'c json_lib \<Rightarrow> nat \<Rightarrow> u64 \<Rightarrow> string \<Rightarrow> string \<Rightarrow> string \<Rightarrow> path \<Rightarrow> partition_range \<Rightarrow> 'c fs_storage \<Rightarrow> 'c node
     \<Rightarrow> 'c state_storage \<Rightarrow> 'c node \<Rightarrow> 'c node result option" where
  "upload_checkpoint json fuel timestamp uuid state_id checkpoint_id checkpoint_path prange local_fs disk
       remote rdisk =
     (case start_checkpoint remote state_id uuid rdisk of
        Err e \<Rightarrow> Some (Err e)
      | Ok (remote_checkpoint_path, rdisk1) \<Rightarrow>
          bind_run (copy_dir_between_systems fuel local_fs checkpoint_path disk (ss_storage remote)
                      remote_checkpoint_path rdisk1)
            (\<lambda>rdisk2. Some (complete_checkpoint json remote timestamp state_id checkpoint_id
                             remote_checkpoint_path prange rdisk2)))"

text \<open>
  The background task takes the messages in order; \<open>timestamp\<close> and \<open>uuid\<close> are what the clock and the
  generator of identifiers give to the upload.  A failed upload is reported and dropped; what it leaves
  in the remote storage is left open.
\<close>

inductive background_step ::
  "'c json_lib \<Rightarrow> nat \<Rightarrow> u64 \<Rightarrow> string \<Rightarrow> string \<Rightarrow> 'c fs_storage \<Rightarrow> 'c node \<Rightarrow> 'c state_storage
     \<Rightarrow> (string \<times> partition_range \<times> path) list \<times> 'c node \<Rightarrow> (string \<times> partition_range \<times> path) list \<times> 'c node
     \<Rightarrow> bool"
  for json fuel timestamp uuid state_id local_fs disk remote where
  uploaded: "upload_checkpoint json fuel timestamp uuid state_id checkpoint_id path prange local_fs disk remote rdisk =
      Some (Ok rdisk') \<Longrightarrow>
    background_step json fuel timestamp uuid state_id local_fs disk remote
      ((checkpoint_id, prange, path) # msgs, rdisk) (msgs, rdisk')"
| failed: "upload_checkpoint json fuel timestamp uuid state_id checkpoint_id path prange local_fs disk remote rdisk =
      Some (Err e) \<Longrightarrow>
    background_step json fuel timestamp uuid state_id local_fs disk remote
      ((checkpoint_id, prange, path) # msgs, rdisk) (msgs, rdisk')"

inductive_cases background_stepE:
  "background_step json fuel timestamp uuid state_id local_fs disk remote ((checkpoint_id, prange, path) # msgs, rdisk) s"

text \<open>A step whose upload succeeds has exactly one outcome.\<close>

lemma background_step_uploaded:
  assumes "upload_checkpoint json fuel timestamp uuid state_id checkpoint_id path prange local_fs disk remote rdisk = Some (Ok rdisk')"
  shows "background_step json fuel timestamp uuid state_id local_fs disk remote ((checkpoint_id, prange, path) # msgs, rdisk) s \<longleftrightarrow>
    s = (msgs, rdisk')"
  using assms by (auto elim!: background_stepE intro: uploaded)

subsection \<open>What the code relies on\<close>

definition sub_view :: "'c node \<Rightarrow> path \<Rightarrow> path \<Rightarrow> 'c entry" where
  "sub_view disk p q = fs_view disk (p @ q)"

definition frame :: "path set \<Rightarrow> 'c node \<Rightarrow> 'c node \<Rightarrow> bool" where
  "frame ps d d' \<longleftrightarrow> wf_node d' \<and> (\<forall>q. (\<forall>p \<in> ps. \<not> prefix p q) \<longrightarrow> fs_view d' q = fs_view d q)"

text \<open>
  The vocabulary of the contract: the pairs an open database shows, its directory, whether
  its files are intact on a disk, and the pairs a directory tree holds (\<open>None\<close> when it is not
  a database).
\<close>

record ('c, 'db) rocks_spec =
  sp_content :: "'db \<Rightarrow> content"
  sp_dir :: "'db \<Rightarrow> path"
  sp_live :: "'db \<Rightarrow> 'c node \<Rightarrow> bool"
  sp_stored :: "(path \<Rightarrow> 'c entry) \<Rightarrow> content option"

definition live_ok :: "('c, 'db) rocks_spec \<Rightarrow> bool" where
  "live_ok sp \<longleftrightarrow> (\<forall>db d d'. sp_live sp db d \<longrightarrow>
     fs_view d (sp_dir sp db) = DirEntry \<and>
     (sub_view d' (sp_dir sp db) = sub_view d (sp_dir sp db) \<longrightarrow> sp_live sp db d'))"

definition open_ok :: "('c, 'db, 'sst) rocks \<Rightarrow> ('c, 'db) rocks_spec \<Rightarrow> bool" where
  "open_ok rk sp \<longleftrightarrow> sp_stored sp (\<lambda>_. NoEntry) = Some Map.empty \<and>
     (\<forall>par x d m. wf_node d \<longrightarrow> fs_view d par = DirEntry \<longrightarrow>
        sp_stored sp (sub_view d (par @ [x])) = Some m \<longrightarrow>
        (\<exists>db d'. rk_open_default rk (par @ [x]) d = Some (db, d') \<and> sp_content sp db = m \<and>
           sp_dir sp db = par @ [x] \<and> sp_live sp db d' \<and> frame {par @ [x]} d d'))"

definition put_ok :: "('c, 'db, 'sst) rocks \<Rightarrow> ('c, 'db) rocks_spec \<Rightarrow> bool" where
  "put_ok rk sp \<longleftrightarrow> (\<forall>db d k v. wf_node d \<longrightarrow> sp_live sp db d \<longrightarrow>
     (\<exists>db' d'. rk_put rk db k v d = Some (db', d') \<and> sp_content sp db' = (sp_content sp db)(k \<mapsto> v) \<and>
        sp_dir sp db' = sp_dir sp db \<and> sp_live sp db' d' \<and> frame {sp_dir sp db} d d'))"

definition flush_ok :: "('c, 'db, 'sst) rocks \<Rightarrow> ('c, 'db) rocks_spec \<Rightarrow> bool" where
  "flush_ok rk sp \<longleftrightarrow> (\<forall>db d. wf_node d \<longrightarrow> sp_live sp db d \<longrightarrow>
     (\<exists>db' d'. rk_flush rk db d = Some (db', d') \<and> sp_content sp db' = sp_content sp db \<and>
        sp_dir sp db' = sp_dir sp db \<and> sp_live sp db' d' \<and> frame {sp_dir sp db} d d'))"

definition checkpoint_ok :: "('c, 'db, 'sst) rocks \<Rightarrow> ('c, 'db) rocks_spec \<Rightarrow> bool" where
  "checkpoint_ok rk sp \<longleftrightarrow> (\<forall>db d par x. wf_node d \<longrightarrow> sp_live sp db d \<longrightarrow> fs_view d par = DirEntry \<longrightarrow>
     (\<forall>q. fs_view d (par @ x # q) = NoEntry) \<longrightarrow> \<not> prefix (sp_dir sp db) (par @ [x]) \<longrightarrow>
     (\<exists>db' d'. rk_create_checkpoint rk db (par @ [x]) d = Some (db', d') \<and>
        sp_content sp db' = sp_content sp db \<and> sp_dir sp db' = sp_dir sp db \<and> sp_live sp db' d' \<and>
        frame {sp_dir sp db, par @ [x]} d d' \<and> fs_view d' (par @ [x]) = DirEntry \<and>
        sp_stored sp (sub_view d' (par @ [x])) = Some (sp_content sp db)))"

definition destroy_ok :: "('c, 'db, 'sst) rocks \<Rightarrow> bool" where
  "destroy_ok rk \<longleftrightarrow> (\<forall>p d. wf_node d \<longrightarrow> p \<noteq> [] \<longrightarrow> fs_view d p = DirEntry \<longrightarrow>
     (\<exists>d'. rk_destroy rk p d = Some d' \<and> frame {p} d d'))"

definition read_ok :: "('c, 'db, 'sst) rocks \<Rightarrow> ('c, 'db) rocks_spec \<Rightarrow> bool" where
  "read_ok rk sp \<longleftrightarrow> (\<forall>db d. sp_live sp db d \<longrightarrow>
     (\<forall>k. rk_get rk db k d = Some (sp_content sp db k)) \<and>
     (\<exists>kvs. rk_iterator rk db d = map Some kvs \<and> distinct (map fst kvs) \<and> map_of kvs = sp_content sp db))"

definition rocks_ok :: "('c, 'db, 'sst) rocks \<Rightarrow> ('c, 'db) rocks_spec \<Rightarrow> bool" where
  "rocks_ok rk sp \<longleftrightarrow> live_ok sp \<and> open_ok rk sp \<and> put_ok rk sp \<and> flush_ok rk sp \<and> checkpoint_ok rk sp \<and>
     destroy_ok rk \<and> read_ok rk sp"

subsection \<open>Numbered names\<close>

lemma show_usize_digits: "list_all (\<lambda>c. c \<noteq> CHR ''_'') (show_usize n)"
proof (induction n rule: show_usize.induct)
  case (1 n)
  have digit: "char_of (48 + k) \<noteq> CHR ''_''" if "k < 10" for k :: nat
  proof
    assume "char_of (48 + k) = CHR ''_''"
    then have "of_char (char_of (48 + k)) = (95 :: nat)" by simp
    with that show False by simp
  qed
  show ?case
    using 1 digit [of n] digit [of "n mod 10"] by (simp add: show_usize.simps [of n])
qed

lemma show_usize_inj: "show_usize m = show_usize n \<Longrightarrow> m = n"
proof (induction m arbitrary: n rule: show_usize.induct)
  case (1 m)
  have code: "char_of (48 + a) = (char_of (48 + b) :: char) \<longleftrightarrow> a = b" if "a < 10" "b < 10" for a b :: nat
  proof
    assume "char_of (48 + a) = (char_of (48 + b) :: char)"
    then have "of_char (char_of (48 + a) :: char) = (of_char (char_of (48 + b) :: char) :: nat)" by simp
    with that show "a = b" by simp
  qed simp
  have nonempty: "show_usize k \<noteq> []" "[] \<noteq> show_usize k" for k by (subst show_usize.simps, simp)+
  show ?case
  proof (cases "m < 10"; cases "n < 10")
    assume "\<not> m < 10" "\<not> n < 10"
    with "1.prems" have "show_usize (m div 10) = show_usize (n div 10)" "m mod 10 = n mod 10"
      by (simp_all add: show_usize.simps [of m] show_usize.simps [of n] code)
    with "1.IH" \<open>\<not> m < 10\<close> show ?thesis by (metis div_mult_mod_eq)
  qed (use "1.prems" code [of m n] nonempty in \<open>auto simp: show_usize.simps [of m] show_usize.simps [of n]\<close>)
qed

lemma checkpoint_prefix_inj:
  assumes "prefix (checkpoint_prefix m) x" and "prefix (checkpoint_prefix n) x"
  shows "m = n"
proof -
  have "takeWhile (\<lambda>c. c \<noteq> CHR ''_'') x = show_usize k" if k: "prefix (checkpoint_prefix k) x" for k
  proof -
    obtain y where "x = checkpoint_prefix k @ y" using k by (auto elim: prefixE)
    then have x: "x = show_usize k @ ''__'' @ y" by (simp add: checkpoint_prefix_def)
    have "takeWhile (\<lambda>c. c \<noteq> CHR ''_'') (show_usize k @ ''__'' @ y) = show_usize k"
      using show_usize_digits [of k] by (subst takeWhile_append2) (auto simp: list_all_iff)
    with x show ?thesis by simp
  qed
  from this [OF assms(1)] this [OF assms(2)] have "show_usize m = show_usize n" by simp
  then show ?thesis by (rule show_usize_inj)
qed

subsection \<open>Refinement of a store with snapshots\<close>

text \<open>
  The specification.  A checkpoint saves the current contents under its number and its fresh
  identifier.  A number can be checkpointed again, as happens when a marker is replayed after a
  recovery; a move then restores one of the contents saved under the number, and the
  specification does not say which.
\<close>

record snapshots =
  sn_now :: content
  sn_saved :: "usize \<Rightarrow> string \<Rightarrow> content option"

datatype backend_op =
    Put bytes bytes
  | Checkpoint string usize partition_range
  | MoveTo string usize partition_range

definition no_snapshots :: snapshots where
  "no_snapshots = \<lparr>sn_now = Map.empty, sn_saved = (\<lambda>_. Map.empty)\<rparr>"

definition snapshot_put :: "bytes \<Rightarrow> bytes \<Rightarrow> snapshots \<Rightarrow> snapshots" where
  "snapshot_put k v a = a\<lparr>sn_now := (sn_now a)(k \<mapsto> v)\<rparr>"

definition snapshot_save :: "string \<Rightarrow> usize \<Rightarrow> snapshots \<Rightarrow> snapshots" where
  "snapshot_save uuid n a = a\<lparr>sn_saved := (sn_saved a)(n := (sn_saved a n)(uuid \<mapsto> sn_now a))\<rparr>"

inductive snapshot_step :: "backend_op \<Rightarrow> snapshots \<Rightarrow> snapshots \<Rightarrow> bool" where
  put: "snapshot_step (Put k v) a (snapshot_put k v a)"
| save: "snapshot_step (Checkpoint uuid n r) a (snapshot_save uuid n a)"
| move: "sn_saved a n saved_uuid = Some m \<Longrightarrow> snapshot_step (MoveTo uuid n r) a (a\<lparr>sn_now := m\<rparr>)"

inductive snapshot_run :: "backend_op list \<Rightarrow> snapshots \<Rightarrow> snapshots \<Rightarrow> bool" where
  run_nil: "snapshot_run [] a a"
| run_cons: "snapshot_step x a a' \<Longrightarrow> snapshot_run xs a' a'' \<Longrightarrow> snapshot_run (x # xs) a a''"

inductive_cases snapshot_stepE: "snapshot_step x a b"
inductive_cases snapshot_runE: "snapshot_run (x # xs) a b"

lemma snapshot_simps [simp]:
  "sn_now (snapshot_put k v a) = (sn_now a)(k \<mapsto> v)" "sn_saved (snapshot_put k v a) = sn_saved a"
  "sn_now (snapshot_save uuid n a) = sn_now a"
  "sn_saved (snapshot_save uuid n a) = (sn_saved a)(n := (sn_saved a n)(uuid \<mapsto> sn_now a))"
  "sn_now no_snapshots = Map.empty" "sn_saved no_snapshots n = Map.empty"
  by (simp_all add: snapshot_put_def snapshot_save_def no_snapshots_def)

fun checkpoint_numbers :: "backend_op list \<Rightarrow> usize list" where
  "checkpoint_numbers [] = []"
| "checkpoint_numbers (Checkpoint uuid n r # xs) = n # checkpoint_numbers xs"
| "checkpoint_numbers (_ # xs) = checkpoint_numbers xs"

definition saved_once :: "snapshots \<Rightarrow> usize list \<Rightarrow> bool" where
  "saved_once a ns \<longleftrightarrow> distinct ns \<and> (\<forall>n \<in> set ns. sn_saved a n = Map.empty) \<and>
     (\<forall>n u v. sn_saved a n u \<noteq> None \<longrightarrow> sn_saved a n v \<noteq> None \<longrightarrow> u = v)"

lemma saved_once_step:
  assumes "snapshot_step x a b" and "saved_once a (checkpoint_numbers (x # xs))"
  shows "saved_once b (checkpoint_numbers xs)"
  using assms by cases (auto simp: saved_once_def)

text \<open>When no number is checkpointed twice, the specification determines the contents.\<close>

lemma snapshot_run_unique:
  assumes "snapshot_run xs a b" and "snapshot_run xs a c" and "saved_once a (checkpoint_numbers xs)"
  shows "b = c"
  using assms
proof (induction arbitrary: c)
  case (run_cons x a a' xs b)
  from run_cons.prems(1) obtain d where d: "snapshot_step x a d" "snapshot_run xs d c" by (rule snapshot_runE)
  have "d = a'"
    using d(1) run_cons.hyps(1) run_cons.prems(2) by (auto elim!: snapshot_stepE simp: saved_once_def) (metis option.discI option.sel)
  with run_cons.IH [of c] d(2) saved_once_step [OF run_cons.hyps(1) run_cons.prems(2)] show ?case by simp
qed (auto elim: snapshot_run.cases)

fun backend_step ::
  "('c, 'db, 'sst) rocks \<Rightarrow> 'c json_lib \<Rightarrow> nat \<Rightarrow> path \<Rightarrow> 'c node \<Rightarrow> backend_op
     \<Rightarrow> ('c, 'db) state_backend \<times> 'c node \<Rightarrow> (('c, 'db) state_backend \<times> 'c node) result option" where
  "backend_step rk json fuel sst_dir rdisk (Put k v) s = Some (backend_put rk k v s)"
| "backend_step rk json fuel sst_dir rdisk (Checkpoint uuid n r) s = Some (backend_checkpoint rk uuid n r s)"
| "backend_step rk json fuel sst_dir rdisk (MoveTo uuid n r) s =
     move_to_checkpoint rk json fuel uuid sst_dir n r rdisk s"

fun backend_ops ::
  "('c, 'db, 'sst) rocks \<Rightarrow> 'c json_lib \<Rightarrow> nat \<Rightarrow> path \<Rightarrow> 'c node \<Rightarrow> backend_op list
     \<Rightarrow> ('c, 'db) state_backend \<times> 'c node \<Rightarrow> (('c, 'db) state_backend \<times> 'c node) result option" where
  "backend_ops rk json fuel sst_dir rdisk [] s = Some (Ok s)"
| "backend_ops rk json fuel sst_dir rdisk (x # xs) s =
     bind_run (backend_step rk json fuel sst_dir rdisk x s) (backend_ops rk json fuel sst_dir rdisk xs)"

text \<open>
  The sequences of the theorem: a move goes to a number checkpointed before, and the identifiers
  that are drawn for a directory are new among those of its kind.  Numbers may be repeated.
\<close>

fun legal :: "(usize \<times> string) set \<Rightarrow> string set \<Rightarrow> backend_op list \<Rightarrow> bool" where
  "legal saved used [] = True"
| "legal saved used (Put k v # xs) = legal saved used xs"
| "legal saved used (Checkpoint uuid n r # xs) = ((n, uuid) \<notin> saved \<and> legal (insert (n, uuid) saved) used xs)"
| "legal saved used (MoveTo uuid n r # xs) = (n \<in> fst ` saved \<and> uuid \<notin> used \<and> legal saved (insert uuid used) xs)"

definition saved_ok ::
  "('c, 'db) rocks_spec \<Rightarrow> path \<Rightarrow> 'c node \<Rightarrow> (usize \<Rightarrow> string \<Rightarrow> content option) \<Rightarrow> bool" where
  "saved_ok sp cps d saved \<longleftrightarrow>
     (\<forall>n u. fs_view d (cps @ [checkpoint_prefix n @ u]) \<noteq> NoEntry \<longrightarrow>
        fs_view d (cps @ [checkpoint_prefix n @ u]) = DirEntry \<and> saved n u \<noteq> None \<and>
        sp_stored sp (sub_view d (cps @ [checkpoint_prefix n @ u])) = saved n u) \<and>
     (\<forall>n u. saved n u \<noteq> None \<longrightarrow> fs_view d (cps @ [checkpoint_prefix n @ u]) \<noteq> NoEntry)"

definition db_ok :: "('c, 'db) rocks_spec \<Rightarrow> path \<Rightarrow> 'c node \<Rightarrow> 'db \<Rightarrow> string set \<Rightarrow> bool" where
  "db_ok sp wdir d db used \<longleftrightarrow> sp_live sp db d \<and> (\<exists>u \<in> used. sp_dir sp db = wdir @ [u]) \<and>
     (\<forall>u q. u \<notin> used \<longrightarrow> fs_view d (wdir @ u # q) = NoEntry)"

definition refines ::
  "('c, 'db) rocks_spec \<Rightarrow> path \<Rightarrow> snapshots \<Rightarrow> string set \<Rightarrow> ('c, 'db) state_backend \<times> 'c node \<Rightarrow> bool" where
  "refines sp dir a used s \<longleftrightarrow> (case s of (b, d) \<Rightarrow>
     let cps = dir @ sb_root_dir b @ [''checkpoint'']; wdir = dir @ sb_root_dir b @ [''working'']
     in disk_ok dir d \<and> sb_local_file_system b = prefixed_storage dir \<and>
        fs_view d cps = DirEntry \<and> fs_view d wdir = DirEntry \<and>
        sp_dir sp (sb_open_db b) = dir @ sb_working_dir b \<and>
        db_ok sp wdir d (sb_open_db b) used \<and> saved_ok sp cps d (sn_saved a) \<and>
        sp_content sp (sb_open_db b) = sn_now a)"

lemma frame_sub_view:
  "frame ps d d' \<Longrightarrow> (\<And>p q. p \<in> ps \<Longrightarrow> \<not> prefix p (r @ q)) \<Longrightarrow> sub_view d' r = sub_view d r"
  by (auto simp: frame_def sub_view_def fun_eq_iff)

lemma frame_view: "frame ps d d' \<Longrightarrow> (\<And>p. p \<in> ps \<Longrightarrow> \<not> prefix p q) \<Longrightarrow> fs_view d' q = fs_view d q"
  by (auto simp: frame_def)

lemma frame_trans: "frame ps d d' \<Longrightarrow> frame qs d' d'' \<Longrightarrow> frame (ps \<union> qs) d d''"
  by (auto simp: frame_def)

lemma frame_mono: "frame ps d d' \<Longrightarrow> ps \<subseteq> qs \<Longrightarrow> frame qs d d'"
  unfolding frame_def by blast

lemma saved_ok_cong:
  assumes "saved_ok sp cps d saved" and "\<And>q. fs_view d' (cps @ q) = fs_view d (cps @ q)"
  shows "saved_ok sp cps d' saved"
proof -
  have "sub_view d' (cps @ [x]) = sub_view d (cps @ [x])" for x
    using assms(2) by (simp add: sub_view_def fun_eq_iff)
  with assms show ?thesis by (simp add: saved_ok_def)
qed

text \<open>A change inside the directory of the database keeps everything but the database.\<close>

lemma refines_db_change:
  assumes "refines sp dir a used (b, d)" and "frame {sp_dir sp (sb_open_db b)} d d'"
    and "sp_live sp db d'" and "sp_dir sp db = sp_dir sp (sb_open_db b)"
  shows "refines sp dir (a\<lparr>sn_now := sp_content sp db\<rparr>) used (b\<lparr>sb_open_db := db\<rparr>, d')"
proof -
  let ?c = "dir @ sb_root_dir b @ [''checkpoint'']" and ?w = "dir @ sb_root_dir b @ [''working'']"
  from assms(1) obtain u where u: "sp_dir sp (sb_open_db b) = ?w @ [u]" "u \<in> used"
    unfolding refines_def db_ok_def Let_def prod.case by blast
  have old: "wf_node d" "fs_view d dir = DirEntry" "sb_local_file_system b = prefixed_storage dir"
    "fs_view d ?c = DirEntry" "fs_view d ?w = DirEntry" "sp_dir sp (sb_open_db b) = dir @ sb_working_dir b"
    "\<And>v q. v \<notin> used \<Longrightarrow> fs_view d (?w @ v # q) = NoEntry" "saved_ok sp ?c d (sn_saved a)"
    using assms(1) unfolding refines_def Let_def db_ok_def prod.case disk_ok_def by blast+
  have out: "fs_view d' q = fs_view d q" if "\<not> prefix (?w @ [u]) q" for q
    using frame_view [OF assms(2)] u(1) that by (metis singletonD)
  have cps: "fs_view d' (?c @ q) = fs_view d (?c @ q)" for q by (rule out) simp
  have new: "fs_view d' (?w @ v # q) = NoEntry" if "v \<notin> used" for v q
  proof -
    have "\<not> prefix (?w @ [u]) (?w @ v # q)" using u(2) that by auto
    with out old(7) that show ?thesis by metis
  qed
  have dirs: "fs_view d' ?c = DirEntry" "fs_view d' ?w = DirEntry" "fs_view d' dir = DirEntry"
    using old(2,4,5) cps [of "[]"] out [of ?w] out [of dir] by (auto simp: prefix_def)
  have "wf_node d'" using assms(2) by (simp add: frame_def)
  moreover have "db_ok sp ?w d' db used" using assms(3,4) u new by (simp only: db_ok_def) blast
  ultimately show ?thesis
    using dirs saved_ok_cong [OF old(8) cps] old(3,6) assms(4) by (simp add: refines_def Let_def disk_ok_def)
qed

lemma put_refines:
  assumes "rocks_ok rk sp" and "refines sp dir a used (b, d)"
  obtains s where "backend_put rk k v (b, d) = Ok s" and "refines sp dir (snapshot_put k v a) used s"
proof -
  have "wf_node d" "sp_live sp (sb_open_db b) d" "sp_content sp (sb_open_db b) = sn_now a"
    using assms(2) by (auto simp: refines_def db_ok_def Let_def disk_ok_def)
  with assms(1) obtain db d' where new: "rk_put rk (sb_open_db b) k v d = Some (db, d')"
      "sp_content sp db = (sn_now a)(k \<mapsto> v)" "sp_dir sp db = sp_dir sp (sb_open_db b)" "sp_live sp db d'"
      "frame {sp_dir sp (sb_open_db b)} d d'"
    unfolding rocks_ok_def put_ok_def by metis
  with refines_db_change [OF assms(2) new(5,4,3)] that [of "(b\<lparr>sb_open_db := db\<rparr>, d')"] show ?thesis
    by (simp add: backend_put_def snapshot_put_def)
qed

lemma refinesD:
  assumes "refines sp dir a used (b, d)"
  shows "disk_ok dir d" "wf_node d" "fs_view d dir = DirEntry" "sb_local_file_system b = prefixed_storage dir"
    "fs_view d (dir @ sb_root_dir b @ [''checkpoint'']) = DirEntry"
    "fs_view d (dir @ sb_root_dir b @ [''working'']) = DirEntry"
    "sp_dir sp (sb_open_db b) = dir @ sb_working_dir b"
    "sp_live sp (sb_open_db b) d" "sp_content sp (sb_open_db b) = sn_now a"
    "saved_ok sp (dir @ sb_root_dir b @ [''checkpoint'']) d (sn_saved a)"
    "\<exists>u \<in> used. sp_dir sp (sb_open_db b) = dir @ sb_root_dir b @ [''working'', u]"
    "\<And>u q. u \<notin> used \<Longrightarrow> fs_view d (dir @ sb_root_dir b @ ''working'' # u # q) = NoEntry"
  using assms unfolding refines_def Let_def db_ok_def disk_ok_def prod.case append_assoc append_Cons append_Nil
  by blast+

lemma refinesI:
  assumes "wf_node d" "fs_view d dir = DirEntry" "sb_local_file_system b = prefixed_storage dir"
    "fs_view d (dir @ sb_root_dir b @ [''checkpoint'']) = DirEntry"
    "fs_view d (dir @ sb_root_dir b @ [''working'']) = DirEntry"
    "sp_dir sp (sb_open_db b) = dir @ sb_working_dir b"
    "sp_live sp (sb_open_db b) d" "sp_content sp (sb_open_db b) = sn_now a"
    "saved_ok sp (dir @ sb_root_dir b @ [''checkpoint'']) d (sn_saved a)"
    "u \<in> used" "sp_dir sp (sb_open_db b) = dir @ sb_root_dir b @ [''working'', u]"
    "\<And>u q. u \<notin> used \<Longrightarrow> fs_view d (dir @ sb_root_dir b @ ''working'' # u # q) = NoEntry"
  shows "refines sp dir a used (b, d)"
  unfolding refines_def Let_def db_ok_def disk_ok_def prod.case
  using assms(1-9,12) by (intro conjI bexI [OF _ assms(10)]) (use assms(11) in simp_all)

lemma checkpoint_name_inj: "checkpoint_prefix m @ u = checkpoint_prefix n @ v \<longleftrightarrow> m = n \<and> u = v"
proof
  assume same: "checkpoint_prefix m @ u = checkpoint_prefix n @ v"
  have "m = n" by (rule checkpoint_prefix_inj [of _ "checkpoint_prefix m @ u"]) (simp, simp only: same, simp)
  with same show "m = n \<and> u = v" by simp
qed simp

lemma saved_ok_new:
  assumes old: "saved_ok sp cps d saved" and x: "x = checkpoint_prefix n @ u"
    and new: "fs_view d' (cps @ [x]) = DirEntry" "sp_stored sp (sub_view d' (cps @ [x])) = Some m"
    and out: "\<And>q. \<not> prefix (cps @ [x]) q \<Longrightarrow> prefix cps q \<Longrightarrow> fs_view d' q = fs_view d q"
  shows "saved_ok sp cps d' (saved(n := (saved n)(u \<mapsto> m)))"
proof -
  have other: "fs_view d' (cps @ y # q) = fs_view d (cps @ y # q)" if "y \<noteq> x" for y q
    using that by (intro out) auto
  then have sub: "sub_view d' (cps @ [y]) = sub_view d (cps @ [y])" if "y \<noteq> x" for y
    using that by (simp add: sub_view_def fun_eq_iff)
  have same: "(saved(n := (saved n)(u \<mapsto> m))) k v = (if checkpoint_prefix k @ v = x then Some m else saved k v)" for k v
    by (auto simp: x checkpoint_name_inj)
  have old_entry: "fs_view d (cps @ [checkpoint_prefix k @ v]) \<noteq> NoEntry \<Longrightarrow>
      fs_view d (cps @ [checkpoint_prefix k @ v]) = DirEntry \<and> saved k v \<noteq> None \<and>
        sp_stored sp (sub_view d (cps @ [checkpoint_prefix k @ v])) = saved k v"
    and old_there: "saved k v \<noteq> None \<Longrightarrow> fs_view d (cps @ [checkpoint_prefix k @ v]) \<noteq> NoEntry" for k v
    using old unfolding saved_ok_def by blast+
  have "fs_view d' (cps @ [checkpoint_prefix k @ v]) = DirEntry \<and> (saved(n := (saved n)(u \<mapsto> m))) k v \<noteq> None \<and>
      sp_stored sp (sub_view d' (cps @ [checkpoint_prefix k @ v])) = (saved(n := (saved n)(u \<mapsto> m))) k v"
    if "fs_view d' (cps @ [checkpoint_prefix k @ v]) \<noteq> NoEntry" for k v
    using new that old_entry [of k v] other [of "checkpoint_prefix k @ v" "[]"] sub [of "checkpoint_prefix k @ v"] unfolding same by auto
  moreover have "fs_view d' (cps @ [checkpoint_prefix k @ v]) \<noteq> NoEntry" if "(saved(n := (saved n)(u \<mapsto> m))) k v \<noteq> None" for k v
    using new(1) that old_there [of k v] other [of "checkpoint_prefix k @ v" "[]"] unfolding same by (auto split: if_splits)
  ultimately show ?thesis unfolding saved_ok_def by blast
qed

lemma checkpoint_refines:
  assumes "rocks_ok rk sp" and "refines sp dir a used (b, d)" and "sn_saved a n uuid = None"
  obtains s where "backend_checkpoint rk uuid n r (b, d) = Ok s"
    and "refines sp dir (snapshot_save uuid n a) used s"
    and "sb_background_sync_channel (fst s) = sb_background_sync_channel b @
      [(show_usize n, r, create_checkpoint_directory_path (sb_root_dir b) n uuid)]"
    and "sp_stored sp (sub_view (snd s) (dir @ create_checkpoint_directory_path (sb_root_dir b) n uuid)) =
      Some (sn_now a)"
    and "fs_view (snd s) (dir @ create_checkpoint_directory_path (sb_root_dir b) n uuid) = DirEntry"
proof -
  let ?c = "dir @ sb_root_dir b @ [''checkpoint'']" and ?w = "dir @ sb_root_dir b @ [''working'']"
  let ?x = "checkpoint_prefix n @ uuid"
  have path: "dir @ create_checkpoint_directory_path (sb_root_dir b) n uuid = ?c @ [?x]"
    by (simp add: create_checkpoint_directory_path_def base_checkpoint_directory_path_def)
  note old = refinesD [OF assms(2)]
  obtain db1 d1 where flush: "rk_flush rk (sb_open_db b) d = Some (db1, d1)"
      "sp_content sp db1 = sn_now a" "sp_dir sp db1 = sp_dir sp (sb_open_db b)" "sp_live sp db1 d1"
      "frame {sp_dir sp (sb_open_db b)} d d1"
    using assms(1) old(2,8,9) unfolding rocks_ok_def flush_ok_def by metis
  have "refines sp dir a used (b\<lparr>sb_open_db := db1\<rparr>, d1)"
    using refines_db_change [OF assms(2) flush(5,4,3)] flush(2) by simp
  note mid = refinesD [OF this, simplified]
  obtain u where u: "u \<in> used" "sp_dir sp db1 = ?w @ [u]" using mid(11) by auto
  have "fs_view d1 (?c @ [?x]) = NoEntry"
    using mid(10) assms(3) unfolding saved_ok_def by metis
  then have "\<forall>q. fs_view d1 (?c @ ?x # q) = NoEntry"
    using view_below [of d1 "?c @ [?x]"] by (metis append.assoc append_Cons append_Nil append_Nil2 entry.distinct(3))
  moreover have "\<not> prefix (sp_dir sp db1) (?c @ [?x])" using u(2) by simp
  ultimately obtain db2 d2 where cp: "rk_create_checkpoint rk db1 (?c @ [?x]) d1 = Some (db2, d2)"
      "sp_content sp db2 = sn_now a" "sp_dir sp db2 = ?w @ [u]" "sp_live sp db2 d2"
      "frame {?w @ [u], ?c @ [?x]} d1 d2" "fs_view d2 (?c @ [?x]) = DirEntry"
      "sp_stored sp (sub_view d2 (?c @ [?x])) = Some (sn_now a)"
    using assms(1) mid(2,5,8) flush(2) u(2) unfolding rocks_ok_def checkpoint_ok_def by metis
  have out: "fs_view d2 q = fs_view d1 q" if "\<not> prefix (?w @ [u]) q" "\<not> prefix (?c @ [?x]) q" for q
    using frame_view [OF cp(5)] that by blast
  let ?b = "b\<lparr>sb_open_db := db2, sb_background_sync_channel := sb_background_sync_channel b @
      [(show_usize n, r, create_checkpoint_directory_path (sb_root_dir b) n uuid)]\<rparr>"
  have "saved_ok sp ?c d2 ((sn_saved a)(n := (sn_saved a n)(uuid \<mapsto> sn_now a)))"
  proof (rule saved_ok_new [OF mid(10) refl cp(6,7)])
    show "fs_view d2 q = fs_view d1 q" if "\<not> prefix (?c @ [?x]) q" "prefix ?c q" for q
    proof (rule out [OF _ that(1)])
      show "\<not> prefix (?w @ [u]) q" using that(2) by (auto elim!: prefixE)
    qed
  qed
  moreover have "fs_view d2 (?w @ v # q) = NoEntry" if "v \<notin> used" for v q
  proof -
    have "\<not> prefix (?w @ [u]) (?w @ v # q)" "\<not> prefix (?c @ [?x]) (?w @ v # q)" using u(1) that by auto
    with out mid(12) [OF that] show ?thesis by simp
  qed
  ultimately have "refines sp dir (snapshot_save uuid n a) used (?b, d2)"
    using cp u(1) mid out [of dir] out [of ?c] out [of ?w] old(7) flush(3) u(2)
    by (intro refinesI [of _ _ _ _ _ u]) (auto simp: frame_def prefix_def out)
  moreover have "backend_checkpoint rk uuid n r (b, d) = Ok (?b, d2)"
    using flush(1) cp(1) old(4) path
    by (simp add: backend_checkpoint_def create_local_rocksdb_checkpoint_def prefixed_storage_def Let_def)
  ultimately show ?thesis using that [of "(?b, d2)"] cp(6,7) path by simp
qed

text \<open>The search finds one of the local checkpoints with the number, the one that is listed first.\<close>

lemma find_local:
  assumes "refines sp dir a used (b, d)" and "sn_saved a n \<noteq> Map.empty"
  obtains x u m where "find_checkpoint json n r b d rdisk = Ok (True, [(sb_root_dir b @ [''checkpoint'', x], r)])"
    and "fs_view d (dir @ sb_root_dir b @ [''checkpoint'', x]) = DirEntry"
    and "sp_stored sp (sub_view d (dir @ sb_root_dir b @ [''checkpoint'', x])) = Some m" and "sn_saved a n u = Some m"
proof -
  let ?c = "sb_root_dir b @ [''checkpoint'']"
  note old = refinesD [OF assms(1)]
  obtain es where es: "prefixed_list_files dir ?c d = Ok es"
      "\<forall>e \<in> set es. fs_view d (dir @ ?c @ [fse_name e]) \<noteq> NoEntry"
      "\<forall>x. fs_view d (dir @ ?c @ [x]) \<noteq> NoEntry \<longrightarrow> x \<in> fse_name ` set es"
    using prefixed_list_ok [OF old(1,5)] by blast
  have sav: "fs_view d (dir @ ?c @ [checkpoint_prefix n @ u]) = DirEntry \<and> sn_saved a n u \<noteq> None \<and>
      sp_stored sp (sub_view d (dir @ ?c @ [checkpoint_prefix n @ u])) = sn_saved a n u"
    if "fs_view d (dir @ ?c @ [checkpoint_prefix n @ u]) \<noteq> NoEntry" for u
    using old(10) that unfolding saved_ok_def append_assoc by blast
  obtain u where "sn_saved a n u \<noteq> None" using assms(2) by (auto simp: fun_eq_iff)
  then have "fs_view d (dir @ ?c @ [checkpoint_prefix n @ u]) \<noteq> NoEntry"
    using old(10) unfolding saved_ok_def append_assoc by blast
  with es(3) have "\<exists>e \<in> set es. prefix (checkpoint_prefix n) (fse_name e)" by (metis imageE prefixI)
  then obtain e where e: "find (\<lambda>entry. prefix (checkpoint_prefix n) (fse_name entry)) es = Some e"
    by (cases "find (\<lambda>entry. prefix (checkpoint_prefix n) (fse_name entry)) es") (auto simp: find_None_iff)
  then have "e \<in> set es" "prefix (checkpoint_prefix n) (fse_name e)" by (auto simp: find_Some_iff)
  then obtain v where v: "fse_name e = checkpoint_prefix n @ v" "fs_view d (dir @ ?c @ [checkpoint_prefix n @ v]) \<noteq> NoEntry"
    using es(2) by (metis prefixE)
  with sav [of v] obtain m where "fs_view d (dir @ ?c @ [fse_name e]) = DirEntry"
    "sp_stored sp (sub_view d (dir @ ?c @ [fse_name e])) = Some m" "sn_saved a n v = Some m" by auto
  moreover have "find_checkpoint json n r b d rdisk = Ok (True, [(sb_root_dir b @ [''checkpoint'', fse_name e], r)])"
    using es(1) e old(4)
    by (simp add: find_checkpoint_def base_checkpoint_directory_path_def prefixed_storage_def Let_def)
  ultimately show ?thesis using that by simp
qed

text \<open>The single-checkpoint path: copy, open, destroy the old directory.\<close>

lemma switch_refines:
  assumes "rocks_ok rk sp" and "refines sp dir a used (b, d)" and "uuid \<notin> used"
    and "fs_view d (dir @ src) = DirEntry" and "sp_stored sp (sub_view d (dir @ src)) = Some m"
  obtains d1 db d2 d3 where
    "fs_copy (sb_local_file_system b) src (create_working_directory_path (sb_root_dir b) uuid) d = Ok d1"
    and "open_rocksdb_database rk (sb_local_file_system b) (create_working_directory_path (sb_root_dir b) uuid) d1 =
      Ok (db, d2)"
    and "destroy_rocksdb rk (sb_local_file_system b) (sb_working_dir b) d2 = Ok d3"
    and "refines sp dir (a\<lparr>sn_now := m\<rparr>) (insert uuid used)
      (b\<lparr>sb_working_dir := create_working_directory_path (sb_root_dir b) uuid, sb_open_db := db\<rparr>, d3)"
proof -
  let ?c = "dir @ sb_root_dir b @ [''checkpoint'']" and ?w = "dir @ sb_root_dir b @ [''working'']"
  have new_dir: "create_working_directory_path (sb_root_dir b) uuid = (sb_root_dir b @ [''working'']) @ [uuid]"
    by (simp add: create_working_directory_path_def base_working_directory_path_def)
  note old = refinesD [OF assms(2)]
  obtain u where u: "u \<in> used" "sp_dir sp (sb_open_db b) = ?w @ [u]" using old(11) by auto
  then have ne: "u \<noteq> uuid" using assms(3) by auto
  obtain d1 where d1: "prefixed_copy dir src ((sb_root_dir b @ [''working'']) @ [uuid]) d = Ok d1" "disk_ok dir d1"
      "\<forall>q. fs_view d1 (dir @ (sb_root_dir b @ [''working'']) @ uuid # q) = fs_view d (dir @ src @ q)"
      "\<forall>q. \<not> prefix ((sb_root_dir b @ [''working'']) @ [uuid]) q \<longrightarrow> fs_view d1 (dir @ q) = fs_view d (dir @ q)"
    using prefixed_copy_ok [OF old(1) assms(4), of "sb_root_dir b @ [''working'']" uuid] old(6) old(12) [OF assms(3)]
    by auto
  have sub: "sub_view d1 (?w @ [uuid]) = sub_view d (dir @ src)"
    using d1(3) by (simp add: sub_view_def fun_eq_iff)
  have d1_out: "fs_view d1 (dir @ q) = fs_view d (dir @ q)" if "\<not> prefix (dir @ sb_root_dir b @ [''working'', uuid]) (dir @ q)" for q
    using d1(4) that by simp
  have "fs_view d1 ?w = DirEntry" using d1_out [of "sb_root_dir b @ [''working'']"] old(6) by simp
  then obtain db d2 where d2: "rk_open_default rk (?w @ [uuid]) d1 = Some (db, d2)" "sp_content sp db = m"
      "sp_dir sp db = ?w @ [uuid]" "sp_live sp db d2" "frame {?w @ [uuid]} d1 d2"
    using assms(1,5) d1(2) sub unfolding rocks_ok_def open_ok_def disk_ok_def by metis
  have d2_out: "fs_view d2 (dir @ q) = fs_view d (dir @ q)" if "\<not> prefix (dir @ sb_root_dir b @ [''working'', uuid]) (dir @ q)" for q
    using frame_view [OF d2(5), of "dir @ q"] d1_out [OF that] that by simp
  have "fs_view d (?w @ [u]) = DirEntry"
    using assms(1) old(8) u(2) unfolding rocks_ok_def live_ok_def by metis
  then have "fs_view d2 (?w @ [u]) = DirEntry" using d2_out [of "sb_root_dir b @ [''working'', u]"] ne by simp
  moreover have "wf_node d2" using d2(5) by (simp add: frame_def)
  ultimately obtain d3 where d3: "rk_destroy rk (?w @ [u]) d2 = Some d3" "frame {?w @ [u]} d2 d3"
    using assms(1) unfolding rocks_ok_def destroy_ok_def by (metis append_is_Nil_conv list.distinct(1))
  have "sub_view d3 (?w @ [uuid]) = sub_view d2 (?w @ [uuid])"
    using frame_sub_view [OF d3(2), of "?w @ [uuid]"] ne by simp
  with assms(1) d2(3,4) have live: "sp_live sp db d3" unfolding rocks_ok_def live_ok_def by metis
  have d3_out: "fs_view d3 (dir @ q) = fs_view d (dir @ q)"
    if "\<not> prefix (sb_root_dir b @ [''working'', uuid]) q" "\<not> prefix (sb_root_dir b @ [''working'', u]) q" for q
    using frame_view [OF d3(2), of "dir @ q"] d2_out [of q] that by simp
  have "refines sp dir (a\<lparr>sn_now := m\<rparr>) (insert uuid used)
      (b\<lparr>sb_working_dir := create_working_directory_path (sb_root_dir b) uuid, sb_open_db := db\<rparr>, d3)"
  proof (rule refinesI [of _ _ _ _ _ uuid])
    show "saved_ok sp (dir @ sb_root_dir (b\<lparr>sb_working_dir := create_working_directory_path (sb_root_dir b) uuid,
        sb_open_db := db\<rparr>) @ [''checkpoint'']) d3 (sn_saved (a\<lparr>sn_now := m\<rparr>))"
      using saved_ok_cong [OF old(10), of d3] d3_out [of "sb_root_dir b @ ''checkpoint'' # _"] by simp
    show "fs_view d3 dir = DirEntry" using d3_out [of "[]"] old(3) by simp
    show "fs_view d3 (dir @ sb_root_dir (b\<lparr>sb_working_dir := create_working_directory_path (sb_root_dir b) uuid,
        sb_open_db := db\<rparr>) @ ''working'' # v # q) = NoEntry" if "v \<notin> insert uuid used" for v q
      using d3_out [of "sb_root_dir b @ ''working'' # v # q"] old(12) that u(1) by auto
  qed (use d3(2) old(4-6) d3_out [of "sb_root_dir b @ [''checkpoint'']"] d3_out [of "sb_root_dir b @ [''working'']"]
      d2(2,3) live new_dir in \<open>simp_all add: frame_def\<close>)
  moreover have "dir @ sb_working_dir b = ?w @ [u]" using old(7) u(2) by simp
  ultimately show ?thesis
    using that [of d1 db d2 d3] d1(1) d2(1) d3(1) old(4) new_dir
    by (simp add: open_rocksdb_database_def destroy_rocksdb_def prefixed_storage_def)
qed

lemma move_refines:
  assumes "rocks_ok rk sp" and "refines sp dir a used (b, d)" and "uuid \<notin> used" and "sn_saved a n \<noteq> Map.empty"
  obtains s u m where "move_to_checkpoint rk json fuel uuid sst_dir n r rdisk (b, d) = Some (Ok s)"
    and "sn_saved a n u = Some m" and "refines sp dir (a\<lparr>sn_now := m\<rparr>) (insert uuid used) s"
proof -
  obtain x u m where x: "find_checkpoint json n r b d rdisk = Ok (True, [(sb_root_dir b @ [''checkpoint'', x], r)])"
      "fs_view d (dir @ sb_root_dir b @ [''checkpoint'', x]) = DirEntry"
      "sp_stored sp (sub_view d (dir @ sb_root_dir b @ [''checkpoint'', x])) = Some m" "sn_saved a n u = Some m"
    by (rule find_local [OF assms(2,4)])
  show ?thesis
    by (rule switch_refines [OF assms(1-3) x(2,3)], rule that [OF _ x(4)])
      (use x(1) in \<open>auto simp: move_to_checkpoint_def Let_def\<close>)
qed

definition saved_names :: "snapshots \<Rightarrow> (usize \<times> string) set" where
  "saved_names a = {(n, u). sn_saved a n u \<noteq> None}"

lemma step_refines:
  assumes "rocks_ok rk sp" and "refines sp dir a used s" and "legal (saved_names a) used (x # xs)"
  shows "\<exists>s' a' used'. backend_step rk json fuel sst_dir rdisk x s = Some (Ok s') \<and> snapshot_step x a a' \<and>
    refines sp dir a' used' s' \<and> legal (saved_names a') used' xs"
proof (cases x)
  case (Put k v)
  have "saved_names (snapshot_put k v a) = saved_names a" by (simp add: saved_names_def)
  with Put assms(3) put_refines [OF assms(1), of dir a used _ _ k v] assms(2) show ?thesis
    by (metis backend_step.simps(1) legal.simps(2) snapshot_step.put surj_pair)
next
  case (Checkpoint u n r)
  then have n: "sn_saved a n u = None" "legal (insert (n, u) (saved_names a)) used xs"
    using assms(3) by (auto simp: saved_names_def)
  have "saved_names (snapshot_save u n a) = insert (n, u) (saved_names a)" by (auto simp: saved_names_def split: if_splits)
  moreover obtain s1 where "backend_checkpoint rk u n r s = Ok s1" "refines sp dir (snapshot_save u n a) used s1"
    using checkpoint_refines [OF assms(1) _ n(1)] assms(2) by (metis surj_pair)
  ultimately show ?thesis using Checkpoint n(2) by (auto intro!: exI [of _ s1] exI [of _ "snapshot_save u n a"] snapshot_step.save)
next
  case (MoveTo u n r)
  then have n: "n \<in> fst ` saved_names a" "u \<notin> used" "legal (saved_names a) (insert u used) xs" using assms(3) by auto
  then have "sn_saved a n \<noteq> Map.empty" by (auto simp: saved_names_def)
  then obtain s1 v m where "move_to_checkpoint rk json fuel u sst_dir n r rdisk s = Some (Ok s1)" "sn_saved a n v = Some m"
    "refines sp dir (a\<lparr>sn_now := m\<rparr>) (insert u used) s1"
    using move_refines [OF assms(1) _ n(2), of dir a] assms(2) by (metis surj_pair)
  moreover have "saved_names (a\<lparr>sn_now := m\<rparr>) = saved_names a" by (simp add: saved_names_def)
  ultimately show ?thesis using MoveTo n(3)
    by (intro exI [of _ s1] exI [of _ "a\<lparr>sn_now := m\<rparr>"] exI [of _ "insert u used"]) (auto intro: snapshot_step.move)
qed

lemma ops_refine:
  assumes "rocks_ok rk sp" and "refines sp dir a used s" and "legal (saved_names a) used xs"
  shows "\<exists>s' a' used'. backend_ops rk json fuel sst_dir rdisk xs s = Some (Ok s') \<and> snapshot_run xs a a' \<and> refines sp dir a' used' s'"
  using assms(2,3)
proof (induction xs arbitrary: a used s)
  case (Cons x xs)
  from step_refines [OF assms(1) Cons.prems] obtain s1 a1 used1 where
    1: "backend_step rk json fuel sst_dir rdisk x s = Some (Ok s1)" "snapshot_step x a a1" "refines sp dir a1 used1 s1"
      "legal (saved_names a1) used1 xs" by blast
  from Cons.IH [OF 1(3,4)] 1(1,2) show ?case by (auto intro: run_cons)
qed (auto intro: run_nil)

lemma refines_reads:
  assumes "rocks_ok rk sp" and "refines sp dir a used s"
  shows "backend_get rk k s = Ok (sn_now a k)"
    and "\<exists>kvs. backend_iterate rk s = map Ok kvs \<and> distinct (map fst kvs) \<and> map_of kvs = sn_now a"
proof -
  obtain b d where s: "s = (b, d)" by (cases s)
  note old = refinesD [OF assms(2) [unfolded s]]
  show "backend_get rk k s = Ok (sn_now a k)"
    using assms(1) old(8,9) s by (simp add: rocks_ok_def read_ok_def backend_get_def)
  obtain kvs where "rk_iterator rk (sb_open_db b) d = map Some kvs" "distinct (map fst kvs)" "map_of kvs = sn_now a"
    using assms(1) old(8,9) unfolding rocks_ok_def read_ok_def by metis
  then show "\<exists>kvs. backend_iterate rk s = map Ok kvs \<and> distinct (map fst kvs) \<and> map_of kvs = sn_now a"
    using s by (auto simp: backend_iterate_def comp_def)
qed

text \<open>Opening a new backend starts the simulation with the empty contents.\<close>

lemma open_new_refines:
  assumes "rocks_ok rk sp" and "disk_ok dir disk"
    and free: "\<And>q. fs_view disk (dir @ create_root_directory_path state_id partitions @ q) = NoEntry"
    and "fs_view disk (dir @ [state_id]) \<in> {NoEntry, DirEntry}"
  obtains s where "open_new rk state_id partitions remote (prefixed_storage dir) uuid disk = Ok s"
    and "refines sp dir no_snapshots {uuid} s"
    and "sb_state_id (fst s) = state_id" and "sb_partitions (fst s) = partitions"
    and "sb_remote_checkpoint_storage (fst s) = remote"
    and "sb_root_dir (fst s) = create_root_directory_path state_id partitions"
    and "sb_background_sync_channel (fst s) = []"
    and "\<And>q. \<not> prefix (create_root_directory_path state_id partitions) q \<Longrightarrow>
      fs_view (snd s) (dir @ q) = (if prefix q (create_root_directory_path state_id partitions) then DirEntry
        else fs_view disk (dir @ q))"
proof -
  define root where "root = create_root_directory_path state_id partitions"
  then obtain x where root: "root = [state_id, x]" by (simp add: create_root_directory_path_def)
  have nofile: "fs_view disk (dir @ q) \<noteq> FileEntry c" if "prefix q (root @ [y])" for q c y
  proof -
    from that root have "q \<in> {[], [state_id], root, root @ [y]}"
      by (auto simp: prefix_Cons)
    with assms(2,4) free [of "[]"] free [of "[y]"] root_def show ?thesis by (auto simp: disk_ok_def)
  qed
  obtain d1 where d1: "prefixed_mkdir_all dir (root @ [''working'']) disk = Ok d1"
    using prefixed.mkdir_ok [OF assms(2) nofile [of _ "''working''"]] by (fastforce simp: is_ok_iff)
  have v1: "disk_ok dir d1" "\<And>q. fs_view d1 (dir @ q) =
      (if prefix q (root @ [''working'']) then DirEntry else fs_view disk (dir @ q))"
    using prefixed.mkdir_view [of dir "root @ [''working'']" disk d1] d1 assms(2) by auto
  have "fs_view d1 (dir @ q) \<noteq> FileEntry c" if "prefix q (root @ [''checkpoint''])" for q c
    using nofile [OF that] v1(2) by simp
  then obtain d2 where d2: "prefixed_mkdir_all dir (root @ [''checkpoint'']) d1 = Ok d2"
    using prefixed.mkdir_ok [OF v1(1), of "root @ [''checkpoint'']"] by (auto simp: is_ok_iff)
  have v2: "disk_ok dir d2" "\<And>q. fs_view d2 (dir @ q) =
      (if prefix q (root @ [''checkpoint'']) then DirEntry else fs_view d1 (dir @ q))"
    using prefixed.mkdir_view [of dir "root @ [''checkpoint'']" d1 d2] d2 v1(1) by auto
  have deep: "fs_view d2 (dir @ root @ y # z # q) = NoEntry" for y z q
    using v2(2) [of "root @ y # z # q"] v1(2) [of "root @ y # z # q"] free [of "y # z # q"] root_def by simp
  have dirs: "fs_view d2 (dir @ root @ [''working'']) = DirEntry" "fs_view d2 (dir @ root @ [''checkpoint'']) = DirEntry"
    using v2(2) [of "root @ [''working'']"] v2(2) [of "root @ [''checkpoint'']"] v1(2) [of "root @ [''working'']"] by auto
  have "sub_view d2 ((dir @ root @ [''working'']) @ [uuid]) = (\<lambda>_. NoEntry)"
    using deep by (simp add: sub_view_def fun_eq_iff)
  then obtain db d3 where d3: "rk_open_default rk ((dir @ root @ [''working'']) @ [uuid]) d2 = Some (db, d3)"
      "sp_content sp db = Map.empty" "sp_dir sp db = (dir @ root @ [''working'']) @ [uuid]" "sp_live sp db d3"
      "frame {(dir @ root @ [''working'']) @ [uuid]} d2 d3"
    using assms(1) v2(1) dirs(1) unfolding rocks_ok_def open_ok_def disk_ok_def by metis
  have out: "fs_view d3 (dir @ q) = fs_view d2 (dir @ q)" if "\<not> prefix (root @ [''working'', uuid]) q" for q
    using frame_view [OF d3(5), of "dir @ q"] that by simp
  let ?b = "\<lparr>sb_state_id = state_id, sb_root_dir = root, sb_partitions = partitions,
      sb_remote_checkpoint_storage = remote, sb_local_file_system = prefixed_storage dir,
      sb_working_dir = root @ [''working'', uuid], sb_open_db = db, sb_background_sync_channel = []\<rparr>"
  have "refines sp dir no_snapshots {uuid} (?b, d3)"
  proof (rule refinesI [of _ _ _ _ _ uuid])
    show "saved_ok sp (dir @ sb_root_dir ?b @ [''checkpoint'']) d3 (sn_saved no_snapshots)"
      using out [of "root @ [''checkpoint'', _]"] deep by (simp add: saved_ok_def no_snapshots_def)
    show "fs_view d3 (dir @ sb_root_dir ?b @ ''working'' # v # q) = NoEntry" if "v \<notin> {uuid}" for v q
      using out [of "root @ ''working'' # v # q"] deep that by simp
  qed (use d3 out [of "[]"] out [of "root @ [''working'']"] out [of "root @ [''checkpoint'']"] dirs v2(1)
      in \<open>simp_all add: frame_def disk_ok_def root\<close>)
  moreover have "open_new rk state_id partitions remote (prefixed_storage dir) uuid disk = Ok (?b, d3)"
    using d1 d2 d3(1)
    by (simp add: open_new_def open_rocksdb_database_def base_working_directory_path_def
        base_checkpoint_directory_path_def create_working_directory_path_def prefixed_storage_def
        flip: root_def)
  moreover have "fs_view d3 (dir @ q) = (if prefix q root then DirEntry else fs_view disk (dir @ q))"
    if "\<not> prefix root q" for q
  proof -
    have "\<not> prefix (root @ [''working'', uuid]) q" using that append_prefixD by blast
    then have "fs_view d3 (dir @ q) = fs_view d2 (dir @ q)" by (rule out)
    moreover have "q \<noteq> root @ [''working'']" "q \<noteq> root @ [''checkpoint'']" using that by auto
    ultimately show ?thesis using v2(2) v1(2) by (simp add: prefix_snoc)
  qed
  ultimately show ?thesis using that [of "(?b, d3)"] root_def by simp
qed

subsection \<open>A small database\<close>

text \<open>
  A database that keeps its pairs in memory and writes them to one file when it is
  checkpointed.  It meets the contract.
\<close>

type_synonym pairs = "(bytes \<times> bytes) list"

datatype small_file = Pairs pairs | Index latest_checkpoints

definition small_stored :: "(path \<Rightarrow> small_file entry) \<Rightarrow> content option" where
  "small_stored v =
     (if v [] = NoEntry then Some Map.empty
      else case v [''data''] of FileEntry (Pairs kvs) \<Rightarrow> if distinct (map fst kvs) then Some (map_of kvs) else None | _ \<Rightarrow> None)"

definition small_open :: "path \<Rightarrow> small_file node \<Rightarrow> ((path \<times> pairs) \<times> small_file node) option" where
  "small_open p d =
     (if fs_view d p = NoEntry then map_option (Pair (p, [])) (mkdir_node p d)
      else case fs_view d (p @ [''data'']) of FileEntry (Pairs kvs) \<Rightarrow> Some ((p, kvs), d) | _ \<Rightarrow> None)"

definition small_checkpoint :: "path \<times> pairs \<Rightarrow> path \<Rightarrow> small_file node \<Rightarrow> ((path \<times> pairs) \<times> small_file node) option" where
  "small_checkpoint db p d =
     Option.bind (mkdir_node p d) (\<lambda>d'. map_option (Pair db) (write_node (p @ [''data'']) (Pairs (snd db)) d'))"

definition small_rocks :: "(small_file, path \<times> pairs, unit) rocks" where
  "small_rocks =
     \<lparr>rk_open_default = small_open,
      rk_put = (\<lambda>db k v d. Some ((fst db, AList.update k v (snd db)), d)),
      rk_get = (\<lambda>db k d. Some (map_of (snd db) k)),
      rk_iterator = (\<lambda>db d. map Some (snd db)),
      rk_flush = (\<lambda>db d. Some (db, d)),
      rk_create_checkpoint = small_checkpoint,
      rk_destroy = (\<lambda>p d. Some d),
      rk_sst_open = (\<lambda>p d. if fs_view d p = DirEntry then None else Some ((), d)),
      rk_sst_put = (\<lambda>w k v. Some w),
      rk_sst_finish = (\<lambda>w d. Some d),
      rk_ingest_external_file = (\<lambda>db ps d. Some (db, d))\<rparr>"

definition small_json :: "small_file json_lib" where
  "small_json = \<lparr>js_print = Some \<circ> Index, js_parse = (\<lambda>c. case c of Index latest \<Rightarrow> Some latest | Pairs _ \<Rightarrow> None)\<rparr>"

definition small_spec :: "(small_file, path \<times> pairs) rocks_spec" where
  "small_spec =
     \<lparr>sp_content = (\<lambda>db. map_of (snd db)), sp_dir = fst,
      sp_live = (\<lambda>db d. fs_view d (fst db) = DirEntry \<and> distinct (map fst (snd db))),
      sp_stored = small_stored\<rparr>"

lemma frame_refl: "wf_node d \<Longrightarrow> frame ps d d"
  by (simp add: frame_def)

text \<open>Creating a directory in an existing one changes nothing else.\<close>

lemma mkdir_in:
  assumes "wf_node d" and "fs_view d par = DirEntry" and "fs_view d (par @ [x]) = NoEntry"
  obtains d' where "mkdir_node (par @ [x]) d = Some d'" and "frame {par @ [x]} d d'"
    and "fs_view d' (par @ [x]) = DirEntry" and "\<And>q. q \<noteq> [] \<Longrightarrow> fs_view d' (par @ x # q) = NoEntry"
proof -
  have up: "fs_view d q = DirEntry" if "prefix q par" for q
    using view_prefix_dir [OF assms(2) that] .
  then have "fs_view d q \<noteq> FileEntry c" if "prefix q (par @ [x])" for q c
    using that assms(3) by (auto simp: prefix_snoc)
  then obtain d' where d': "mkdir_node (par @ [x]) d = Some d'" using mkdir_node_ok by blast
  note v = mkdir_node_view [OF d']
  have "frame {par @ [x]} d d'"
    using v up mkdir_node_wf [OF d' assms(1)] by (auto simp: frame_def prefix_snoc)
  moreover have "fs_view d' (par @ x # q) = NoEntry" if q: "q \<noteq> []" for q
  proof -
    have "fs_view d (par @ x # q) = NoEntry" using view_below [of d "par @ [x]" q] assms(3) q by auto
    moreover have "\<not> prefix (par @ x # q) (par @ [x])" using q by simp
    ultimately show ?thesis by (simp add: v)
  qed
  ultimately show ?thesis using that d' v [of "par @ [x]"] by simp
qed

lemma small_open_ok: "open_ok small_rocks small_spec"
proof -
  have "\<exists>db d'. small_open (par @ [x]) d = Some (db, d') \<and> map_of (snd db) = m \<and> fst db = par @ [x] \<and>
      (fs_view d' (fst db) = DirEntry \<and> distinct (map fst (snd db))) \<and> frame {par @ [x]} d d'"
    if "wf_node d" "fs_view d par = DirEntry" "small_stored (sub_view d (par @ [x])) = Some m" for par x d m
  proof (cases "fs_view d (par @ [x]) = NoEntry")
    case True
    then show ?thesis
      using that mkdir_in [OF that(1,2) True] by (auto simp: small_stored_def small_open_def sub_view_def)
  next
    case False
    with that obtain kvs where "fs_view d (par @ [x, ''data'']) = FileEntry (Pairs kvs)" "distinct (map fst kvs)" "m = map_of kvs"
      by (auto simp: small_stored_def sub_view_def split: entry.splits small_file.splits if_splits)
    moreover from this have "fs_view d (par @ [x]) = DirEntry" using view_below [of d "par @ [x]" "[''data'']"] by simp
    ultimately show ?thesis using frame_refl [OF that(1)] by (auto simp: small_open_def)
  qed
  then show ?thesis by (simp add: open_ok_def small_rocks_def small_spec_def small_stored_def)
qed

lemma small_checkpoint_ok: "checkpoint_ok small_rocks small_spec"
proof -
  have "\<exists>d'. small_checkpoint db (par @ [x]) d = Some (db, d') \<and> fs_view d' (fst db) = DirEntry \<and>
      frame {fst db, par @ [x]} d d' \<and> fs_view d' (par @ [x]) = DirEntry \<and>
      small_stored (sub_view d' (par @ [x])) = Some (map_of (snd db))"
    if "wf_node d" "fs_view d (fst db) = DirEntry" "distinct (map fst (snd db))" "fs_view d par = DirEntry"
      "\<forall>q. fs_view d (par @ x # q) = NoEntry" "\<not> prefix (fst db) (par @ [x])" for db d par x
  proof -
    have "fs_view d (par @ [x]) = NoEntry" using that(5) by simp
    from mkdir_in [OF that(1,4) this] obtain d1 where d1: "mkdir_node (par @ [x]) d = Some d1"
      "frame {par @ [x]} d d1" "fs_view d1 (par @ [x]) = DirEntry" "\<And>q. q \<noteq> [] \<Longrightarrow> fs_view d1 (par @ x # q) = NoEntry"
      by blast
    have "fs_view d1 ((par @ [x]) @ [''data'']) \<noteq> DirEntry" using d1(4) [of "[''data'']"] by simp
    from write_node_ok [OF d1(3) this] obtain d2 where
      d2: "write_node ((par @ [x]) @ [''data'']) (Pairs (snd db)) d1 = Some d2" by blast
    note v = write_node_view [OF d2]
    have "\<not> prefix (par @ [x]) (fst db)"
    proof
      assume "prefix (par @ [x]) (fst db)"
      then obtain q where "fst db = par @ x # q" by (auto elim: prefixE)
      with that(2,5) show False by simp
    qed
    then have "fs_view d2 (fst db) = DirEntry"
      using v [of "fst db"] frame_view [OF d1(2), of "fst db"] that(2) by (auto simp: prefix_def)
    moreover have "frame {fst db, par @ [x]} d d2"
      using v d1(2) write_node_wf [OF d2] by (auto simp: frame_def prefix_def)
    moreover have "fs_view d2 (par @ [x]) = DirEntry" "fs_view d2 (par @ [x, ''data'']) = FileEntry (Pairs (snd db))"
      using v d1(3) by simp_all
    ultimately show ?thesis
      using d1(1) d2 that(3) by (simp add: small_checkpoint_def small_stored_def sub_view_def)
  qed
  then show ?thesis by (fastforce simp: checkpoint_ok_def small_rocks_def small_spec_def)
qed

lemma small_rocks_ok: "rocks_ok small_rocks small_spec"
proof -
  have "live_ok small_spec"
    unfolding live_ok_def small_spec_def sub_view_def by (auto dest: fun_cong [of _ _ "[]"])
  moreover have "put_ok small_rocks small_spec" "flush_ok small_rocks small_spec" "destroy_ok small_rocks"
    "read_ok small_rocks small_spec"
    by (auto simp: put_ok_def flush_ok_def destroy_ok_def read_ok_def small_rocks_def small_spec_def
        frame_refl AList.distinct_update AList.update_conv' fun_eq_iff)
  ultimately show ?thesis using small_open_ok small_checkpoint_ok by (simp add: rocks_ok_def)
qed

subsection \<open>Properties\<close>

text \<open>
  C2: the state backend refines a key-value store with snapshots.  Take a backend opened in an
  unused directory and any sequence of puts, checkpoints and moves in which moves go to numbers
  checkpointed before and the identifiers drawn for directories are fresh.  Every step succeeds,
  and afterwards reading any key and iterating show exactly the contents of a run of the
  specification, where a checkpoint saves the current contents under its number and a move
  restores one of the contents saved under the number.  When no number is checkpointed twice
  this run is the only one, so that a move restores the contents of the checkpoint.
\<close>

theorem backend_refines_snapshots:
  assumes "rocks_ok rk sp" and "disk_ok dir disk"
    and "\<And>q. fs_view disk (dir @ create_root_directory_path state_id partitions @ q) = NoEntry"
    and "fs_view disk (dir @ [state_id]) \<in> {NoEntry, DirEntry}"
    and "legal {} {uuid} xs"
  shows "\<exists>s s' a. open_new rk state_id partitions remote (prefixed_storage dir) uuid disk = Ok s \<and>
    backend_ops rk json fuel sst_dir rdisk xs s = Some (Ok s') \<and>
    snapshot_run xs no_snapshots a \<and>
    (distinct (checkpoint_numbers xs) \<longrightarrow> (\<forall>a'. snapshot_run xs no_snapshots a' \<longrightarrow> a' = a)) \<and>
    (\<forall>k. backend_get rk k s' = Ok (sn_now a k)) \<and>
    (\<exists>kvs. backend_iterate rk s' = map Ok kvs \<and> distinct (map fst kvs) \<and> map_of kvs = sn_now a)"
proof -
  obtain s where s: "open_new rk state_id partitions remote (prefixed_storage dir) uuid disk = Ok s"
    "refines sp dir no_snapshots {uuid} s"
    by (rule open_new_refines [OF assms(1-4)])
  have "legal (saved_names no_snapshots) {uuid} xs" using assms(5) by (simp add: saved_names_def)
  from ops_refine [OF assms(1) s(2) this] obtain s' a used' where s':
    "backend_ops rk json fuel sst_dir rdisk xs s = Some (Ok s')" "snapshot_run xs no_snapshots a"
    "refines sp dir a used' s'" by blast
  have "a' = a" if "distinct (checkpoint_numbers xs)" "snapshot_run xs no_snapshots a'" for a'
    by (rule snapshot_run_unique [OF that(2) s'(2)]) (simp add: saved_once_def that(1))
  then show ?thesis
    by (intro exI [of _ s] exI [of _ s'] exI [of _ a] conjI allI impI s(1) s'(1,2) refines_reads [OF assms(1) s'(3)]) blast
qed

lemma example_snapshot_run:
  "snapshot_run [Put [1] [2], Checkpoint ''v'' 1 r, Put [1] [3], MoveTo ''w'' 1 r] no_snapshots
     (let a = snapshot_save ''v'' 1 (snapshot_put [1] [2] no_snapshots) in (snapshot_put [1] [3] a)\<lparr>sn_now := [[1] \<mapsto> [2]]\<rparr>)"
  unfolding Let_def
  by (rule run_cons, rule snapshot_step.put, rule run_cons, rule snapshot_step.save, rule run_cons, rule snapshot_step.put,
      rule run_cons, rule snapshot_step.move [of _ _ "''v''"], simp, rule run_nil)

theorem backend_refines_snapshots_witness:
  "\<exists>s s'. open_new small_rocks ''op'' (pr_new 0 1 1) \<lparr>ss_storage = prefixed_storage [], ss_root_dir = []\<rparr>
      (prefixed_storage []) ''u'' (Dir []) = Ok s \<and>
    backend_ops small_rocks \<lparr>js_print = \<lambda>_. None, js_parse = \<lambda>_. None\<rparr> 0 [] (Dir [])
      [Put [1] [2], Checkpoint ''v'' 1 (pr_new 0 1 1), Put [1] [3], MoveTo ''w'' 1 (pr_new 0 1 1)] s = Some (Ok s') \<and>
    backend_get small_rocks [1] s' = Ok (Some [2])"
proof -
  let ?xs = "[Put [1] [2], Checkpoint ''v'' 1 (pr_new 0 1 1), Put [1] [3], MoveTo ''w'' 1 (pr_new 0 1 1)]"
  have "disk_ok [] (Dir [] :: small_file node)" by (simp add: disk_ok_def)
  moreover have "fs_view (Dir [] :: small_file node) ([] @ create_root_directory_path ''op'' (pr_new 0 1 1) @ q) = NoEntry" for q
    by (simp add: create_root_directory_path_def)
  moreover have "fs_view (Dir [] :: small_file node) ([] @ [''op'']) \<in> {NoEntry, DirEntry}" by simp
  moreover have "legal {} {''u''} ?xs" by simp
  ultimately obtain s s' a where
    run: "open_new small_rocks ''op'' (pr_new 0 1 1) \<lparr>ss_storage = prefixed_storage [], ss_root_dir = []\<rparr>
      (prefixed_storage []) ''u'' (Dir []) = Ok s"
    "backend_ops small_rocks \<lparr>js_print = \<lambda>_. None, js_parse = \<lambda>_. None\<rparr> 0 [] (Dir []) ?xs s = Some (Ok s')"
    "distinct (checkpoint_numbers ?xs) \<longrightarrow> (\<forall>a'. snapshot_run ?xs no_snapshots a' \<longrightarrow> a' = a)"
    "\<forall>k. backend_get small_rocks k s' = Ok (sn_now a k)"
    using backend_refines_snapshots [OF small_rocks_ok, of "[]" "Dir []" "''op''" "pr_new 0 1 1" "''u''" ?xs
        "\<lparr>ss_storage = prefixed_storage [], ss_root_dir = []\<rparr>" "\<lparr>js_print = \<lambda>_. None, js_parse = \<lambda>_. None\<rparr>" 0 "[]" "Dir []"]
    by blast
  have "sn_now a [1] = Some [2]" using run(3) example_snapshot_run [of "pr_new 0 1 1"] by (auto simp: Let_def)
  with run(4) have "backend_get small_rocks [1] s' = Ok (Some [2])" by simp
  with run(1,2) show ?thesis by blast
qed

subsection \<open>Restoring on another disk\<close>

lemma upload_spec:
  assumes "disk_ok la ldisk" and "fs_view ldisk (la @ src) = DirEntry" and "disk_ok rd rdisk" and "codec_ok json"
    and st: "st = \<lparr>ss_storage = prefixed_storage rd, ss_root_dir = root\<rparr>"
    and nofile: "\<And>q c. prefix q (get_checkpoint_path st sid uuid) \<Longrightarrow> fs_view rdisk (rd @ q) \<noteq> FileEntry c"
    and fresh: "\<And>q. fs_view rdisk (rd @ get_checkpoint_path st sid uuid @ q) = NoEntry"
    and "fs_view rdisk (rd @ get_latest_json_path st sid) \<noteq> DirEntry"
    and "read_latest_json json st (get_latest_json_path st sid) rdisk = Ok latest"
    and "\<forall>entry \<in> set (completed_checkpoints latest). ce_id entry \<noteq> cid"
    and "small_range r" and "pr_start r < pr_end r" and "card {q. fs_view ldisk (la @ src @ q) = DirEntry} \<le> fuel"
  obtains rdisk' where
    "upload_checkpoint json fuel t uuid sid cid src r (prefixed_storage la) ldisk st rdisk = Some (Ok rdisk')"
    and "disk_ok rd rdisk'"
    and "get_operator_checkpoints json st sid r cid rdisk' = Ok [(get_checkpoint_path st sid uuid, r)]"
    and "\<And>q. fs_view rdisk' (rd @ get_checkpoint_path st sid uuid @ q) = fs_view ldisk (la @ src @ q)"
proof -
  let ?c = "get_checkpoint_path st sid uuid" and ?l = "get_latest_json_path st sid"
  have c: "?c = root @ [''operators'', sid, ''checkpoints'', uuid]" and l: "?l = root @ [''operators'', sid, ''latest.json'']"
    by (simp_all add: st get_checkpoint_path_def get_latest_json_path_def)
  have apart: "\<not> prefix ?c (?l @ q)" "\<not> prefix ?l ?c" "\<not> prefix (?c @ q) ?l" for q by (simp_all add: c l)
  obtain d1 where d1: "prefixed_mkdir_all rd ?c rdisk = Ok d1"
    using prefixed.mkdir_ok [OF assms(3) nofile, of ?c] by (fastforce simp: is_ok_iff)
  have v1: "disk_ok rd d1" "\<And>q. fs_view d1 (rd @ q) = (if prefix q ?c then DirEntry else fs_view rdisk (rd @ q))"
    using prefixed.mkdir_view [of rd ?c rdisk d1] d1 assms(3) by auto
  have "fs_view d1 (rd @ q) \<noteq> FileEntry c" if "prefix q ?c" for q c using v1(2) that by simp
  moreover have "fs_view d1 (rd @ ?c @ q) = NoEntry" if "q \<noteq> []" for q
    using v1(2) [of "?c @ q"] fresh that by simp
  ultimately obtain d2 where d2: "copy_dir_between_systems fuel (prefixed_storage la) src ldisk (prefixed_storage rd) ?c d1 =
      Some (Ok d2)" "disk_ok rd d2" "\<And>q. fs_view d2 (rd @ ?c @ q) = fs_view ldisk (la @ src @ q)"
      "\<And>p. \<not> prefix ?c p \<Longrightarrow> fs_view d2 (rd @ p) = (if prefix p ?c then DirEntry else fs_view d1 (rd @ p))"
    using local_pair.copy_dir_spec [of la ldisk rd d1 src ?c fuel] assms(1,2,13) v1(1) by (metis (no_types, lifting))
  have lv: "fs_view d2 (rd @ ?l) = fs_view rdisk (rd @ ?l)"
    using d2(4) [of ?l] v1(2) [of ?l] apart(1) [of "[]"] apart(2) by simp
  have sst: "ss_storage st = prefixed_storage rd" and sroot: "ss_root_dir st = root" by (simp_all add: st)
  have dirs: "fs_view d2 (rd @ q) \<noteq> FileEntry c" if "prefix q (ss_root_dir st @ [''operators'', sid])" for q c
  proof -
    have "prefix q ?c" "\<not> prefix ?c q"
      using that sroot prefix_order.trans [OF that, of ?c] prefix_length_le [OF that] prefix_length_le [of ?c q] by (auto simp: c)
    with d2(4) show ?thesis by simp
  qed
  have "read_latest_json json st ?l d2 = Ok latest"
    using prefixed.read_latest_view [of d2 rd ?l rdisk st json] lv sst assms(9) by simp
  moreover have "fs_view d2 (rd @ ?l) \<noteq> DirEntry" using lv assms(8) by simp
  ultimately obtain d3 where d3: "complete_checkpoint json st t sid cid ?c r d2 = Ok d3" "disk_ok rd d3"
      "read_latest_json json st ?l d3 = Ok \<lparr>completed_checkpoints =
        add_partition cid \<lparr>pi_partition_range = r, pi_timestamp = t, pi_checkpoint_dir = ?c\<rparr>
          (completed_checkpoints latest)\<rparr>"
      "\<And>q. \<not> prefix q ?l \<Longrightarrow> fs_view d3 (rd @ q) = fs_view d2 (rd @ q)"
    using prefixed.complete_checkpoint_spec [OF d2(2) assms(4) sst dirs] by metis
  show ?thesis
  proof (rule that)
    show "upload_checkpoint json fuel t uuid sid cid src r (prefixed_storage la) ldisk st rdisk = Some (Ok d3)"
      using d1 d2(1) d3(1) sst by (simp add: upload_checkpoint_def start_checkpoint_def Let_def)
    show "get_operator_checkpoints json st sid r cid d3 = Ok [(?c, r)]"
      by (rule get_completed [OF d3(3) assms(10-12)])
    show "fs_view d3 (rd @ ?c @ q) = fs_view ldisk (la @ src @ q)" for q
      using d3(4) [OF apart(3)] d2(3) by simp
  qed (rule d3(2))
qed

lemma refines_elsewhere:
  assumes "rocks_ok rk sp" and "refines sp dir a used (b, d)" and "disk_ok dir d'"
    and same: "\<And>q. fs_view d' (dir @ sb_root_dir b @ q) = fs_view d (dir @ sb_root_dir b @ q)"
  shows "refines sp dir a used (b, d')"
proof -
  note old = refinesD [OF assms(2)]
  obtain u where u: "u \<in> used" "sp_dir sp (sb_open_db b) = dir @ sb_root_dir b @ [''working'', u]" using old(11) by blast
  have "sub_view d' (sp_dir sp (sb_open_db b)) = sub_view d (sp_dir sp (sb_open_db b))"
    using same by (simp add: sub_view_def fun_eq_iff u(2))
  with assms(1) old(8) have live: "sp_live sp (sb_open_db b) d'" unfolding rocks_ok_def live_ok_def by metis
  have "fs_view d' ((dir @ sb_root_dir b @ [''checkpoint'']) @ q) = fs_view d ((dir @ sb_root_dir b @ [''checkpoint'']) @ q)" for q
    using same [of "''checkpoint'' # q"] by simp
  from saved_ok_cong [OF old(10) this] show ?thesis
    using live old assms(3) same by (intro refinesI [OF _ _ _ _ _ _ _ _ _ u]) (simp_all add: disk_ok_def)
qed

lemma find_remote:
  assumes "refines sp dir a used (b, d)" and "sn_saved a n = Map.empty"
  shows "find_checkpoint json n r b d rdisk = map_result (Pair False)
    (get_operator_checkpoints json (sb_remote_checkpoint_storage b) (sb_state_id b) (sb_partitions b) (show_usize n) rdisk)"
proof -
  let ?c = "sb_root_dir b @ [''checkpoint'']"
  note old = refinesD [OF assms(1)]
  obtain es where es: "prefixed_list_files dir ?c d = Ok es"
      "\<forall>e \<in> set es. fs_view d (dir @ ?c @ [fse_name e]) \<noteq> NoEntry"
    using prefixed_list_ok [OF old(1,5)] by blast
  have "\<not> prefix (checkpoint_prefix n) (fse_name e)" if "e \<in> set es" for e
    using old(10) es(2) that assms(2) unfolding saved_ok_def append_assoc by (metis prefixE)
  then have "find (\<lambda>entry. prefix (checkpoint_prefix n) (fse_name entry)) es = None" by (simp add: find_None_iff)
  with es(1) old(4) show ?thesis
    by (simp add: find_checkpoint_def base_checkpoint_directory_path_def prefixed_storage_def Let_def)
qed

lemma restore_remote:
  assumes "rocks_ok rk sp" and "refines sp dir a used (b, d)" and "sn_saved a n = Map.empty" and "uuid \<notin> used"
    and st: "sb_remote_checkpoint_storage b = \<lparr>ss_storage = prefixed_storage rd, ss_root_dir = root\<rparr>"
    and "disk_ok rd rdisk"
    and found: "get_operator_checkpoints json (sb_remote_checkpoint_storage b) (sb_state_id b) (sb_partitions b)
        (show_usize n) rdisk = Ok [(cdir, r)]"
    and tree: "fs_view rdisk (rd @ cdir) = DirEntry" "sp_stored sp (sub_view rdisk (rd @ cdir)) = Some m"
    and nofile: "\<And>q c. prefix q cdir \<Longrightarrow> fs_view d (dir @ q) \<noteq> FileEntry c"
    and fresh: "\<And>q. q \<noteq> [] \<Longrightarrow> fs_view d (dir @ cdir @ q) = NoEntry"
    and apart: "\<not> prefix cdir (sb_root_dir b)" "\<not> prefix (sb_root_dir b) cdir"
    and fuel: "card {q. fs_view rdisk (rd @ cdir @ q) = DirEntry} \<le> fuel"
  obtains s where "move_to_checkpoint rk json fuel uuid sst_dir n r' rdisk (b, d) = Some (Ok s)"
    and "refines sp dir (a\<lparr>sn_now := m\<rparr>) (insert uuid used) s"
proof -
  note old = refinesD [OF assms(2)]
  obtain d1 where d1: "copy_dir_between_systems fuel (prefixed_storage rd) cdir rdisk (prefixed_storage dir) cdir d =
      Some (Ok d1)" "disk_ok dir d1" "\<And>q. fs_view d1 (dir @ cdir @ q) = fs_view rdisk (rd @ cdir @ q)"
      "\<And>p. \<not> prefix cdir p \<Longrightarrow> fs_view d1 (dir @ p) = (if prefix p cdir then DirEntry else fs_view d (dir @ p))"
    using local_pair.copy_dir_spec [OF assms(6) old(1) tree(1) nofile fresh fuel] by (metis (no_types, lifting))
  have "fs_view d1 (dir @ sb_root_dir b @ q) = fs_view d (dir @ sb_root_dir b @ q)" for q
  proof -
    have "\<not> prefix cdir (sb_root_dir b @ q)" using apart prefix_same_cases [of cdir "sb_root_dir b @ q" "sb_root_dir b"] by auto
    moreover have "\<not> prefix (sb_root_dir b @ q) cdir" using apart(2) append_prefixD by blast
    ultimately show ?thesis using d1(4) by simp
  qed
  then have ref: "refines sp dir a used (b, d1)" by (rule refines_elsewhere [OF assms(1,2) d1(2)])
  have "fs_view d1 (dir @ cdir) = DirEntry" "sub_view d1 (dir @ cdir) = sub_view rdisk (rd @ cdir)"
    using d1(3) [of "[]"] d1(3) tree(1) by (simp_all add: sub_view_def fun_eq_iff)
  with tree(2) have src: "fs_view d1 (dir @ cdir) = DirEntry" "sp_stored sp (sub_view d1 (dir @ cdir)) = Some m" by simp_all
  have find: "find_checkpoint json n r' b d rdisk = Ok (False, [(cdir, r)])"
    using find_remote [OF assms(2,3)] found by simp
  show ?thesis
    by (rule switch_refines [OF assms(1) ref assms(4) src], rule that)
      (use find d1(1) old(4) st in \<open>auto simp: move_to_checkpoint_def Let_def\<close>)
qed


definition example_remote :: "small_file state_storage" where
  "example_remote = \<lparr>ss_storage = prefixed_storage [], ss_root_dir = [''remote'']\<rparr>"

lemma example_opens:
  obtains b d where "open_new small_rocks ''op'' (pr_new 0 1 1) example_remote (prefixed_storage []) ''u'' (Dir []) = Ok (b, d)"
    and "refines small_spec [] no_snapshots {''u''} (b, d)"
    and "sb_state_id b = ''op''" and "sb_partitions b = pr_new 0 1 1" and "sb_remote_checkpoint_storage b = example_remote"
    and "sb_root_dir b = create_root_directory_path ''op'' (pr_new 0 1 1)" and "sb_background_sync_channel b = []"
    and "\<And>q. fs_view d (''remote'' # q) = NoEntry"
proof -
  have free: "fs_view (Dir [] :: small_file node) ([] @ create_root_directory_path ''op'' (pr_new 0 1 1) @ q) = NoEntry" for q
    by (simp add: create_root_directory_path_def)
  have "disk_ok [] (Dir [] :: small_file node)" "fs_view (Dir [] :: small_file node) ([] @ [''op'']) \<in> {NoEntry, DirEntry}"
    by (simp_all add: disk_ok_def)
  from open_new_refines [OF small_rocks_ok this(1) free this(2), of example_remote "''u''"] obtain s where s:
    "open_new small_rocks ''op'' (pr_new 0 1 1) example_remote (prefixed_storage []) ''u'' (Dir []) = Ok s"
    "refines small_spec [] no_snapshots {''u''} s"
    "sb_state_id (fst s) = ''op''" "sb_partitions (fst s) = pr_new 0 1 1" "sb_remote_checkpoint_storage (fst s) = example_remote"
    "sb_root_dir (fst s) = create_root_directory_path ''op'' (pr_new 0 1 1)" "sb_background_sync_channel (fst s) = []"
    and out: "\<And>q. \<not> prefix (create_root_directory_path ''op'' (pr_new 0 1 1)) q \<Longrightarrow>
      fs_view (snd s) ([] @ q) = (if prefix q (create_root_directory_path ''op'' (pr_new 0 1 1)) then DirEntry
        else fs_view (Dir []) ([] @ q))" by blast
  have "fs_view (snd s) (''remote'' # q) = NoEntry" for q
    using out [of "''remote'' # q"] by (simp add: create_root_directory_path_def)
  with s that [of "fst s" "snd s"] show ?thesis by simp
qed


text \<open>
  C36: a checkpoint in several parts cannot be restored.  The code creates a directory at the
  path of the SST file before it opens the SST writer there; since a file cannot be written
  where a directory is, the writer fails to open, and moving to a checkpoint that is found in
  two or more parts never succeeds.
\<close>

theorem move_to_several_parts_fails:
  assumes "\<And>p d. fs_view d p = DirEntry \<Longrightarrow> rk_sst_open rk p d = None"
    and "find_checkpoint json n r b disk rdisk = Ok (is_local, checkpoints)" and "2 \<le> length checkpoints"
  shows "move_to_checkpoint rk json fuel uuid sst_dir n r rdisk (b, disk) \<noteq> Some (Ok s)"
proof -
  have "\<not> is_ok (export_checkpoint rk fs sst_dir acc cp)" for fs acc cp
  proof (cases "mkdir_node (sst_dir @ fst cp) (snd acc)")
    case (Some d1)
    then have "fs_view d1 (sst_dir @ fst cp) = DirEntry" using mkdir_node_view by fastforce
    with assms(1) Some show ?thesis by (simp add: export_checkpoint_def Let_def)
  qed (simp add: export_checkpoint_def Let_def)
  then have export: "\<exists>e. export_checkpoint rk fs sst_dir acc cp = Err e" for fs acc cp
    by (metis is_ok.elims(3))
  obtain cp cps where cps: "checkpoints = cp # cps" using assms(3) by (cases checkpoints) auto
  have merge: "\<exists>e. merge_checkpoints rk fs sst_dir checkpoints wd d = Err e" for fs wd d
    using export [of fs "([], d)" cp] by (auto simp: merge_checkpoints_def cps)
  have run: "bind_run m (\<lambda>x. Some (f x)) \<noteq> Some (Ok y)" if "\<And>x. \<exists>e. f x = Err e" for m f y
  proof (cases m)
    case (Some res)
    with that show ?thesis by (cases res) (auto, metis result.distinct(1))
  qed simp
  have "length checkpoints \<noteq> 1" using assms(3) by simp
  then have body: "\<exists>e. bind_result (if length checkpoints = 1 then g d else merge_checkpoints rk fs sst_dir checkpoints wd d) h = Err e"
    for g fs wd h d
    using merge [of fs wd d] by auto
  show ?thesis
    unfolding move_to_checkpoint_def prod.case Let_def assms(2) result.case by (rule run) (rule body)
qed

definition two_part_index :: latest_checkpoints where
  "two_part_index = \<lparr>completed_checkpoints = [\<lparr>ce_id = ''3'', ce_partitions =
     [\<lparr>pi_partition_range = pr_new 0 1 2, pi_timestamp = 0, pi_checkpoint_dir = [''a'']\<rparr>,
      \<lparr>pi_partition_range = pr_new 1 2 2, pi_timestamp = 0, pi_checkpoint_dir = [''b'']\<rparr>]\<rparr>]\<rparr>"

definition two_part_backend :: "(small_file, path \<times> pairs) state_backend" where
  "two_part_backend = \<lparr>sb_state_id = ''op'', sb_root_dir = [], sb_partitions = pr_new 0 2 2,
     sb_remote_checkpoint_storage = example_remote, sb_local_file_system = prefixed_storage [],
     sb_working_dir = [''working'', ''u''], sb_open_db = ([''working'', ''u''], []), sb_background_sync_channel = []\<rparr>"

lemma show_3: "show_usize 3 = ''3''"
  by code_simp

theorem move_to_several_parts_fails_witness:
  "\<nexists>s. move_to_checkpoint small_rocks small_json 9 ''w'' [''tmp''] 3 (pr_new 0 2 2)
     (Dir [(''remote'', Dir [(''operators'', Dir [(''op'', Dir [(''latest.json'', File (Index two_part_index))])])])])
     (two_part_backend, Dir [(''checkpoint'', Dir []), (''working'', Dir [(''u'', Dir [])])]) = Some (Ok s)"
proof (intro notI, elim exE notE [rotated], rule move_to_several_parts_fails)
  show "rk_sst_open small_rocks p d = None" if "fs_view d p = DirEntry" for p d
    using that by (simp add: small_rocks_def)
  show "find_checkpoint small_json 3 (pr_new 0 2 2) two_part_backend
      (Dir [(''checkpoint'', Dir []), (''working'', Dir [(''u'', Dir [])])])
      (Dir [(''remote'', Dir [(''operators'', Dir [(''op'', Dir [(''latest.json'', File (Index two_part_index))])])])]) =
    Ok (False, [([''a''], pr_new 0 1 2), ([''b''], pr_new 1 2 2)])"
    by (simp add: find_checkpoint_def two_part_backend_def base_checkpoint_directory_path_def prefixed_storage_def
        prefixed_list_files_def get_operator_checkpoints_def read_latest_json_def example_remote_def
        get_latest_json_path_def prefixed_read_file_def small_json_def two_part_index_def entry_parts_def search_eval
        show_3 Let_def)
qed simp

end
