(* ===== verification/Barrier.thy ===== *)
theory Barrier
  imports Prelude
begin

text \<open>
  \<open>src/streaming/operators/remote_source/barrier_with_result.rs\<close>: a barrier whose last
  arriving participant runs the computation of the first one and sends the result to all.

  Each operation runs under the lock of the inner state and is one definition.  The computation
  is a function on a state \<open>'s\<close> it may change.  The oneshot channels of the rounds are the
  heap \<open>bq_channels\<close>, with the number of receivers that are still held.  The theorem
  describes a whole round: what every participant gets, and in which state the barrier starts
  the next round.
\<close>

datatype slot = SenderSlot nat | ReceiverSlot nat

record 't oneshot =
  os_value :: "('t + string) option"
  os_receivers :: nat

record ('s, 't) inner_queue =
  bq_count :: usize
  bq_computation_function :: "('s \<Rightarrow> 't result \<times> 's) option"
  bq_synchronisation_queue :: "slot list option"
  bq_channels :: "'t oneshot list"

text \<open>\<open>Immediate\<close> is a result the caller has, \<open>Wait\<close> the receiver it waits on.\<close>

datatype 't ticket = Immediate "'t result" | Wait nat

definition create_state_queue :: "usize \<Rightarrow> 't oneshot list \<Rightarrow> slot list option \<times> 't oneshot list" where
  "create_state_queue n channels =
     (if n \<le> 1 then (None, channels)
      else (Some (SenderSlot (length channels) # replicate (n - 1) (ReceiverSlot (length channels))),
            channels @ [\<lparr>os_value = None, os_receivers = n - 1\<rparr>]))"

definition inner_queue_new :: "usize \<Rightarrow> ('s, 't) inner_queue" where
  "inner_queue_new n =
     (case create_state_queue n [] of (queue, channels) \<Rightarrow>
        \<lparr>bq_count = n, bq_computation_function = None, bq_synchronisation_queue = queue, bq_channels = channels\<rparr>)"

definition no_result :: "'t result" where
  "no_result = Err (Internal ''All users of the barrier have finished, there is no result to share'')"

definition run_computation ::
  "('s, 't) inner_queue \<Rightarrow> 's \<Rightarrow> 't result \<times> ('s, 't) inner_queue \<times> 's" where
  "run_computation b s =
     (case bq_computation_function b of
        Some f \<Rightarrow> (case f s of (res, s') \<Rightarrow> (res, b\<lparr>bq_computation_function := None\<rparr>, s'))
      | None \<Rightarrow> (no_result, b, s))"

definition sendable_result :: "(df_error \<Rightarrow> string) \<Rightarrow> 't result \<Rightarrow> 't + string" where
  "sendable_result show_error res =
     (case res of Ok x \<Rightarrow> Inl x | Err e \<Rightarrow> Inr (''Error computing result: '' @ show_error e))"

definition pop_queue_inner ::
  "(df_error \<Rightarrow> string) \<Rightarrow> ('s, 't) inner_queue \<Rightarrow> 's \<Rightarrow> ('t ticket result) \<times> ('s, 't) inner_queue \<times> 's" where
  "pop_queue_inner show_error b s =
     (case bq_synchronisation_queue b of
        None \<Rightarrow> (case run_computation b s of (res, b', s') \<Rightarrow> (Ok (Immediate res), b', s'))
      | Some [] \<Rightarrow> (Err (Panic ''Barrier ran out of states''), b, s)
      | Some queue \<Rightarrow>
          (case last queue of
             ReceiverSlot ch \<Rightarrow> (Ok (Wait ch), b\<lparr>bq_synchronisation_queue := Some (butlast queue)\<rparr>, s)
           | SenderSlot ch \<Rightarrow>
               (case run_computation b s of (res, b1, s') \<Rightarrow>
                case create_state_queue (bq_count b1) (bq_channels b1) of (queue', channels) \<Rightarrow>
                let b2 = b1\<lparr>bq_synchronisation_queue := queue', bq_channels := channels\<rparr>
                in if os_receivers (channels ! ch) = 0
                   then (Ok (Immediate (Err (Internal ''Barrier receiver was dropped before the result was sent.''))), b2, s')
                   else (Ok (Immediate res),
                         b2\<lparr>bq_channels := channels[ch := (channels ! ch)\<lparr>os_value := Some (sendable_result show_error res)\<rparr>]\<rparr>,
                         s'))))"

text \<open>\<open>InnerQueueState::compute_result\<close>: the first function of a round is kept.\<close>

definition queue_compute_result ::
  "(df_error \<Rightarrow> string) \<Rightarrow> ('s \<Rightarrow> 't result \<times> 's) \<Rightarrow> ('s, 't) inner_queue \<Rightarrow> 's
     \<Rightarrow> ('t ticket result) \<times> ('s, 't) inner_queue \<times> 's" where
  "queue_compute_result show_error f b s =
     pop_queue_inner show_error
       (b\<lparr>bq_computation_function := Some (case bq_computation_function b of Some g \<Rightarrow> g | None \<Rightarrow> f)\<rparr>) s"

definition drop_receiver :: "nat \<Rightarrow> ('s, 't) inner_queue \<Rightarrow> ('s, 't) inner_queue" where
  "drop_receiver ch b =
     b\<lparr>bq_channels := (bq_channels b)[ch := (bq_channels b ! ch)\<lparr>os_receivers := os_receivers (bq_channels b ! ch) - 1\<rparr>]\<rparr>"

definition queue_remove_participant ::
  "(df_error \<Rightarrow> string) \<Rightarrow> ('s, 't) inner_queue \<Rightarrow> 's \<Rightarrow> unit result \<times> ('s, 't) inner_queue \<times> 's" where
  "queue_remove_participant show_error b s =
     (case pop_queue_inner show_error (b\<lparr>bq_count := bq_count b - 1\<rparr>) s of
        (Err e, b', s') \<Rightarrow> (Err e, b', s')
      | (Ok (Immediate res), b', s') \<Rightarrow> (Ok (), b', s')
      | (Ok (Wait ch), b', s') \<Rightarrow> (Ok (), drop_receiver ch b', s'))"

text \<open>
  \<open>BarrierWithResult::compute_result\<close> after the locked section: an immediate result, or
  the value of the channel once it is there.
\<close>

fun barrier_await :: "('s, 't) inner_queue \<Rightarrow> 't ticket \<Rightarrow> ('t result \<times> ('s, 't) inner_queue) option" where
  "barrier_await b (Immediate res) = Some (res, b)"
| "barrier_await b (Wait ch) =
     (case os_value (bq_channels b ! ch) of
        None \<Rightarrow> None
      | Some (Inl x) \<Rightarrow> Some (Ok x, drop_receiver ch b)
      | Some (Inr message) \<Rightarrow> Some (Err (Internal message), drop_receiver ch b))"

subsection \<open>A round\<close>

text \<open>One event per participant of the round: it asks for the result or leaves for good.\<close>

datatype ('s, 't) arrival = Compute "'s \<Rightarrow> 't result \<times> 's" | Leave

fun arrive ::
  "(df_error \<Rightarrow> string) \<Rightarrow> ('s, 't) arrival \<Rightarrow> ('s, 't) inner_queue \<Rightarrow> 's
     \<Rightarrow> 't ticket option result \<times> ('s, 't) inner_queue \<times> 's" where
  "arrive show_error (Compute f) b s =
     (case queue_compute_result show_error f b s of (t, b', s') \<Rightarrow> (map_result Some t, b', s'))"
| "arrive show_error Leave b s =
     (case queue_remove_participant show_error b s of (t, b', s') \<Rightarrow> (map_result (\<lambda>_. None) t, b', s'))"

fun arrive_all ::
  "(df_error \<Rightarrow> string) \<Rightarrow> ('s, 't) arrival list \<Rightarrow> ('s, 't) inner_queue \<Rightarrow> 's
     \<Rightarrow> 't ticket option result list \<times> ('s, 't) inner_queue \<times> 's" where
  "arrive_all show_error [] b s = ([], b, s)"
| "arrive_all show_error (x # xs) b s =
     (case arrive show_error x b s of (t, b', s') \<Rightarrow>
      case arrive_all show_error xs b' s' of (ts, b'', s'') \<Rightarrow> (t # ts, b'', s''))"

definition leavers :: "('s, 't) arrival list \<Rightarrow> nat" where
  "leavers xs = length (filter (\<lambda>x. case x of Leave \<Rightarrow> True | Compute _ \<Rightarrow> False) xs)"

definition computes :: "('s, 't) arrival list \<Rightarrow> ('s \<Rightarrow> 't result \<times> 's) list" where
  "computes xs = concat (map (\<lambda>x. case x of Compute f \<Rightarrow> [f] | Leave \<Rightarrow> []) xs)"

text \<open>The state between rounds, and the state when \<open>xs\<close> have arrived in a round of \<open>n\<close>.\<close>

definition round_start :: "nat \<Rightarrow> nat \<Rightarrow> ('s, 't) inner_queue \<Rightarrow> bool" where
  "round_start n ch b \<longleftrightarrow> bq_count b = n \<and> bq_computation_function b = None \<and>
     bq_synchronisation_queue b = Some (SenderSlot ch # replicate (n - 1) (ReceiverSlot ch)) \<and>
     ch < length (bq_channels b) \<and> bq_channels b ! ch = \<lparr>os_value = None, os_receivers = n - 1\<rparr>"

definition round_state :: "nat \<Rightarrow> nat \<Rightarrow> ('s, 't) arrival list \<Rightarrow> ('s, 't) inner_queue \<Rightarrow> bool" where
  "round_state n ch xs b \<longleftrightarrow> bq_count b = n - leavers xs \<and>
     bq_computation_function b = (case computes xs of [] \<Rightarrow> None | f # _ \<Rightarrow> Some f) \<and>
     bq_synchronisation_queue b = Some (SenderSlot ch # replicate (n - 1 - length xs) (ReceiverSlot ch)) \<and>
     ch < length (bq_channels b) \<and>
     bq_channels b ! ch = \<lparr>os_value = None, os_receivers = n - 1 - leavers xs\<rparr>"

lemma leavers_simps [simp]:
  "leavers [] = 0" "leavers (xs @ [Compute f]) = leavers xs" "leavers (xs @ [Leave]) = Suc (leavers xs)"
  by (simp_all add: leavers_def)

lemma computes_simps [simp]:
  "computes [] = []" "computes (xs @ [Compute f]) = computes xs @ [f]" "computes (xs @ [Leave]) = computes xs"
  by (simp_all add: computes_def)

lemma leavers_le: "leavers xs \<le> length xs"
  by (simp add: leavers_def)

lemma leavers_computes: "leavers xs + length (computes xs) = length xs"
  by (induction xs rule: rev_induct) (auto simp: leavers_def computes_def split: arrival.splits)

text \<open>Every arrival before the last waits or leaves.\<close>

lemma arrive_early:
  assumes "round_state n ch xs b" and "Suc (length xs) < n"
  obtains b' where "arrive show_error x b s = (Ok (case x of Compute _ \<Rightarrow> Some (Wait ch) | Leave \<Rightarrow> None), b', s)"
    and "round_state n ch (xs @ [x]) b'"
proof -
  obtain k where k: "n - 1 - length xs = Suc k" using assms(2) by (cases "n - 1 - length xs") auto
  have rep: "replicate (Suc k) (ReceiverSlot ch) = replicate k (ReceiverSlot ch) @ [ReceiverSlot ch]"
    by (simp add: replicate_append_same)
  have last: "last (SenderSlot ch # replicate (Suc k) (ReceiverSlot ch)) = ReceiverSlot ch"
    and butlast: "butlast (SenderSlot ch # replicate (Suc k) (ReceiverSlot ch)) = SenderSlot ch # replicate k (ReceiverSlot ch)"
    unfolding rep by simp_all
  have k': "n - 1 - length (xs @ [x]) = k" using k by simp
  show ?thesis
  proof (cases x)
    case (Compute f)
    let ?b = "b\<lparr>bq_computation_function := Some (case bq_computation_function b of Some g \<Rightarrow> g | None \<Rightarrow> f),
        bq_synchronisation_queue := Some (SenderSlot ch # replicate k (ReceiverSlot ch))\<rparr>"
    have "arrive show_error x b s = (Ok (Some (Wait ch)), ?b, s)"
      using assms(1) k last butlast Compute
      by (simp add: round_state_def queue_compute_result_def pop_queue_inner_def del: replicate_Suc last.simps butlast.simps)
    moreover have "round_state n ch (xs @ [x]) ?b"
      using assms(1) k' Compute by (simp add: round_state_def split: list.splits)
    ultimately show ?thesis using that Compute by simp
  next
    case Leave
    let ?b = "drop_receiver ch (b\<lparr>bq_count := bq_count b - 1,
        bq_synchronisation_queue := Some (SenderSlot ch # replicate k (ReceiverSlot ch))\<rparr>)"
    have "arrive show_error x b s = (Ok None, ?b, s)"
      using assms(1) k last butlast Leave
      by (simp add: round_state_def queue_remove_participant_def pop_queue_inner_def del: replicate_Suc last.simps butlast.simps)
    moreover have "round_state n ch (xs @ [x]) ?b"
      using assms(1) k' Leave by (simp add: round_state_def drop_receiver_def)
    ultimately show ?thesis using that Leave by simp
  qed
qed

lemma arrive_all_early:
  assumes "round_state n ch [] b" and "length xs < n"
  obtains b' where
    "arrive_all show_error xs b s = (map (\<lambda>x. Ok (case x of Compute _ \<Rightarrow> Some (Wait ch) | Leave \<Rightarrow> None)) xs, b', s)"
    and "round_state n ch xs b'"
proof -
  have "\<exists>b'. arrive_all show_error ys b s = (map (\<lambda>x. Ok (case x of Compute _ \<Rightarrow> Some (Wait ch) | Leave \<Rightarrow> None)) ys, b', s) \<and>
      round_state n ch (zs @ ys) b'" if "round_state n ch zs b" "length (zs @ ys) < n" for zs ys b
    using that
  proof (induction ys arbitrary: zs b)
    case (Cons y ys)
    then have "Suc (length zs) < n" by simp
    from arrive_early [OF Cons.prems(1) this] obtain b1 where
      b1: "arrive show_error y b s = (Ok (case y of Compute _ \<Rightarrow> Some (Wait ch) | Leave \<Rightarrow> None), b1, s)"
      "round_state n ch (zs @ [y]) b1" by metis
    from Cons.IH [OF b1(2)] Cons.prems(2) obtain b2 where
      "arrive_all show_error ys b1 s = (map (\<lambda>x. Ok (case x of Compute _ \<Rightarrow> Some (Wait ch) | Leave \<Rightarrow> None)) ys, b2, s)"
      "round_state n ch ((zs @ [y]) @ ys) b2" by auto
    with b1(1) show ?case by simp
  qed auto
  from this [OF assms(1), of xs] assms(2) that show ?thesis by auto
qed

lemma arrive_all_append:
  "arrive_all show_error (xs @ ys) b s =
     (case arrive_all show_error xs b s of (ts, b', s') \<Rightarrow>
      case arrive_all show_error ys b' s' of (us, b'', s'') \<Rightarrow> (ts @ us, b'', s''))"
  by (induction xs arbitrary: b s) (auto split: prod.splits)

text \<open>The next round starts with those who stayed.\<close>

definition next_round :: "nat \<Rightarrow> ('s, 't) inner_queue \<Rightarrow> bool" where
  "next_round n b \<longleftrightarrow> bq_count b = n \<and> bq_computation_function b = None \<and>
     (if n \<le> 1 then bq_synchronisation_queue b = None else \<exists>ch. round_start n ch b)"

lemma next_round_new: "next_round n (inner_queue_new n)"
  by (auto simp: next_round_def inner_queue_new_def create_state_queue_def round_start_def)

definition awaited :: "(df_error \<Rightarrow> string) \<Rightarrow> 't result \<Rightarrow> 't result" where
  "awaited show_error res =
     (case res of Ok x \<Rightarrow> Ok x | Err e \<Rightarrow> Err (Internal (''Error computing result: '' @ show_error e)))"

lemma arrive_last:
  assumes "round_state n ch xs b" and "Suc (length xs) = n" and "2 \<le> n" and f: "computes (xs @ [x]) = f # fs"
    and "f s = (res, s')"
  obtains b' where "arrive show_error x b s =
      (Ok (case x of Leave \<Rightarrow> None
           | Compute _ \<Rightarrow> Some (Immediate (if computes xs = []
               then Err (Internal ''Barrier receiver was dropped before the result was sent.'') else res))), b', s')"
    and "next_round (n - leavers (xs @ [x])) b'"
    and "computes xs \<noteq> [] \<Longrightarrow> map_option fst (barrier_await b' (Wait ch)) = Some (awaited show_error res)"
proof -
  have zero: "n - Suc (leavers xs) = 0 \<longleftrightarrow> computes xs = []"
    using leavers_computes [of xs] assms(2) by (cases "computes xs") auto
  have fn: "(case case computes xs of [] \<Rightarrow> None | f # _ \<Rightarrow> Some f of None \<Rightarrow> g | Some h \<Rightarrow> h) = f" if "x = Compute g" for g
    using f that by (auto split: list.splits)
  have fn': "(case computes xs of [] \<Rightarrow> None | f # _ \<Rightarrow> Some f) = Some f" if "x = Leave"
    using f that by (auto split: list.splits)
  have len: "n - Suc (length xs) = 0" using assms(2) by simp
  obtain t b' s'' where arr: "arrive show_error x b s = (t, b', s'')" by (metis prod_cases3)
  show ?thesis
  proof (rule that)
    show "arrive show_error x b s =
      (Ok (case x of Leave \<Rightarrow> None
           | Compute _ \<Rightarrow> Some (Immediate (if computes xs = []
               then Err (Internal ''Barrier receiver was dropped before the result was sent.'') else res))), b', s')"
      using arr assms(1,5) len zero fn fn'
      by (cases x) (auto simp: round_state_def queue_compute_result_def queue_remove_participant_def pop_queue_inner_def
          run_computation_def create_state_queue_def nth_append Let_def split: if_splits)
  next
    show "next_round (n - leavers (xs @ [x])) b'"
      using arr assms(1,5) len zero fn fn'
      by (cases x) (auto simp: round_state_def queue_compute_result_def queue_remove_participant_def pop_queue_inner_def
          run_computation_def create_state_queue_def nth_append nth_list_update next_round_def round_start_def Let_def split: if_splits)
  next
    show "map_option fst (barrier_await b' (Wait ch)) = Some (awaited show_error res)" if "computes xs \<noteq> []"
      using arr assms(1,5) len zero fn fn' that
      by (cases x; cases res) (auto simp: round_state_def queue_compute_result_def queue_remove_participant_def pop_queue_inner_def
          run_computation_def create_state_queue_def nth_append nth_list_update awaited_def sendable_result_def Let_def split: if_splits)
  qed
qed

lemma round_state_start: "round_start n ch b \<Longrightarrow> round_state n ch [] b"
  by (simp add: round_start_def round_state_def)

lemma round_result:
  assumes "next_round n b" and "2 \<le> n" and "length xs = n" and "computes xs = f # fs" and "f s = (res, s')"
  obtains ch b' where "arrive_all show_error xs b s =
      (map (\<lambda>x. Ok (case x of Compute _ \<Rightarrow> Some (Wait ch) | Leave \<Rightarrow> None)) (butlast xs) @
       [Ok (case last xs of Leave \<Rightarrow> None
            | Compute _ \<Rightarrow> Some (Immediate (if computes (butlast xs) = []
                then Err (Internal ''Barrier receiver was dropped before the result was sent.'') else res)))], b', s')"
    and "next_round (n - leavers xs) b'"
    and "computes (butlast xs) \<noteq> [] \<Longrightarrow> map_option fst (barrier_await b' (Wait ch)) = Some (awaited show_error res)"
proof -
  have "xs \<noteq> []" using assms(2,3) by auto
  then have xs: "xs = butlast xs @ [last xs]" by simp
  obtain ch where ch: "round_start n ch b" using assms(1,2) by (auto simp: next_round_def split: if_splits)
  have len: "length (butlast xs) < n" "Suc (length (butlast xs)) = n" using assms(2,3) by auto
  obtain b1 where b1: "arrive_all show_error (butlast xs) b s =
      (map (\<lambda>x. Ok (case x of Compute _ \<Rightarrow> Some (Wait ch) | Leave \<Rightarrow> None)) (butlast xs), b1, s)"
      "round_state n ch (butlast xs) b1"
    by (rule arrive_all_early [OF round_state_start [OF ch] len(1)])
  have f: "computes (butlast xs @ [last xs]) = f # fs" using assms(4) xs by simp
  obtain b2 where b2: "arrive show_error (last xs) b1 s =
      (Ok (case last xs of Leave \<Rightarrow> None
           | Compute _ \<Rightarrow> Some (Immediate (if computes (butlast xs) = []
               then Err (Internal ''Barrier receiver was dropped before the result was sent.'') else res))), b2, s')"
      "next_round (n - leavers (butlast xs @ [last xs])) b2"
      "computes (butlast xs) \<noteq> [] \<Longrightarrow> map_option fst (barrier_await b2 (Wait ch)) = Some (awaited show_error res)"
    by (rule arrive_last [OF b1(2) len(2) assms(2) f assms(5)]) blast
  have "arrive_all show_error xs b s = arrive_all show_error (butlast xs @ [last xs]) b s" using xs by simp
  with b1(1) b2(1) have "arrive_all show_error xs b s =
      (map (\<lambda>x. Ok (case x of Compute _ \<Rightarrow> Some (Wait ch) | Leave \<Rightarrow> None)) (butlast xs) @
       [Ok (case last xs of Leave \<Rightarrow> None
            | Compute _ \<Rightarrow> Some (Immediate (if computes (butlast xs) = []
                then Err (Internal ''Barrier receiver was dropped before the result was sent.'') else res)))], b2, s')"
    by (simp add: arrive_all_append)
  moreover have "next_round (n - leavers xs) b2" using b2(2) xs by simp
  ultimately show ?thesis using b2(3) by (rule that)
qed

text \<open>
  C12: a round of the barrier.  When all participants of a round have arrived, in any order,
  each asking for the result or leaving, and some participant other than the last is waiting,
  then the function of the first is run exactly once, the last participant gets its result,
  everyone who waits receives the same value (an error as a message), and the barrier is ready
  for a round of those who stayed.
\<close>

theorem barrier_round:
  assumes "next_round n b" and "2 \<le> n" and "length xs = n" and "computes xs = f # fs" and "f s = (res, s')"
    and "computes (butlast xs) \<noteq> []"
  shows "\<exists>ch b'. arrive_all show_error xs b s =
      (map (\<lambda>x. Ok (case x of Compute _ \<Rightarrow> Some (Wait ch) | Leave \<Rightarrow> None)) (butlast xs) @
       [Ok (case last xs of Leave \<Rightarrow> None | Compute _ \<Rightarrow> Some (Immediate res))], b', s') \<and>
    map_option fst (barrier_await b' (Wait ch)) = Some (awaited show_error res) \<and>
    next_round (n - leavers xs) b'"
proof (rule round_result [OF assms(1-5), of show_error])
  fix ch b'
  assume "arrive_all show_error xs b s =
      (map (\<lambda>x. Ok (case x of Compute _ \<Rightarrow> Some (Wait ch) | Leave \<Rightarrow> None)) (butlast xs) @
       [Ok (case last xs of Leave \<Rightarrow> None
            | Compute _ \<Rightarrow> Some (Immediate (if computes (butlast xs) = []
                then Err (Internal ''Barrier receiver was dropped before the result was sent.'') else res)))], b', s')"
    "next_round (n - leavers xs) b'"
    "computes (butlast xs) \<noteq> [] \<Longrightarrow> map_option fst (barrier_await b' (Wait ch)) = Some (awaited show_error res)"
  with assms(6) show ?thesis by (intro exI [of _ ch] exI [of _ b']) (simp del: barrier_await.simps)
qed

theorem barrier_round_witness:
  "\<exists>ch b'. arrive_all (\<lambda>_. []) [Compute (\<lambda>s. (Ok (s :: nat), s + 1)), Leave, Compute (\<lambda>s. (Ok 7, s))] (inner_queue_new 3) (5 :: nat) =
      ([Ok (Some (Wait ch)), Ok None, Ok (Some (Immediate (Ok 5)))], b', 6) \<and>
    map_option fst (barrier_await b' (Wait ch)) = Some (Ok 5) \<and> next_round 2 b'"
  using barrier_round [OF next_round_new, of 3 "[Compute (\<lambda>s. (Ok (s :: nat), s + 1)), Leave, Compute (\<lambda>s. (Ok 7, s))]"
      "\<lambda>s. (Ok s, s + 1)" "[\<lambda>s. (Ok 7, s)]" 5 "Ok 5" 6 "\<lambda>_. []"]
  by (simp add: computes_def leavers_def awaited_def del: barrier_await.simps)

text \<open>
  The last participant fails when all others have finished.  With two or more participants,
  all of which but one leave before it asks, the one that is left computes its result and then
  gets an error, because nobody holds a receiver.
\<close>

theorem barrier_error_when_others_left:
  assumes "2 \<le> n" and "f s = (Ok x, s')"
  shows "\<exists>ts b'. arrive_all show_error (replicate (n - 1) Leave @ [Compute f]) (inner_queue_new n) s =
    (ts @ [Ok (Some (Immediate (Err (Internal ''Barrier receiver was dropped before the result was sent.''))))], b', s')"
proof -
  have none: "computes (replicate k Leave) = []" for k by (simp add: computes_def)
  then have c: "computes (replicate (n - 1) Leave @ [Compute f]) = f # []" by simp
  have l: "length (replicate (n - 1) Leave @ [Compute f]) = n" using assms(1) by simp
  show ?thesis
  proof (rule round_result [OF next_round_new assms(1) l c, where s = s and show_error = show_error])
    show "f s = (Ok x, s')" by (rule assms(2))
  qed (use none in auto)
qed

end
