(* ===== verification/Remote_Source.thy ===== *)
theory Remote_Source
  imports Barrier Generation Exchange
begin

text \<open>
  \<open>src/streaming/operators/remote_source\<close>: the operator that reads the outputs of other
  tasks.  \<open>pull\<close> resolves the addresses of the current generation and opens one fibre per
  address; at every marker the fibres meet at the barrier and decide together whether to go on
  (\<open>shared_fibre_state.rs\<close>, \<open>fibres.rs\<close>, \<open>remote_source.rs\<close>).

  What the fibres share is split into the barrier and the record \<open>fiber_globals\<close>, which the
  computation of the barrier updates.  A fibre is the list of its remaining instructions.  The
  theorems show that fibres that meet at a marker get one decision, which is to continue exactly
  when generation and addresses are unchanged, and that the instructions put into a stream
  leave its items as they are.
\<close>

subsection \<open>The shared state\<close>

datatype fiber_state = Continue | Pause

record shared_fiber_state =
  sf_stream_ids :: "string list"
  sf_current_generation_id :: string
  sf_current_partitions :: partition_range
  sf_current_addresses :: "stream_address list"

record fiber_globals =
  fg_scheduling_details :: scheduling_details
  fg_last_completed_marker :: usize
  fg_currently_waiting_on_marker :: "usize option"

type_synonym trigger = "(fiber_globals, fiber_state) inner_queue"

text \<open>\<open>SharedFiberState::new\<close> makes a barrier with one participant per address.\<close>

definition shared_fiber_state_new ::
  "scheduling_details \<Rightarrow> usize \<Rightarrow> string list \<Rightarrow> string \<Rightarrow> partition_range \<Rightarrow> stream_address list
     \<Rightarrow> shared_fiber_state \<times> trigger \<times> fiber_globals" where
  "shared_fiber_state_new details last_completed_marker stream_ids generation_id partitions addresses =
     (\<lparr>sf_stream_ids = stream_ids, sf_current_generation_id = generation_id,
       sf_current_partitions = partitions, sf_current_addresses = addresses\<rparr>,
      inner_queue_new (length addresses),
      \<lparr>fg_scheduling_details = details, fg_last_completed_marker = last_completed_marker,
       fg_currently_waiting_on_marker = None\<rparr>)"

definition check_generation_and_addresses ::
  "scheduling_details \<Rightarrow> string list \<Rightarrow> string \<Rightarrow> stream_address list \<Rightarrow> usize \<Rightarrow> fiber_state result" where
  "check_generation_and_addresses details stream_ids current_generation_id current_addresses marker =
     bind_result (ok_or (fst details) (Internal ''No initial generations were provided'')) (\<lambda>generations.
     bind_result (ok_or (snd details) (Internal ''No initial input_details were provided'')) (\<lambda>input_details.
     bind_result (find_current_generation stream_ids generations marker) (\<lambda>current_generation.
     if gs_id current_generation \<noteq> current_generation_id then Ok Pause
     else bind_result (get_addresses (gs_partitions current_generation) marker stream_ids input_details)
            (\<lambda>new_addresses. if set new_addresses \<noteq> set current_addresses then Ok Pause else Ok Continue))))"

text \<open>The closure given to the barrier.\<close>

definition marker_computation ::
  "shared_fiber_state \<Rightarrow> usize \<Rightarrow> fiber_globals \<Rightarrow> fiber_state result \<times> fiber_globals" where
  "marker_computation sf marker g =
     (let g' = g\<lparr>fg_last_completed_marker := marker, fg_currently_waiting_on_marker := None\<rparr>
      in (check_generation_and_addresses (fg_scheduling_details g') (sf_stream_ids sf)
            (sf_current_generation_id sf) (sf_current_addresses sf) marker, g'))"

definition poll_fiber_state ::
  "(df_error \<Rightarrow> string) \<Rightarrow> shared_fiber_state \<Rightarrow> usize \<Rightarrow> trigger \<Rightarrow> fiber_globals
     \<Rightarrow> fiber_state ticket result \<times> trigger \<times> fiber_globals" where
  "poll_fiber_state show_error sf marker b g =
     (case fg_currently_waiting_on_marker g of
        None \<Rightarrow> queue_compute_result show_error (marker_computation sf marker) b
                 (g\<lparr>fg_currently_waiting_on_marker := Some marker\<rparr>)
      | Some existing \<Rightarrow>
          if existing \<noteq> marker then (Err (Internal ''Already waiting on a different marker''), b, g)
          else queue_compute_result show_error (marker_computation sf marker) b g)"

definition report_finished ::
  "(df_error \<Rightarrow> string) \<Rightarrow> trigger \<Rightarrow> fiber_globals \<Rightarrow> unit result \<times> trigger \<times> fiber_globals" where
  "report_finished show_error b g = queue_remove_participant show_error b g"

subsection \<open>Fibres\<close>

record 'b running_fiber =
  rf_stream_id :: string
  rf_address :: string
  rf_current_partitions :: partition_range
  rf_remote_stream :: "'b sitem result list option"

definition fiber_new :: "string \<Rightarrow> string \<Rightarrow> partition_range \<Rightarrow> 'b running_fiber" where
  "fiber_new stream_id address r =
     \<lparr>rf_stream_id = stream_id, rf_address = address, rf_current_partitions = r, rf_remote_stream = None\<rparr>"

definition fiber_load :: "partition_range \<Rightarrow> 'b running_fiber \<Rightarrow> 'b running_fiber" where
  "fiber_load partitions f =
     (if rf_current_partitions f \<noteq> partitions
      then f\<lparr>rf_remote_stream := None, rf_current_partitions := partitions\<rparr> else f)"

datatype 'b check = CheckItem "'b sitem result" | Check marker | Finished

definition insert_instruction :: "'b sitem result \<Rightarrow> 'b check list" where
  "insert_instruction item =
     (case item of
        Ok (SMarker marker) \<Rightarrow> [CheckItem (Ok (SMarker marker)), Check marker]
      | _ \<Rightarrow> [CheckItem item])"

definition insert_stream_instructions :: "'b sitem result list \<Rightarrow> 'b check list" where
  "insert_stream_instructions items = concat (map insert_instruction items) @ [Finished]"

definition strip_stream_instructions :: "'b check list \<Rightarrow> 'b sitem result list" where
  "strip_stream_instructions xs = concat (map (\<lambda>x. case x of CheckItem item \<Rightarrow> [item] | _ \<Rightarrow> []) xs)"

text \<open>
  The stream of a fibre after \<open>try_take_while\<close> and \<open>strip_stream_instructions\<close>, one
  instruction at a time: it emits an item, waits at a check, or stops.
\<close>

datatype 'b fiber_run =
    Running "'b check list"
  | Waiting "fiber_state ticket" "'b check list"
  | Stopped

fun fiber_next ::
  "(df_error \<Rightarrow> string) \<Rightarrow> shared_fiber_state \<Rightarrow> 'b fiber_run \<Rightarrow> trigger \<Rightarrow> fiber_globals
     \<Rightarrow> ('b sitem result option \<times> 'b fiber_run \<times> trigger \<times> fiber_globals)" where
  "fiber_next show_error sf Stopped b g = (None, Stopped, b, g)"
| "fiber_next show_error sf (Running []) b g = (None, Stopped, b, g)"
| "fiber_next show_error sf (Running (CheckItem item # rest)) b g = (Some item, Running rest, b, g)"
| "fiber_next show_error sf (Running (Check marker # rest)) b g =
     (case poll_fiber_state show_error sf (checkpoint_number marker) b g of
        (Ok ticket, b', g') \<Rightarrow> (None, Waiting ticket rest, b', g')
      | (Err e, b', g') \<Rightarrow> (Some (Err e), Stopped, b', g'))"
| "fiber_next show_error sf (Running (Finished # rest)) b g =
     (case report_finished show_error b g of (_, b', g') \<Rightarrow> (None, Stopped, b', g'))"
| "fiber_next show_error sf (Waiting ticket rest) b g =
     (case barrier_await b ticket of
        None \<Rightarrow> (None, Waiting ticket rest, b, g)
      | Some (Ok Continue, b') \<Rightarrow> (None, Running rest, b', g)
      | Some (Ok Pause, b') \<Rightarrow> (None, Stopped, b', g)
      | Some (Err e, b') \<Rightarrow> (Some (Err e), Stopped, b', g))"

text \<open>
  \<open>RunningFiber::run\<close>: the remote stream is created with retries unless there is one, and
  wrapped.  \<open>connect\<close> gives the outcome of each attempt of \<open>create_remote_stream\<close>.
\<close>

definition fiber_run ::
  "(string \<Rightarrow> string \<Rightarrow> partition_range \<Rightarrow> nat \<Rightarrow> 'b sitem result list result) \<Rightarrow> 'b running_fiber
     \<Rightarrow> ('b fiber_run \<times> 'b running_fiber) result" where
  "fiber_run connect f =
     bind_result
       (case rf_remote_stream f of
          None \<Rightarrow> fst (retry_future 10 (connect (rf_stream_id f) (rf_address f) (rf_current_partitions f)) 0)
        | Some stream \<Rightarrow> Ok stream)
       (\<lambda>stream. Ok (Running (insert_stream_instructions stream), f\<lparr>rf_remote_stream := Some stream\<rparr>))"

subsection \<open>The running stream\<close>

type_synonym 'b fiber_map = "string \<times> string \<Rightarrow> 'b running_fiber option"

fun intersect_addresses_and_fibers ::
  "stream_address list \<Rightarrow> 'b fiber_map
     \<Rightarrow> (string \<times> 'b running_fiber \<times> partition_range) list \<times> stream_address list" where
  "intersect_addresses_and_fibers [] fibers = ([], [])"
| "intersect_addresses_and_fibers ((stream_id, address, partitions) # addresses) fibers =
     (case fibers (stream_id, address) of
        None \<Rightarrow>
          (case intersect_addresses_and_fibers addresses fibers of (existing, new) \<Rightarrow>
             (existing, (stream_id, address, partitions) # new))
      | Some fiber \<Rightarrow>
          (case intersect_addresses_and_fibers addresses (fibers((stream_id, address) := None)) of (existing, new) \<Rightarrow>
             ((stream_id, fiber, partitions) # existing, new)))"

definition make_fibers_for_all_addresses ::
  "'b fiber_map option \<Rightarrow> stream_address list \<Rightarrow> 'b fiber_map" where
  "make_fibers_for_all_addresses stored addresses =
     (let (existing, new_addresses) =
            (case stored of
               Some fibers \<Rightarrow> intersect_addresses_and_fibers addresses fibers
             | None \<Rightarrow> ([], addresses));
          created = map (\<lambda>(stream_id, address, partitions).
            (stream_id, fiber_new stream_id address partitions, partitions)) new_addresses;
          loaded = map (\<lambda>(stream_id, fiber, partitions). (stream_id, fiber_load partitions fiber)) (existing @ created)
      in fold (\<lambda>(stream_id, fiber) m. m((stream_id, rf_address fiber) \<mapsto> fiber)) loaded Map.empty)"

record 'b running_stream =
  rs_stream_ids :: "string list"
  rs_current_marker :: usize
  rs_existing_fibers :: "'b fiber_map option"
  rs_pull_called :: bool

definition running_stream_new :: "string list \<Rightarrow> usize \<Rightarrow> 'b running_stream" where
  "running_stream_new stream_ids current_marker =
     \<lparr>rs_stream_ids = stream_ids, rs_current_marker = current_marker, rs_existing_fibers = None,
      rs_pull_called = False\<rparr>"

text \<open>
  \<open>pull\<close>: the fibres with what they share, or \<open>None\<close> for the empty answer of a second call.
  The fibres start in the order \<open>keys\<close> in which the hash map yields them.
\<close>

definition pull ::
  "(string \<Rightarrow> string \<Rightarrow> partition_range \<Rightarrow> nat \<Rightarrow> 'b sitem result list result) \<Rightarrow> (string \<times> string) list
     \<Rightarrow> scheduling_details \<Rightarrow> 'b running_stream
     \<Rightarrow> ((shared_fiber_state \<times> trigger \<times> fiber_globals \<times> 'b fiber_run list) option \<times> 'b running_stream) result" where
  "pull connect keys details rs =
     (if rs_pull_called rs then Ok (None, rs)
      else
        bind_result (ok_or (fst details) (Internal ''No initial generations were provided'')) (\<lambda>generations.
        bind_result (ok_or (snd details) (Internal ''No initial input_details were provided'')) (\<lambda>input_details.
        bind_result (find_current_generation (rs_stream_ids rs) generations (rs_current_marker rs)) (\<lambda>generation.
        bind_result (get_addresses (gs_partitions generation) (rs_current_marker rs) (rs_stream_ids rs) input_details)
          (\<lambda>addresses.
             let fibers = make_fibers_for_all_addresses (rs_existing_fibers rs) addresses;
                 (sf, b, g) = shared_fiber_state_new details (rs_current_marker rs) (rs_stream_ids rs)
                   (gs_id generation) (gs_partitions generation) addresses
             in bind_result (collect_results (map (fiber_run connect) (List.map_filter fibers keys))) (\<lambda>runs.
                  Ok (Some (sf, b, g, map fst runs),
                      rs\<lparr>rs_existing_fibers := Some (fibers ++
                           map_of (map (\<lambda>(_, f). ((rf_stream_id f, rf_address f), f)) runs)),
                         rs_pull_called := True\<rparr>)))))))"

subsection \<open>The operator\<close>

record remote_source_function =
  rsf_stream_ids :: "string list"
  rsf_scheduling_details_state :: "scheduling_details option"
  rsf_loaded_checkpoint :: usize

definition remote_source_new :: "string list \<Rightarrow> remote_source_function" where
  "remote_source_new stream_ids =
     \<lparr>rsf_stream_ids = stream_ids, rsf_scheduling_details_state = None, rsf_loaded_checkpoint = 0\<rparr>"

definition remote_source_init :: "scheduling_details \<Rightarrow> remote_source_function \<Rightarrow> remote_source_function result" where
  "remote_source_init details f = Ok (f\<lparr>rsf_scheduling_details_state := Some details\<rparr>)"

definition remote_source_load :: "usize \<Rightarrow> remote_source_function \<Rightarrow> remote_source_function result" where
  "remote_source_load checkpoint f = Ok (f\<lparr>rsf_loaded_checkpoint := checkpoint\<rparr>)"

definition remote_source_run :: "'i list \<Rightarrow> remote_source_function \<Rightarrow> (usize \<times> 'b running_stream) list result" where
  "remote_source_run inputs f =
     (if inputs \<noteq> [] then Err (Panic ''assertion failed: inputs.len() == 0'')
      else bind_result (ok_or (rsf_scheduling_details_state f) (Internal ''Scheduling details state not initialized''))
             (\<lambda>_. Ok [(0, running_stream_new (rsf_stream_ids f) (rsf_loaded_checkpoint f))]))"

subsection \<open>Instructions\<close>

text \<open>
  The instructions put into the stream of a fibre leave its items as they are: stripping
  them gives the stream back, and there is one check for each marker, right after it.
\<close>

theorem strip_insert_instructions:
  "strip_stream_instructions (insert_stream_instructions items) = items \<and>
   List.map_filter (\<lambda>x. case x of Check m \<Rightarrow> Some m | _ \<Rightarrow> None) (insert_stream_instructions items) =
     List.map_filter (\<lambda>x. case x of Ok (SMarker m) \<Rightarrow> Some m | _ \<Rightarrow> None) items"
proof -
  have strip: "strip_stream_instructions (concat (map insert_instruction items) @ ys) = items @ strip_stream_instructions ys" for ys
    by (induction items) (auto simp: strip_stream_instructions_def insert_instruction_def split: result.splits sitem.splits)
  have checks: "List.map_filter (\<lambda>x. case x of Check m \<Rightarrow> Some m | _ \<Rightarrow> None) (concat (map insert_instruction items) @ [Finished]) =
      List.map_filter (\<lambda>x. case x of Ok (SMarker m) \<Rightarrow> Some m | _ \<Rightarrow> None) items"
    by (induction items) (auto simp: insert_instruction_def List.map_filter_def split: result.splits sitem.splits)
  from strip [of "[Finished]"] checks show ?thesis
    by (simp add: insert_stream_instructions_def) (simp add: strip_stream_instructions_def)
qed

subsection \<open>Fibres for addresses\<close>

definition address_key :: "stream_address \<Rightarrow> string \<times> string" where
  "address_key a = (fst a, fst (snd a))"

lemma intersect_cong:
  "(\<And>a. a \<in> set addresses \<Longrightarrow> m (address_key a) = m' (address_key a)) \<Longrightarrow>
   distinct (map address_key addresses) \<Longrightarrow>
   intersect_addresses_and_fibers addresses m = intersect_addresses_and_fibers addresses m'"
proof (induction addresses arbitrary: m m')
  case (Cons a addresses)
  obtain s ad p where a: "a = (s, ad, p)" by (cases a)
  have "m (s, ad) = m' (s, ad)" using Cons.prems(1) [of a] by (simp add: a address_key_def)
  moreover have "intersect_addresses_and_fibers addresses (m((s, ad) := None)) =
      intersect_addresses_and_fibers addresses (m'((s, ad) := None))"
    by (rule Cons.IH) (use Cons.prems in simp_all)
  moreover have "intersect_addresses_and_fibers addresses m = intersect_addresses_and_fibers addresses m'"
    by (rule Cons.IH) (use Cons.prems in simp_all)
  ultimately show ?case by (simp add: a split: option.splits)
qed simp

lemma intersect_spec:
  assumes "distinct (map address_key addresses)"
  shows "intersect_addresses_and_fibers addresses m =
    (List.map_filter (\<lambda>a. map_option (\<lambda>f. (fst a, f, snd (snd a))) (m (address_key a))) addresses,
     filter (\<lambda>a. m (address_key a) = None) addresses)"
  using assms
proof (induction addresses arbitrary: m)
  case (Cons a addresses)
  obtain s ad p where a: "a = (s, ad, p)" by (cases a)
  have key: "address_key a = (s, ad)" by (simp add: a address_key_def)
  have "address_key x \<noteq> (s, ad)" if "x \<in> set addresses" for x
  proof -
    have "address_key x \<in> address_key ` set addresses" using that by (rule imageI)
    with Cons.prems key show ?thesis by auto
  qed
  then have "intersect_addresses_and_fibers addresses (m((s, ad) := None)) = intersect_addresses_and_fibers addresses m"
    using Cons.prems by (intro intersect_cong) simp_all
  with Cons show ?case by (auto simp: a address_key_def List.map_filter_def split: option.splits)
qed (simp add: List.map_filter_def)

lemma fold_map_other: "k \<notin> key ` set xs \<Longrightarrow> fold (\<lambda>x m. m(key x \<mapsto> val x)) xs m k = m k"
  by (induction xs arbitrary: m) auto

lemma fold_map_eq: "(\<And>x m. f (g x) m = h x m) \<Longrightarrow> fold f (map g xs) m = fold h xs m"
  by (induction xs arbitrary: m) auto

lemma fold_map_lookup:
  assumes "distinct (map key xs)" and "x \<in> set xs"
  shows "fold (\<lambda>x m. m(key x \<mapsto> val x)) xs m (key x) = Some (val x)"
  using assms
proof (induction xs arbitrary: m)
  case (Cons y xs)
  show ?case
  proof (cases "x = y")
    case True
    then have "key x \<notin> key ` set xs" using Cons.prems(1) by simp
    from fold_map_other [OF this, of val "m(key x \<mapsto> val x)"] True show ?thesis by (simp del: fun_upd_apply) simp
  next
    case False
    then have "x \<in> set xs" "distinct (map key xs)" using Cons.prems by auto
    from Cons.IH [OF this(2,1), of "m(key y \<mapsto> val y)"] show ?thesis by (simp del: fun_upd_apply)
  qed
qed simp

text \<open>The fibre an address gets: the stored one, if there is one, with the partitions loaded.\<close>

definition fiber_for :: "'b fiber_map option \<Rightarrow> stream_address \<Rightarrow> 'b running_fiber" where
  "fiber_for stored a =
     fiber_load (snd (snd a))
       (case stored of
          None \<Rightarrow> fiber_new (fst a) (fst (snd a)) (snd (snd a))
        | Some m \<Rightarrow> (case m (address_key a) of
            None \<Rightarrow> fiber_new (fst a) (fst (snd a)) (snd (snd a)) | Some f \<Rightarrow> f))"

definition keyed :: "'b fiber_map option \<Rightarrow> bool" where
  "keyed stored \<longleftrightarrow> (\<forall>m k f. stored = Some m \<longrightarrow> m k = Some f \<longrightarrow> (rf_stream_id f, rf_address f) = k)"

lemma fiber_for_key:
  "keyed stored \<Longrightarrow> (rf_stream_id (fiber_for stored a), rf_address (fiber_for stored a)) = address_key a"
  by (auto simp: keyed_def fiber_for_def fiber_load_def fiber_new_def address_key_def split: option.splits)

lemma make_fibers_as_fold:
  assumes "distinct (map address_key addresses)" and "keyed stored"
  obtains order where "set order = set addresses" and "distinct (map address_key order)"
    and "make_fibers_for_all_addresses stored addresses =
      fold (\<lambda>a m. m(address_key a \<mapsto> fiber_for stored a)) order Map.empty"
proof -
  define known where "known = (\<lambda>a. case stored of None \<Rightarrow> False | Some m \<Rightarrow> m (address_key a) \<noteq> None)"
  let ?order = "filter known addresses @ filter (\<lambda>a. \<not> known a) addresses"
  let ?step = "\<lambda>(stream_id, fiber) m. m((stream_id, rf_address fiber) \<mapsto> fiber)"
  have entry: "?step (fst a, fiber_for stored a) m = m(address_key a \<mapsto> fiber_for stored a)" for a m
    using fiber_for_key [OF assms(2), of a] by (auto simp: address_key_def)
  have "make_fibers_for_all_addresses stored addresses =
      fold ?step (map (\<lambda>a. (fst a, fiber_for stored a)) ?order) Map.empty"
  proof (cases stored)
    case None
    then have "filter known addresses = []" "filter (\<lambda>a. \<not> known a) addresses = addresses" by (simp_all add: known_def)
    with None show ?thesis
      by (simp add: make_fibers_for_all_addresses_def fiber_for_def comp_def case_prod_beta Let_def)
  next
    case (Some m)
    have "map (\<lambda>(stream_id, fiber, partitions). (stream_id, fiber_load partitions fiber))
        (List.map_filter (\<lambda>a. map_option (\<lambda>f. (fst a, f, snd (snd a))) (m (address_key a))) xs) =
        map (\<lambda>a. (fst a, fiber_for stored a)) (filter known xs)" for xs
      by (induction xs) (auto simp: List.map_filter_def known_def fiber_for_def Some)
    moreover have "map (\<lambda>(stream_id, fiber, partitions). (stream_id, fiber_load partitions fiber))
        (map (\<lambda>(stream_id, address, partitions). (stream_id, fiber_new stream_id address partitions, partitions))
          (filter (\<lambda>a. m (address_key a) = None) xs)) = map (\<lambda>a. (fst a, fiber_for stored a)) (filter (\<lambda>a. \<not> known a) xs)" for xs
      by (induction xs) (auto simp: known_def fiber_for_def Some)
    ultimately show ?thesis
      by (simp only: make_fibers_for_all_addresses_def Some option.case intersect_spec [OF assms(1)] prod.case Let_def map_append)
  qed
  also have "\<dots> = fold (\<lambda>a m. m(address_key a \<mapsto> fiber_for stored a)) ?order Map.empty"
    by (rule fold_map_eq) (rule entry)
  finally have "make_fibers_for_all_addresses stored addresses =
      fold (\<lambda>a m. m(address_key a \<mapsto> fiber_for stored a)) ?order Map.empty" .
  moreover have set: "set ?order = set addresses" by auto
  moreover have "distinct (map address_key ?order)"
    unfolding distinct_map set using assms(1) by (auto simp: distinct_map)
  ultimately show ?thesis using that by blast
qed

text \<open>
  There is exactly one fibre per address.  For addresses with different keys (stream and
  host) the fibre map has exactly these keys; the fibre of an address reads the partitions of
  the address, and it keeps the stream of the fibre stored before only if that one read the
  same partitions.
\<close>

theorem make_fibers_one_per_address:
  assumes "distinct (map address_key addresses)" and "keyed stored"
  shows "dom (make_fibers_for_all_addresses stored addresses) = address_key ` set addresses \<and>
    (\<forall>a \<in> set addresses. \<exists>f. make_fibers_for_all_addresses stored addresses (address_key a) = Some f \<and>
       rf_current_partitions f = snd (snd a) \<and>
       (\<forall>stream. rf_remote_stream f = Some stream \<longrightarrow>
          (\<exists>m f0. stored = Some m \<and> m (address_key a) = Some f0 \<and> rf_current_partitions f0 = snd (snd a) \<and>
             rf_remote_stream f0 = Some stream)))"
proof -
  obtain order where o: "set order = set addresses" "distinct (map address_key order)"
      "make_fibers_for_all_addresses stored addresses = fold (\<lambda>a m. m(address_key a \<mapsto> fiber_for stored a)) order Map.empty"
    by (rule make_fibers_as_fold [OF assms])
  have look: "make_fibers_for_all_addresses stored addresses (address_key a) = Some (fiber_for stored a)" if "a \<in> set addresses" for a
    using fold_map_lookup [OF o(2), of a] that o(1,3) by simp
  moreover have "make_fibers_for_all_addresses stored addresses k = None" if "k \<notin> address_key ` set addresses" for k
    using fold_map_other [of k address_key order] that o(1,3) by simp
  ultimately have "dom (make_fibers_for_all_addresses stored addresses) = address_key ` set addresses"
    by (auto simp: dom_def) (metis imageI option.distinct(1))
  moreover have "rf_current_partitions (fiber_for stored a) = snd (snd a) \<and>
      (\<forall>stream. rf_remote_stream (fiber_for stored a) = Some stream \<longrightarrow>
        (\<exists>m f0. stored = Some m \<and> m (address_key a) = Some f0 \<and> rf_current_partitions f0 = snd (snd a) \<and>
           rf_remote_stream f0 = Some stream))" for a
    by (auto simp: fiber_for_def fiber_load_def fiber_new_def split: option.splits)
  ultimately show ?thesis using look by blast
qed

theorem make_fibers_one_per_address_witness:
  "dom (make_fibers_for_all_addresses None [(''s'', ''a'', pr_unit), (''s'', ''b'', pr_unit)] :: nat fiber_map) =
    {(''s'', ''a''), (''s'', ''b'')}"
  using make_fibers_one_per_address [of "[(''s'', ''a'', pr_unit), (''s'', ''b'', pr_unit)]" "None :: nat fiber_map option"]
  by (simp add: address_key_def keyed_def)

subsection \<open>Meeting at a marker\<close>

fun poll_all ::
  "(df_error \<Rightarrow> string) \<Rightarrow> shared_fiber_state \<Rightarrow> usize list \<Rightarrow> trigger \<Rightarrow> fiber_globals
     \<Rightarrow> fiber_state ticket result list \<times> trigger \<times> fiber_globals" where
  "poll_all show_error sf [] b g = ([], b, g)"
| "poll_all show_error sf (marker # markers) b g =
     (case poll_fiber_state show_error sf marker b g of (t, b', g') \<Rightarrow>
      case poll_all show_error sf markers b' g' of (ts, b'', g'') \<Rightarrow> (t # ts, b'', g''))"

lemma poll_as_arrival:
  assumes "fg_currently_waiting_on_marker g \<in> {None, Some marker}"
    and "poll_fiber_state show_error sf marker b g = (t, b', g')"
  shows "arrive show_error (Compute (marker_computation sf marker)) b
    (g\<lparr>fg_currently_waiting_on_marker := Some marker\<rparr>) = (map_result Some t, b', g')"
proof -
  have same: "g\<lparr>fg_currently_waiting_on_marker := Some marker\<rparr> = g" if "fg_currently_waiting_on_marker g = Some marker"
    using that by (cases g) simp
  show ?thesis
  proof (cases "fg_currently_waiting_on_marker g")
    case None
    with assms(2) show ?thesis by (simp add: poll_fiber_state_def)
  next
    case (Some m)
    with assms have m: "m = marker" by simp
    show ?thesis unfolding same [OF Some [unfolded m]] using assms(2) Some m by (simp add: poll_fiber_state_def)
  qed
qed

lemma map_result_Some_inj: "map_result Some t = Ok (Some x) \<Longrightarrow> t = Ok x"
  by (cases t) auto

text \<open>As long as someone is missing, all polls wait and the globals only remember the marker.\<close>

lemma poll_all_early:
  assumes "round_state n ch xs b" and "length xs + k < n" and "fg_currently_waiting_on_marker g \<in> {None, Some marker}"
  shows "\<exists>b'. poll_all show_error sf (replicate k marker) b g = (replicate k (Ok (Wait ch)), b',
      (if k = 0 then g else g\<lparr>fg_currently_waiting_on_marker := Some marker\<rparr>)) \<and>
    round_state n ch (xs @ replicate k (Compute (marker_computation sf marker))) b'"
  using assms
proof (induction k arbitrary: xs b g)
  case (Suc k)
  let ?c = "Compute (marker_computation sf marker)" and ?g = "g\<lparr>fg_currently_waiting_on_marker := Some marker\<rparr>"
  have "Suc (length xs) < n" using Suc.prems(2) by simp
  from arrive_early [OF Suc.prems(1) this] obtain b1 where b1:
    "arrive show_error ?c b ?g = (Ok (Some (Wait ch)), b1, ?g)" "round_state n ch (xs @ [?c]) b1"
    by (metis arrival.case(1))
  obtain t b' g' where t: "poll_fiber_state show_error sf marker b g = (t, b', g')" by (metis prod_cases3)
  from poll_as_arrival [OF Suc.prems(3) t] b1(1) have poll: "poll_fiber_state show_error sf marker b g = (Ok (Wait ch), b1, ?g)"
    using t by (auto dest: map_result_Some_inj)
  from Suc.IH [OF b1(2), of ?g] Suc.prems(2) obtain b2 where
    "poll_all show_error sf (replicate k marker) b1 ?g = (replicate k (Ok (Wait ch)), b2, ?g)"
    "round_state n ch ((xs @ [?c]) @ replicate k ?c) b2" by (auto split: if_splits)
  with poll show ?case by simp
qed simp

lemma poll_all_append:
  "poll_all show_error sf (xs @ ys) b g =
     (case poll_all show_error sf xs b g of (ts, b', g') \<Rightarrow>
      case poll_all show_error sf ys b' g' of (us, b'', g'') \<Rightarrow> (ts @ us, b'', g''))"
  by (induction xs arbitrary: b g) (auto split: prod.splits)

definition decision :: "shared_fiber_state \<Rightarrow> usize \<Rightarrow> fiber_globals \<Rightarrow> fiber_state result" where
  "decision sf marker g =
     check_generation_and_addresses (fg_scheduling_details g) (sf_stream_ids sf)
       (sf_current_generation_id sf) (sf_current_addresses sf) marker"

lemma decision_Continue_iff:
  "decision sf marker g = Ok Continue \<longleftrightarrow>
    (\<exists>generations input_details generation addresses.
       fg_scheduling_details g = (Some generations, Some input_details) \<and>
       find_current_generation (sf_stream_ids sf) generations marker = Ok generation \<and>
       gs_id generation = sf_current_generation_id sf \<and>
       get_addresses (gs_partitions generation) marker (sf_stream_ids sf) input_details = Ok addresses \<and>
       set addresses = set (sf_current_addresses sf))"
  by (cases "fg_scheduling_details g")
    (auto simp: decision_def check_generation_and_addresses_def bind_result_eq_Ok ok_or_eq_Ok)

text \<open>
  C11: the fibres of a source decide together.  When all fibres have reached the same marker
  they get one and the same decision: to continue exactly when the current generation at that
  marker is still the one the fibres were opened for and its addresses are the same set.  The
  marker is recorded as completed, and the barrier is ready for the next marker.
\<close>

theorem fibres_decide_together:
  assumes "next_round n b" and "2 \<le> n" and "fg_currently_waiting_on_marker g = None"
  shows "\<exists>ch b'. poll_all show_error sf (replicate n marker) b g =
      (replicate (n - 1) (Ok (Wait ch)) @ [Ok (Immediate (decision sf marker g))], b',
       g\<lparr>fg_last_completed_marker := marker\<rparr>) \<and>
    map_option fst (barrier_await b' (Wait ch)) = Some (awaited show_error (decision sf marker g)) \<and>
    next_round n b' \<and>
    (decision sf marker g = Ok Continue \<longleftrightarrow>
      (\<exists>generations input_details generation addresses.
         fg_scheduling_details g = (Some generations, Some input_details) \<and>
         find_current_generation (sf_stream_ids sf) generations marker = Ok generation \<and>
         gs_id generation = sf_current_generation_id sf \<and>
         get_addresses (gs_partitions generation) marker (sf_stream_ids sf) input_details = Ok addresses \<and>
         set addresses = set (sf_current_addresses sf)))"
proof -
  let ?c = "Compute (marker_computation sf marker)" and ?g = "g\<lparr>fg_currently_waiting_on_marker := Some marker\<rparr>"
  let ?g' = "g\<lparr>fg_last_completed_marker := marker\<rparr>" and ?d = "decision sf marker g"
  have g': "?g'\<lparr>fg_currently_waiting_on_marker := None\<rparr> = ?g'" using assms(3) by (cases g) simp
  obtain ch where ch: "round_start n ch b" using assms(1,2) by (auto simp: next_round_def split: if_splits)
  from poll_all_early [OF round_state_start [OF ch], of "n - 1" g marker show_error sf] assms(2,3) obtain b1 where b1:
    "poll_all show_error sf (replicate (n - 1) marker) b g = (replicate (n - 1) (Ok (Wait ch)), b1, ?g)"
    "round_state n ch (replicate (n - 1) ?c) b1" by (auto split: if_splits)
  have computes: "computes (replicate k ?c) = replicate k (marker_computation sf marker)" for k
    by (induction k) (simp_all add: computes_def)
  have leavers: "leavers (replicate k ?c) = 0" for k by (simp add: leavers_def)
  have res: "marker_computation sf marker ?g = (?d, ?g')"
    using assms(3) by (cases g) (simp add: marker_computation_def decision_def)
  have f: "computes (replicate (n - 1) ?c @ [?c]) = marker_computation sf marker # replicate (n - 1) (marker_computation sf marker)"
    using computes [of "Suc (n - 1)"] by (simp add: replicate_append_same del: computes_simps)
  have len: "Suc (length (replicate (n - 1) ?c)) = n" using assms(2) by simp
  obtain b2 where b2: "arrive show_error ?c b1 ?g = (Ok (Some (Immediate (if computes (replicate (n - 1) ?c) = []
        then Err (Internal ''Barrier receiver was dropped before the result was sent.'') else ?d))), b2, ?g')"
      "next_round (n - leavers (replicate (n - 1) ?c @ [?c])) b2"
      "computes (replicate (n - 1) ?c) \<noteq> [] \<Longrightarrow> map_option fst (barrier_await b2 (Wait ch)) = Some (awaited show_error ?d)"
    by (rule arrive_last [OF b1(2) len assms(2) f res, of show_error, unfolded arrival.case], rule that)
  have some: "computes (replicate (n - 1) ?c) \<noteq> []" using assms(2) by (simp add: computes)
  obtain t b' g'' where t: "poll_fiber_state show_error sf marker b1 ?g = (t, b', g'')" by (metis prod_cases3)
  from poll_as_arrival [OF _ t] b2(1) some have poll: "poll_fiber_state show_error sf marker b1 ?g = (Ok (Immediate ?d), b2, ?g')"
    using t by (auto dest: map_result_Some_inj)
  have n: "replicate n marker = replicate (n - 1) marker @ [marker]"
    using assms(2) by (simp add: replicate_append_same flip: replicate_Suc)
  have "poll_all show_error sf (replicate n marker) b g =
      (replicate (n - 1) (Ok (Wait ch)) @ [Ok (Immediate ?d)], b2, ?g')"
    unfolding n poll_all_append b1(1) prod.case by (simp add: poll)
  moreover have "next_round n b2" using b2(2) leavers [of "n - 1"] by simp
  ultimately show ?thesis using b2(3) [OF some] decision_Continue_iff by blast
qed

theorem fibres_decide_together_witness:
  "\<exists>ch b'. poll_all (\<lambda>_. []) \<lparr>sf_stream_ids = [], sf_current_generation_id = ''g'', sf_current_partitions = pr_unit,
        sf_current_addresses = []\<rparr> [4, 4] (inner_queue_new 2)
      \<lparr>fg_scheduling_details = (Some [\<lparr>gs_id = ''g'', gs_partitions = pr_unit, gs_start_conditions = []\<rparr>], Some []),
       fg_last_completed_marker = 3, fg_currently_waiting_on_marker = None\<rparr> =
    ([Ok (Wait ch), Ok (Immediate (Ok Continue))], b',
     \<lparr>fg_scheduling_details = (Some [\<lparr>gs_id = ''g'', gs_partitions = pr_unit, gs_start_conditions = []\<rparr>], Some []),
       fg_last_completed_marker = 4, fg_currently_waiting_on_marker = None\<rparr>) \<and>
    map_option fst (barrier_await b' (Wait ch)) = Some (Ok Continue) \<and> next_round 2 b'"
proof -
  let ?sf = "\<lparr>sf_stream_ids = [], sf_current_generation_id = ''g'', sf_current_partitions = pr_unit,
        sf_current_addresses = []\<rparr>"
  let ?g = "\<lparr>fg_scheduling_details = (Some [\<lparr>gs_id = ''g'', gs_partitions = pr_unit, gs_start_conditions = []\<rparr>], Some []),
       fg_last_completed_marker = 3, fg_currently_waiting_on_marker = None\<rparr>"
  have "decision ?sf 4 ?g = Ok Continue"
    by (simp add: decision_def check_generation_and_addresses_def find_current_generation_def generation_valid_def get_addresses_def)
  then show ?thesis
    using fibres_decide_together [OF next_round_new, of 2 ?g "\<lambda>_. []" ?sf 4]
    by (simp add: numeral_2_eq_2 awaited_def del: barrier_await.simps) blast
qed

end
