(* ===== verification/Stream_Operators.thy ===== *)
theory Stream_Operators
  imports Generation Exchange
begin

text \<open>
  The stateless operators of \<open>src/streaming/operators\<close>: fibre streams
  (\<open>utils/fiber_stream.rs\<close>, \<open>utils/chunked_stream.rs\<close>), the source (\<open>source.rs\<close>), the
  identity (\<open>identity.rs\<close>), the filter and projection tasks (\<open>filter.rs\<close>,
  \<open>projection.rs\<close>) and the output to the exchange (\<open>remote_exchange.rs\<close>).

  A stream that has been run to its end is the list of its items.  The theorems show that a
  source that is loaded at a checkpoint of its first iteration resumes exactly at that marker,
  that the chunks of a stream are its parts between markers, and that the exchange output puts
  everything it reads into its channel, in order.
\<close>

subsection \<open>Fibre streams\<close>

text \<open>
  A fibre stream is the list of the answers of \<open>pull\<close>; an answer is a list of fibres and the
  empty answer ends the stream.  \<open>merge\<close> is the interleaving \<open>select_all\<close> chooses for the
  fibres of one answer.
\<close>

type_synonym 'i fiber_stream = "'i list list result list"

fun combined :: "('i list list \<Rightarrow> 'i list) \<Rightarrow> 'i fiber_stream \<Rightarrow> 'i list result" where
  "combined merge [] = Ok []"
| "combined merge (Err e # pulls) = Err (Panic ''called unwrap on an Err value'')"
| "combined merge (Ok fibers # pulls) =
     (if fibers = [] then Ok [] else map_result ((@) (merge fibers)) (combined merge pulls))"

definition single_fiber_stream :: "'i list \<Rightarrow> 'i fiber_stream" where
  "single_fiber_stream stream = [Ok [stream], Ok []]"

text \<open>What \<open>select_all\<close> promises: the fibres in some interleaving.\<close>

definition interleaves :: "('i list list \<Rightarrow> 'i list) \<Rightarrow> bool" where
  "interleaves merge \<longleftrightarrow> (\<forall>fibers. mset (merge fibers) = mset (concat fibers)) \<and> (\<forall>fiber. merge [fiber] = fiber)"

lemma combined_single: "interleaves merge \<Longrightarrow> combined merge (single_fiber_stream stream) = Ok stream"
  by (simp add: single_fiber_stream_def interleaves_def)

subsection \<open>Chunks\<close>

record 'b chunked_stream =
  ck_stream :: "'b sitem list"
  ck_current_marker :: "marker option"

definition chunked_stream_new :: "'b sitem list \<Rightarrow> 'b chunked_stream" where
  "chunked_stream_new stream = \<lparr>ck_stream = stream, ck_current_marker = None\<rparr>"

text \<open>\<open>stream_record_batches\<close> run to its end: the batches up to a marker or generation.\<close>

fun stream_record_batches :: "'b sitem list \<Rightarrow> marker option \<Rightarrow> 'b list \<times> 'b chunked_stream" where
  "stream_record_batches [] m = ([], \<lparr>ck_stream = [], ck_current_marker = m\<rparr>)"
| "stream_record_batches (SBatch b # items) m =
     (case stream_record_batches items None of (bs, c) \<Rightarrow> (b # bs, c))"
| "stream_record_batches (SMarker mk # items) m = ([], \<lparr>ck_stream = items, ck_current_marker = Some mk\<rparr>)"
| "stream_record_batches (SGeneration g # items) m = ([], \<lparr>ck_stream = items, ck_current_marker = m\<rparr>)"

text \<open>
  A chunk is the part of the stream before the next marker.  If the stream is batches
  followed by a marker, the chunk is exactly these batches, the marker is remembered and the
  rest of the stream is left.
\<close>

theorem chunk_until_marker:
  "stream_record_batches (map SBatch bs @ SMarker mk # items) m =
     (bs, \<lparr>ck_stream = items, ck_current_marker = Some mk\<rparr>)"
  by (induction bs arbitrary: m) auto

subsection \<open>Source\<close>

record 'b source_function =
  sof_items :: "'b stream_item list"
  sof_offset :: usize
  sof_current_iteration :: usize
  sof_num_iterations :: usize

definition source_new :: "'b stream_item list \<Rightarrow> usize \<Rightarrow> 'b source_function" where
  "source_new items num_iterations =
     \<lparr>sof_items = items, sof_offset = 0, sof_current_iteration = 0, sof_num_iterations = num_iterations\<rparr>"

definition item_marker :: "'b stream_item \<Rightarrow> usize option" where
  "item_marker item = (case item of ItemMarker m \<Rightarrow> Some (checkpoint_number m) | ItemBatch b \<Rightarrow> None)"

definition max_marker :: "'b stream_item list \<Rightarrow> usize result" where
  "max_marker items =
     (case List.map_filter item_marker items of
        [] \<Rightarrow> Err (Internal ''No markers found in source operator items'')
      | ms \<Rightarrow> Ok (Max (set ms)))"

fun find_marker :: "usize \<Rightarrow> usize \<Rightarrow> 'b stream_item list \<Rightarrow> usize option" where
  "find_marker search index [] = None"
| "find_marker search index (item # items) =
     (if item_marker item = Some search then Some index else find_marker search (Suc index) items)"

definition source_load :: "usize \<Rightarrow> 'b source_function \<Rightarrow> 'b source_function result" where
  "source_load checkpoint f =
     (if checkpoint > 0
      then bind_result (max_marker (sof_items f)) (\<lambda>mm.
           bind_result (usize_rem (checkpoint - 1) mm) (\<lambda>r.
           bind_result (ok_or (find_marker (1 + r) 0 (sof_items f)) (Execution ''No marker found for checkpoint'')) (\<lambda>index.
           bind_result (usize_div (checkpoint - 1) mm) (\<lambda>iteration.
           Ok (f\<lparr>sof_offset := index, sof_current_iteration := iteration\<rparr>)))))
      else Ok (f\<lparr>sof_offset := 0, sof_current_iteration := 0\<rparr>))"

definition renumber :: "usize \<Rightarrow> usize \<Rightarrow> 'b stream_item \<Rightarrow> 'b stream_item" where
  "renumber mm iteration item =
     (case item of
        ItemMarker m \<Rightarrow> ItemMarker (Marker (usize_add (usize_mul iteration mm) (checkpoint_number m)))
      | ItemBatch b \<Rightarrow> ItemBatch b)"

definition source_run :: "'i list \<Rightarrow> 'b source_function \<Rightarrow> (usize \<times> 'b sitem result fiber_stream) list result" where
  "source_run inputs f =
     (if inputs \<noteq> [] then Err (Panic ''Source operator should not have any inputs'')
      else bind_result (max_marker (sof_items f)) (\<lambda>mm.
             let first = drop (sof_offset f) (sof_items f);
                 others = map (\<lambda>iteration. map (renumber mm iteration) (sof_items f))
                   [sof_current_iteration f + 1..<sof_num_iterations f]
             in Ok [(0, single_fiber_stream (map (Ok \<circ> sitem_of_stream_item) (first @ concat others)))]))"

subsection \<open>Identity\<close>

definition identity_run :: "(usize \<times> 'i fiber_stream) list \<Rightarrow> (usize \<times> 'i fiber_stream) list result" where
  "identity_run inputs = Ok inputs"

definition identity_process :: "'b \<Rightarrow> usize \<Rightarrow> 'b stream_item list" where
  "identity_process data ordinal = [ItemBatch data]"

subsection \<open>Filter and projection tasks\<close>

text \<open>
  The value of an expression on a batch: a scalar or a column.  Evaluation, the Boolean view
  of a column and the filter kernel are arguments.
\<close>

datatype 'a columnar_value = ScalarBoolean "bool option" | ScalarOther | ColumnarArray 'a

definition filter_process ::
  "('b \<Rightarrow> 'a columnar_value result) \<Rightarrow> ('a \<Rightarrow> 'm option) \<Rightarrow> ('b \<Rightarrow> 'm \<Rightarrow> 'b result) \<Rightarrow> 'b
     \<Rightarrow> 'b stream_item list result" where
  "filter_process eval_expr as_boolean filter_record_batch data =
     (case eval_expr data of
        Err e \<Rightarrow> Err (Panic ''called unwrap on an Err value'')
      | Ok (ScalarBoolean boolean) \<Rightarrow> Ok (if boolean = Some True then [ItemBatch data] else [])
      | Ok ScalarOther \<Rightarrow> Err (Panic ''Expected boolean scalar value'')
      | Ok (ColumnarArray array) \<Rightarrow>
          (case as_boolean array of
             None \<Rightarrow> Err (Panic ''boolean array'')
           | Some selection \<Rightarrow>
               (case filter_record_batch data selection of
                  Err e \<Rightarrow> Err (Panic ''called unwrap on an Err value'')
                | Ok result_batch \<Rightarrow> Ok [ItemBatch result_batch])))"

definition union_process :: "'b \<Rightarrow> usize \<Rightarrow> 'b stream_item list" where
  "union_process data input_channel = [ItemBatch data]"

definition projection_process :: "('b \<Rightarrow> 'b result) \<Rightarrow> 'b \<Rightarrow> 'b stream_item list result" where
  "projection_process process_batch data =
     (case process_batch data of
        Err e \<Rightarrow> Err (Panic ''called unwrap on an Err value'')
      | Ok batch \<Rightarrow> Ok [ItemBatch batch])"

subsection \<open>Output to the exchange\<close>

record 'e remote_exchange_function =
  ref_output_stream_id :: string
  ref_partitioning :: "'e partitioning_spec option"
  ref_data_channel :: "(nat \<times> channel_sender) option"

definition remote_exchange_new :: "string \<Rightarrow> 'e partitioning_spec option \<Rightarrow> 'e remote_exchange_function" where
  "remote_exchange_new output_stream_id partitioning =
     \<lparr>ref_output_stream_id = output_stream_id, ref_partitioning = partitioning, ref_data_channel = None\<rparr>"

definition remote_exchange_init ::
  "scheduling_details \<Rightarrow> 'e remote_exchange_function \<Rightarrow> ('b, 'e) exchange_channel_store
     \<Rightarrow> ('e remote_exchange_function \<times> ('b, 'e) exchange_channel_store) result" where
  "remote_exchange_init details f st =
     (case fst details of
        None \<Rightarrow> Err (Panic ''called unwrap on a None value'')
      | Some [] \<Rightarrow> Err (Panic ''index out of bounds'')
      | Some (generation # _) \<Rightarrow>
          let partitioning_details = map_option (\<lambda>partitioning.
                \<lparr>cpd_partitioning_spec = partitioning, cpd_partitions = gs_partitions generation\<rparr>) (ref_partitioning f)
          in case store_create (ref_output_stream_id f) partitioning_details st of (address, sender, st') \<Rightarrow>
               Ok (f\<lparr>ref_data_channel := Some (address, sender)\<rparr>, st'))"

text \<open>The loop over the combined input.\<close>

fun exchange_write ::
  "'b sitem result list \<Rightarrow> 'b channel_state \<times> channel_sender \<Rightarrow> ('b channel_state \<times> channel_sender) result" where
  "exchange_write [] s = Ok s"
| "exchange_write (item # items) s =
     bind_result
       (case item of
          Ok (SGeneration g) \<Rightarrow>
            Err (Panic ''RemoteExchangeOperatorFunction does not know how to handle generations right now'')
        | Ok (SBatch record_batch) \<Rightarrow> channel_send (Ok (ItemBatch record_batch)) (fst s) (snd s)
        | Ok (SMarker marker) \<Rightarrow> channel_send (Ok (ItemMarker marker)) (fst s) (snd s)
        | Err err \<Rightarrow> channel_send (Err err) (fst s) (snd s))
       (exchange_write items)"

definition remote_exchange_run ::
  "('b sitem result list list \<Rightarrow> 'b sitem result list) \<Rightarrow> (usize \<times> 'b sitem result fiber_stream) list
     \<Rightarrow> 'e remote_exchange_function \<Rightarrow> ('b, 'e) exchange_channel_store
     \<Rightarrow> ('e remote_exchange_function \<times> ('b, 'e) exchange_channel_store) result" where
  "remote_exchange_run merge inputs f st =
     bind_result (ok_or (ref_data_channel f) (Execution ''Data channel not initialized'')) (\<lambda>(address, sender).
     if length inputs \<noteq> 1 then Err (Panic ''RemoteExchangeOperatorFunction should only have one input'')
     else
       bind_result (combined merge (snd (last inputs))) (\<lambda>items.
       bind_result (exchange_write items (es_heap st ! address, sender)) (\<lambda>(ch, sender').
       Ok (f\<lparr>ref_data_channel := None\<rparr>,
           st\<lparr>es_heap := (es_heap st)[address := sender_drop ch sender']\<rparr>))))"

subsection \<open>Resuming a source\<close>

lemma find_marker_first:
  "(\<And>x. x \<in> set pre \<Longrightarrow> item_marker x \<noteq> Some cp) \<Longrightarrow>
   find_marker cp index (pre @ ItemMarker (Marker cp) # post) = Some (index + length pre)"
  by (induction pre arbitrary: index) (auto simp: item_marker_def)

text \<open>
  C24: a source resumes at its checkpoint.  For a checkpoint of the first iteration, loading it
  succeeds and the run then yields exactly the rest of the run from the start, beginning with
  the marker of the checkpoint.
\<close>

theorem source_resumes:
  assumes "max_marker (pre @ ItemMarker (Marker cp) # post) = Ok mm" and "0 < cp" and "cp \<le> mm"
    and "\<And>x. x \<in> set pre \<Longrightarrow> item_marker x \<noteq> Some cp"
  shows "\<exists>f' rest. source_load cp (source_new (pre @ ItemMarker (Marker cp) # post) n) = Ok f' \<and>
    source_run [] (source_new (pre @ ItemMarker (Marker cp) # post) n) =
      Ok [(0, single_fiber_stream (map (Ok \<circ> sitem_of_stream_item) (pre @ ItemMarker (Marker cp) # rest)))] \<and>
    source_run [] f' = Ok [(0, single_fiber_stream (map (Ok \<circ> sitem_of_stream_item) (ItemMarker (Marker cp) # rest)))]"
proof -
  have "(cp - 1) mod mm = cp - 1" "(cp - 1) div mm = 0" "mm \<noteq> 0" "Suc (cp - 1) = cp" using assms(2,3) by auto
  then have load: "source_load cp (source_new (pre @ ItemMarker (Marker cp) # post) n) =
      Ok \<lparr>sof_items = pre @ ItemMarker (Marker cp) # post, sof_offset = length pre, sof_current_iteration = 0,
          sof_num_iterations = n\<rparr>"
    using assms(1,2) find_marker_first [OF assms(4), of pre 0 post]
    by (simp add: source_load_def source_new_def usize_rem_def usize_div_def)
  let ?rest = "post @ concat (map (\<lambda>iteration. map (renumber mm iteration) (pre @ ItemMarker (Marker cp) # post)) [1..<n])"
  show ?thesis
    by (rule exI, rule exI [of _ ?rest], intro conjI, rule load)
      (use assms(1) in \<open>simp_all add: source_run_def source_new_def Let_def\<close>)
qed

theorem source_resumes_witness:
  "\<exists>f' rest. source_load 2 (source_new ([ItemBatch (7 :: nat), ItemMarker (Marker 1)] @ ItemMarker (Marker 2) # []) 3) = Ok f' \<and>
    source_run [] f' = Ok [(0, single_fiber_stream (map (Ok \<circ> sitem_of_stream_item) (ItemMarker (Marker 2) # rest)))]"
proof -
  have "max_marker ([ItemBatch (7 :: nat), ItemMarker (Marker 1)] @ ItemMarker (Marker 2) # []) = Ok 2"
    by (simp add: max_marker_def item_marker_def List.map_filter_def)
  moreover have "item_marker x \<noteq> Some 2" if "x \<in> set [ItemBatch (7 :: nat), ItemMarker (Marker 1)]" for x
    using that by (auto simp: item_marker_def)
  ultimately show ?thesis
    using source_resumes [of "[ItemBatch (7 :: nat), ItemMarker (Marker 1)]" 2 "[]" 2 3] by fastforce
qed

text \<open>
  A checkpoint of a later iteration is resumed with the wrong number: the first, partial
  iteration is not renumbered.  With one batch and one marker per iteration, the run from the
  start has the markers 1 and 2, but resuming at checkpoint 2 emits marker 1.
\<close>

theorem source_resume_numbering:
  "source_run [] (source_new [ItemBatch b, ItemMarker (Marker 1)] 2) =
     Ok [(0, single_fiber_stream [Ok (SBatch b), Ok (SMarker (Marker 1)), Ok (SBatch b), Ok (SMarker (Marker 2))])] \<and>
   bind_result (source_load 2 (source_new [ItemBatch b, ItemMarker (Marker 1)] 2)) (source_run []) =
     Ok [(0, single_fiber_stream [Ok (SMarker (Marker 1))])]"
  by (simp add: source_run_def source_new_def source_load_def max_marker_def item_marker_def List.map_filter_def
      usize_rem_def usize_div_def usize_add_def usize_mul_def usize_limit_def renumber_def Let_def upt_rec)
    (simp add: numeral_2_eq_2)

text \<open>A source without markers cannot be run at all.\<close>

theorem source_needs_markers:
  "source_run [] (source_new (map ItemBatch bs) n) = Err (Internal ''No markers found in source operator items'')"
  by (simp add: source_run_def source_new_def max_marker_def item_marker_def List.map_filter_def comp_def)

subsection \<open>Writing to the exchange\<close>

definition item_of_sitem :: "'b sitem \<Rightarrow> 'b stream_item" where
  "item_of_sitem item = (case item of SMarker m \<Rightarrow> ItemMarker m | SBatch b \<Rightarrow> ItemBatch b)"

lemma item_of_sitem_simps [simp]: "item_of_sitem (SMarker m) = ItemMarker m" "item_of_sitem (SBatch b) = ItemBatch b"
  by (simp_all add: item_of_sitem_def)

lemma exchange_write_sends:
  "list_all (\<lambda>i. \<forall>g. i \<noteq> SGeneration g) items \<Longrightarrow>
   exchange_write (map Ok items) s =
     fold_result (\<lambda>(ch, sender) item. channel_send item ch sender) s (map (Ok \<circ> item_of_sitem) items)"
proof (induction items arbitrary: s)
  case (Cons i items)
  then have "exchange_write (map Ok items) =
      (\<lambda>s. fold_result (\<lambda>(ch, sender) item. channel_send item ch sender) s (map (Ok \<circ> item_of_sitem) items))" by (intro ext) (simp add: comp_def)
  with Cons.prems show ?case by (cases s; cases i) (simp_all add: comp_def)
qed simp

text \<open>
  What an exchange output reads, its readers get.  An output that was initialised with a
  generation and then runs over an input of batches and markers succeeds; afterwards the store
  serves the stream under its id from a channel in which any new reader finds exactly the items
  of the input, in order, and then the end of the stream.
\<close>

theorem exchange_output_complete:
  assumes "interleaves merge" and "list_all (\<lambda>i. \<forall>g. i \<noteq> SGeneration g) items"
  shows "\<exists>f st' address st''.
    remote_exchange_init (Some (generation # generations), details) (remote_exchange_new sid partitioning) st = Ok (f, st') \<and>
    remote_exchange_run merge [(0, single_fiber_stream (map Ok items))] f st' =
      Ok (f\<lparr>ref_data_channel := None\<rparr>, st'') \<and>
    map_option os_channel (es_channels st'' sid) = Some address \<and>
    (reader_step (es_heap st'' ! address) ^^ (2 * length items + 1)) new_reader =
      \<lparr>rd_index = length items, rd_pc = Ended, rd_out = map item_of_sitem items\<rparr>"
proof -
  let ?xs = "map item_of_sitem items"
  obtain ch sender n where sent: "send_all (map Ok ?xs) = Ok (ch, sender)" "cs_items ch = ?xs"
    "snd_next_index sender = length ?xs" "cs_notification ch = Some n" "cs_status ch = StRunning"
    using send_all_ok [of ?xs] by blast
  define address where "address = length (es_heap st)"
  let ?pd = "map_option (\<lambda>p. \<lparr>cpd_partitioning_spec = p, cpd_partitions = gs_partitions generation\<rparr>) partitioning"
  let ?f = "(remote_exchange_new sid partitioning)\<lparr>ref_data_channel := Some (address, sender_new)\<rparr>"
  let ?st = "st\<lparr>es_heap := es_heap st @ [fst channel_create],
      es_channels := (es_channels st)(sid \<mapsto> \<lparr>os_channel = address, os_partitioning_details = ?pd\<rparr>)\<rparr>"
  have init: "remote_exchange_init (Some (generation # generations), details) (remote_exchange_new sid partitioning) st = Ok (?f, ?st)"
    by (simp add: remote_exchange_init_def remote_exchange_new_def store_create_def channel_create_def address_def Let_def)
  have wr: "exchange_write (map Ok items) (es_heap ?st ! address, sender_new) = Ok (ch, sender)"
    using sent(1) by (simp add: exchange_write_sends [OF assms(2)] send_all_def channel_create_def address_def comp_def)
  let ?st' = "?st\<lparr>es_heap := (es_heap ?st)[address := sender_drop ch sender]\<rparr>"
  have run: "remote_exchange_run merge [(0, single_fiber_stream (map Ok items))] ?f ?st = Ok (?f\<lparr>ref_data_channel := None\<rparr>, ?st')"
    using wr by (simp add: remote_exchange_run_def combined_single [OF assms(1)])
  have heap: "es_heap ?st' ! address = sender_drop ch sender" by (simp add: address_def)
  have "(reader_step (sender_drop ch sender) ^^ (2 * length ?xs + 1)) new_reader = \<lparr>rd_index = length ?xs, rd_pc = Ended, rd_out = ?xs\<rparr>"
    using read_cancelled [of "sender_drop ch sender" "snd_last_checkpoint sender" new_reader] sent(2,3)
    by (simp add: sender_drop_facts drop_status_def new_reader_def)
  with init run heap show ?thesis
    by (intro exI [of _ ?f] exI [of _ ?st] exI [of _ address] exI [of _ ?st'] conjI) simp_all
qed

theorem exchange_output_complete_witness:
  "\<exists>f st' address st''.
    remote_exchange_init (Some [\<lparr>gs_id = ''g'', gs_partitions = pr_unit, gs_start_conditions = []\<rparr>], None)
      (remote_exchange_new ''s'' (None :: nat partitioning_spec option)) store_new = Ok (f, st') \<and>
    remote_exchange_run concat [(0, single_fiber_stream (map Ok [SBatch (5 :: nat), SMarker (Marker 1)]))] f st' =
      Ok (f\<lparr>ref_data_channel := None\<rparr>, st'') \<and>
    (reader_step (es_heap st'' ! address) ^^ 5) new_reader =
      \<lparr>rd_index = 2, rd_pc = Ended, rd_out = [ItemBatch 5, ItemMarker (Marker 1)]\<rparr>"
proof -
  have "interleaves (concat :: nat sitem result list list \<Rightarrow> nat sitem result list)" by (simp add: interleaves_def)
  from exchange_output_complete [OF this, of "[SBatch (5 :: nat), SMarker (Marker 1)]"
      "\<lparr>gs_id = ''g'', gs_partitions = pr_unit, gs_start_conditions = []\<rparr>" "[]" None "''s''" "None :: nat partitioning_spec option" store_new]
  obtain f st' address st'' where
    "remote_exchange_init (Some [\<lparr>gs_id = ''g'', gs_partitions = pr_unit, gs_start_conditions = []\<rparr>], None)
      (remote_exchange_new ''s'' (None :: nat partitioning_spec option)) store_new = Ok (f, st')"
    "remote_exchange_run concat [(0, single_fiber_stream (map Ok [SBatch (5 :: nat), SMarker (Marker 1)]))] f st' =
      Ok (f\<lparr>ref_data_channel := None\<rparr>, st'')"
    "(reader_step (es_heap st'' ! address) ^^ (2 * length [SBatch (5 :: nat), SMarker (Marker 1)] + 1)) new_reader =
      \<lparr>rd_index = length [SBatch (5 :: nat), SMarker (Marker 1)], rd_pc = Ended,
       rd_out = map item_of_sitem [SBatch 5, SMarker (Marker 1)]\<rparr>" by auto
  then show ?thesis by (intro exI [of _ f] exI [of _ st'] exI [of _ address] exI [of _ st'']) simp
qed

end
