(* ===== verification/Count_Operators.thy ===== *)
theory Count_Operators
  imports State_Backend Stream_Operators
begin

text \<open>
  \<open>src/streaming/operators/count_star.rs\<close> and \<open>count_by_key.rs\<close>: the operators that keep
  a count in the state backend.  At a marker the count is written to the state and a
  checkpoint with the number of the marker is taken; \<open>load\<close> moves the state to a checkpoint
  and reads the count back; at the end of the input the count is emitted as one batch.

  The number of rows, the keys of a batch and the construction of result batches are
  arguments.  The theorems show that counters survive the conversion to bytes, and that a
  counting operator that is interrupted and loaded at a checkpoint ends with the count of the
  rows before the checkpoint and the rows read after it.
\<close>

subsection \<open>Big endian bytes\<close>

fun be_bytes :: "nat \<Rightarrow> nat \<Rightarrow> bytes" where
  "be_bytes 0 n = []"
| "be_bytes (Suc k) n = be_bytes k (n div 256) @ [of_nat (n mod 256)]"

definition to_be_bytes :: "u64 \<Rightarrow> bytes" where
  "to_be_bytes n = be_bytes 8 n"

definition be_value :: "bytes \<Rightarrow> nat" where
  "be_value bs = foldl (\<lambda>n b. n * 256 + unat b) 0 bs"

text \<open>\<open>try_into\<close> an array of eight bytes, then \<open>from_be_bytes\<close>.\<close>

definition from_be_bytes :: "bytes \<Rightarrow> u64 option" where
  "from_be_bytes bs = (if length bs = 8 then Some (be_value bs) else None)"

lemma length_be_bytes [simp]: "length (be_bytes k n) = k"
  by (induction k arbitrary: n) auto

lemma be_value_snoc [simp]: "be_value (bs @ [b]) = be_value bs * 256 + unat b"
  by (simp add: be_value_def)

lemma be_value_be_bytes: "be_value (be_bytes k n) = n mod 256 ^ k"
proof (induction k arbitrary: n)
  case (Suc k)
  have "unat (of_nat (n mod 256) :: 8 word) = n mod 256"
    by (simp add: unat_of_nat take_bit_eq_mod)
  then have "be_value (be_bytes (Suc k) n) = (n div 256) mod 256 ^ k * 256 + n mod 256" by (simp add: Suc)
  also have "\<dots> = n mod 256 ^ Suc k" by (simp add: mod_mult2_eq)
  finally show ?case .
qed (simp add: be_value_def)

lemma be_bytes_round_trip: "n < usize_limit \<Longrightarrow> from_be_bytes (to_be_bytes n) = Some n"
  by (simp add: from_be_bytes_def to_be_bytes_def be_value_be_bytes usize_limit_def)

lemma be_bytes_value: "be_bytes (length bs) (be_value bs) = bs"
proof (induction bs rule: rev_induct)
  case (snoc b bs)
  have "unat b < 256" using unsigned_less [of b] by simp
  then show ?case using snoc by simp
qed simp

subsection \<open>Counting all rows\<close>

record ('c, 'db) count_star_function =
  csf_state :: "('c, 'db) state_backend option"
  csf_local_count :: u64
  csf_current_partition_range :: "partition_range option"

definition count_star_new :: "('c, 'db) count_star_function" where
  "count_star_new = \<lparr>csf_state = None, csf_local_count = 0, csf_current_partition_range = None\<rparr>"

text \<open>The initial generation both operators take their partitions from.\<close>

definition initial_generation :: "scheduling_details \<Rightarrow> generation_spec result" where
  "initial_generation details =
     bind_result (ok_or (fst details) (Execution ''No generation provided'')) (\<lambda>generations.
     case generations of [] \<Rightarrow> Err (Execution ''No initial generation provided'') | g # _ \<Rightarrow> Ok g)"

definition count_star_init ::
  "('c, 'db, 'sst) rocks \<Rightarrow> 'c state_storage \<Rightarrow> 'c fs_storage \<Rightarrow> string \<Rightarrow> scheduling_details \<Rightarrow> string
     \<Rightarrow> ('c, 'db) count_star_function \<times> 'c node \<Rightarrow> (('c, 'db) count_star_function \<times> 'c node) result" where
  "count_star_init rk remote local_fs uuid details state_id s =
     bind_result (initial_generation details) (\<lambda>generation.
     bind_result (open_new rk (state_id @ ''-count-star'') (gs_partitions generation) remote local_fs uuid (snd s))
       (\<lambda>(state, disk).
          Ok ((fst s)\<lparr>csf_state := Some state, csf_current_partition_range := Some (gs_partitions generation)\<rparr>, disk)))"

definition count_key :: bytes where
  "count_key = map (\<lambda>c. of_nat (of_char c)) ''count''"

definition count_star_load ::
  "('c, 'db, 'sst) rocks \<Rightarrow> 'c json_lib \<Rightarrow> nat \<Rightarrow> string \<Rightarrow> path \<Rightarrow> 'c node \<Rightarrow> usize
     \<Rightarrow> ('c, 'db) count_star_function \<times> 'c node \<Rightarrow> (('c, 'db) count_star_function \<times> 'c node) result option" where
  "count_star_load rk json fuel uuid sst_dir rdisk checkpoint s =
     (case s of (f, disk) \<Rightarrow>
      if checkpoint > 0
      then case csf_state f of
             None \<Rightarrow> Some (Err (Internal ''State backend not initialized''))
           | Some state \<Rightarrow>
          (case csf_current_partition_range f of
             None \<Rightarrow> Some (Err (Internal ''Current partition range not set''))
           | Some prange \<Rightarrow>
               bind_run (move_to_checkpoint rk json fuel uuid sst_dir checkpoint prange rdisk (state, disk)) (\<lambda>st. Some
                 (bind_result (backend_get rk count_key st) (\<lambda>v.
                  bind_result
                    (case v of
                       None \<Rightarrow> Ok 0
                     | Some byte_vec \<Rightarrow>
                         ok_or (from_be_bytes byte_vec) (Internal ''State value for 'count' is not a valid u64''))
                    (\<lambda>n. Ok (f\<lparr>csf_state := Some (fst st), csf_local_count := n\<rparr>, snd st))))))
      else Some (Ok s))"

text \<open>
  One item of the combined input, or the end (\<open>None\<close>).  The result is the item emitted, if
  any.  \<open>uuid\<close> names the checkpoint directory of a marker.
\<close>

definition count_star_item ::
  "('c, 'db, 'sst) rocks \<Rightarrow> ('b \<Rightarrow> usize) \<Rightarrow> (u64 \<Rightarrow> 'b) \<Rightarrow> (u64 \<Rightarrow> string) \<Rightarrow> 'b sitem result option
     \<Rightarrow> ('c, 'db) count_star_function \<times> 'c node \<Rightarrow> 'b sitem option result \<times> ('c, 'db) count_star_function \<times> 'c node" where
  "count_star_item rk row_count count_batch uuid item s =
     (case s of (f, disk) \<Rightarrow>
      case item of
        Some (Err e) \<Rightarrow> (Err e, s)
      | Some (Ok (SGeneration _)) \<Rightarrow> (Err (Internal ''CountStarOperator does not support generation items''), s)
      | Some (Ok (SBatch record_batch)) \<Rightarrow>
          (Ok None, f\<lparr>csf_local_count := usize_add (csf_local_count f) (row_count record_batch)\<rparr>, disk)
      | Some (Ok (SMarker marker)) \<Rightarrow>
          (case csf_current_partition_range f of
             None \<Rightarrow> (Err (Internal ''Current partition range not set''), s)
           | Some prange \<Rightarrow>
          (case csf_state f of
             None \<Rightarrow> (Err (Internal ''State backend not initialized''), s)
           | Some state \<Rightarrow>
          (case backend_put rk count_key (to_be_bytes (csf_local_count f)) (state, disk) of
             Err e \<Rightarrow> (Err e, s)
           | Ok (state1, disk1) \<Rightarrow>
          (case backend_checkpoint rk (uuid (checkpoint_number marker)) (checkpoint_number marker) prange (state1, disk1) of
             Err e \<Rightarrow> (Err e, f\<lparr>csf_state := Some state1\<rparr>, disk1)
           | Ok (state2, disk2) \<Rightarrow> (Ok (Some (SMarker marker)), f\<lparr>csf_state := Some state2\<rparr>, disk2)))))
      | None \<Rightarrow> (Ok (Some (SBatch (count_batch (csf_local_count f)))), s))"

text \<open>The items of a stream that \<open>try_filter_map\<close> makes of a list.\<close>

fun try_filter_map ::
  "('i \<Rightarrow> 's \<Rightarrow> 'o option result \<times> 's) \<Rightarrow> 'i list \<Rightarrow> 's \<Rightarrow> 'o result list \<times> 's" where
  "try_filter_map f [] s = ([], s)"
| "try_filter_map f (item # items) s =
     (case f item s of (r, s') \<Rightarrow>
      case try_filter_map f items s' of (rs, s'') \<Rightarrow>
        ((case r of Ok None \<Rightarrow> rs | Ok (Some x) \<Rightarrow> Ok x # rs | Err e \<Rightarrow> Err e # rs), s''))"

definition count_star_stream ::
  "('c, 'db, 'sst) rocks \<Rightarrow> ('b \<Rightarrow> usize) \<Rightarrow> (u64 \<Rightarrow> 'b) \<Rightarrow> (u64 \<Rightarrow> string) \<Rightarrow> 'b sitem result list
     \<Rightarrow> ('c, 'db) count_star_function \<times> 'c node
     \<Rightarrow> 'b sitem result list \<times> ('c, 'db) count_star_function \<times> 'c node" where
  "count_star_stream rk row_count count_batch uuid items s =
     try_filter_map (count_star_item rk row_count count_batch uuid) (map Some items @ [None]) s"

definition count_star_run ::
  "('c, 'db, 'sst) rocks \<Rightarrow> ('b \<Rightarrow> usize) \<Rightarrow> (u64 \<Rightarrow> 'b) \<Rightarrow> (u64 \<Rightarrow> string)
     \<Rightarrow> ('b sitem result list list \<Rightarrow> 'b sitem result list) \<Rightarrow> (usize \<times> 'b sitem result fiber_stream) list
     \<Rightarrow> ('c, 'db) count_star_function \<times> 'c node
     \<Rightarrow> ((usize \<times> 'b sitem result fiber_stream) list \<times> ('c, 'db) count_star_function \<times> 'c node) result" where
  "count_star_run rk row_count count_batch uuid merge inputs s =
     (if inputs = [] then Err (Internal ''CountStarOperator expects exactly one input stream'')
      else if csf_state (fst s) = None then Err (Internal ''State backend not initialized'')
      else bind_result (combined merge (snd (last inputs))) (\<lambda>items.
             case count_star_stream rk row_count count_batch uuid items s of (out, s') \<Rightarrow>
               Ok ([(0, single_fiber_stream out)], s')))"

subsection \<open>Counting by key\<close>

record ('c, 'db) count_by_key_function =
  cbk_key_col :: string
  cbk_state :: "('c, 'db) state_backend option"
  cbk_local_counts :: "u64 \<Rightarrow> u64 option"
  cbk_current_partition_range :: "partition_range option"

definition count_by_key_new :: "string \<Rightarrow> ('c, 'db) count_by_key_function" where
  "count_by_key_new key_col =
     \<lparr>cbk_key_col = key_col, cbk_state = None, cbk_local_counts = Map.empty, cbk_current_partition_range = None\<rparr>"

definition count_by_key_init ::
  "('c, 'db, 'sst) rocks \<Rightarrow> 'c state_storage \<Rightarrow> 'c fs_storage \<Rightarrow> string \<Rightarrow> scheduling_details \<Rightarrow> string
     \<Rightarrow> ('c, 'db) count_by_key_function \<times> 'c node \<Rightarrow> (('c, 'db) count_by_key_function \<times> 'c node) result" where
  "count_by_key_init rk remote local_fs uuid details state_id s =
     bind_result (initial_generation details) (\<lambda>generation.
     bind_result (open_new rk (state_id @ ''-count-star'') (gs_partitions generation) remote local_fs uuid (snd s))
       (\<lambda>(state, disk).
          Ok ((fst s)\<lparr>cbk_state := Some state, cbk_current_partition_range := Some (gs_partitions generation)\<rparr>, disk)))"

text \<open>
  The value of the key column on a batch: a column with its value buffer, a scalar (which
  may be null), or something of another type.
\<close>

datatype key_column = KeyArray "u64 list" | KeyScalar "u64 option" | KeyOtherType

definition increment :: "u64 \<Rightarrow> (u64 \<Rightarrow> u64 option) \<Rightarrow> u64 \<Rightarrow> u64 option" where
  "increment key counts = counts(key \<mapsto> usize_add (case counts key of Some n \<Rightarrow> n | None \<Rightarrow> 0) 1)"

definition update_local_counts ::
  "(string \<Rightarrow> 'b \<Rightarrow> key_column result) \<Rightarrow> string \<Rightarrow> 'b \<Rightarrow> (u64 \<Rightarrow> u64 option) \<Rightarrow> (u64 \<Rightarrow> u64 option) result" where
  "update_local_counts key_values key_col record_batch counts =
     bind_result (key_values key_col record_batch) (\<lambda>value.
       case value of
         KeyArray vs \<Rightarrow> Ok (fold increment vs counts)
       | KeyScalar (Some v) \<Rightarrow> Ok (increment v counts)
       | KeyScalar None \<Rightarrow> Err (Internal ''Unsupported columnar value'')
       | KeyOtherType \<Rightarrow> Err (Internal ''Key column must be of type UInt64''))"

text \<open>The pairs of the state, decoded one by one.\<close>

fun decode_counts :: "(bytes \<times> bytes) result list \<Rightarrow> (u64 \<Rightarrow> u64 option) \<Rightarrow> (u64 \<Rightarrow> u64 option) result" where
  "decode_counts [] counts = Ok counts"
| "decode_counts (Err e # entries) counts = Err e"
| "decode_counts (Ok (k, v) # entries) counts =
     bind_result (ok_or (from_be_bytes k) (Internal ''State key is not a valid u64'')) (\<lambda>key.
     bind_result (ok_or (from_be_bytes v) (Internal ''State value is not a valid u64'')) (\<lambda>n.
     decode_counts entries (counts(key \<mapsto> n))))"

definition count_by_key_load ::
  "('c, 'db, 'sst) rocks \<Rightarrow> 'c json_lib \<Rightarrow> nat \<Rightarrow> string \<Rightarrow> path \<Rightarrow> 'c node \<Rightarrow> usize
     \<Rightarrow> ('c, 'db) count_by_key_function \<times> 'c node \<Rightarrow> (('c, 'db) count_by_key_function \<times> 'c node) result option" where
  "count_by_key_load rk json fuel uuid sst_dir rdisk checkpoint s =
     (case s of (f, disk) \<Rightarrow>
      if checkpoint > 0
      then case cbk_state f of
             None \<Rightarrow> Some (Err (Internal ''State backend not initialized''))
           | Some state \<Rightarrow>
          (case cbk_current_partition_range f of
             None \<Rightarrow> Some (Err (Internal ''Current partition range not set''))
           | Some prange \<Rightarrow>
               bind_run (move_to_checkpoint rk json fuel uuid sst_dir checkpoint prange rdisk (state, disk)) (\<lambda>st. Some
                 (bind_result (decode_counts (backend_iterate rk st) Map.empty) (\<lambda>counts.
                  Ok (f\<lparr>cbk_state := Some (fst st), cbk_local_counts := counts\<rparr>, snd st)))))
      else Some (Ok s))"

text \<open>
  Writing all counts, in the order \<open>keys\<close> in which the hash map is iterated.
\<close>

fun put_counts ::
  "('c, 'db, 'sst) rocks \<Rightarrow> (u64 \<times> u64) list \<Rightarrow> ('c, 'db) state_backend \<times> 'c node
     \<Rightarrow> unit result \<times> ('c, 'db) state_backend \<times> 'c node" where
  "put_counts rk [] st = (Ok (), st)"
| "put_counts rk ((key, n) # rest) st =
     (case backend_put rk (to_be_bytes key) (to_be_bytes n) st of
        Err e \<Rightarrow> (Err e, st)
      | Ok st' \<Rightarrow> put_counts rk rest st')"

definition count_by_key_item ::
  "('c, 'db, 'sst) rocks \<Rightarrow> (string \<Rightarrow> 'b \<Rightarrow> key_column result) \<Rightarrow> ((u64 \<times> u64) list \<Rightarrow> 'b)
     \<Rightarrow> ((u64 \<Rightarrow> u64 option) \<Rightarrow> (u64 \<times> u64) list) \<Rightarrow> (u64 \<Rightarrow> string) \<Rightarrow> 'b sitem result option
     \<Rightarrow> ('c, 'db) count_by_key_function \<times> 'c node
     \<Rightarrow> 'b sitem option result \<times> ('c, 'db) count_by_key_function \<times> 'c node" where
  "count_by_key_item rk key_values counts_batch entries uuid item s =
     (case s of (f, disk) \<Rightarrow>
      case item of
        Some (Err e) \<Rightarrow> (Err e, s)
      | Some (Ok (SGeneration _)) \<Rightarrow> (Err (Internal ''CountStarOperator does not support generation items''), s)
      | Some (Ok (SBatch record_batch)) \<Rightarrow>
          (case update_local_counts key_values (cbk_key_col f) record_batch (cbk_local_counts f) of
             Err e \<Rightarrow> (Err e, s)
           | Ok counts \<Rightarrow> (Ok None, f\<lparr>cbk_local_counts := counts\<rparr>, disk))
      | Some (Ok (SMarker marker)) \<Rightarrow>
          (case cbk_current_partition_range f of
             None \<Rightarrow> (Err (Internal ''Current partition range not set''), s)
           | Some prange \<Rightarrow>
          (case cbk_state f of
             None \<Rightarrow> (Err (Internal ''State backend not initialized''), s)
           | Some state \<Rightarrow>
          (case put_counts rk (entries (cbk_local_counts f)) (state, disk) of
             (Err e, state1, disk1) \<Rightarrow> (Err e, f\<lparr>cbk_state := Some state1\<rparr>, disk1)
           | (Ok _, state1, disk1) \<Rightarrow>
          (case backend_checkpoint rk (uuid (checkpoint_number marker)) (checkpoint_number marker) prange (state1, disk1) of
             Err e \<Rightarrow> (Err e, f\<lparr>cbk_state := Some state1\<rparr>, disk1)
           | Ok (state2, disk2) \<Rightarrow> (Ok (Some (SMarker marker)), f\<lparr>cbk_state := Some state2\<rparr>, disk2)))))
      | None \<Rightarrow> (Ok (Some (SBatch (counts_batch (entries (cbk_local_counts f))))), s))"

definition count_by_key_run ::
  "('c, 'db, 'sst) rocks \<Rightarrow> (string \<Rightarrow> 'b \<Rightarrow> key_column result) \<Rightarrow> ((u64 \<times> u64) list \<Rightarrow> 'b)
     \<Rightarrow> ((u64 \<Rightarrow> u64 option) \<Rightarrow> (u64 \<times> u64) list) \<Rightarrow> (u64 \<Rightarrow> string)
     \<Rightarrow> ('b sitem result list list \<Rightarrow> 'b sitem result list) \<Rightarrow> (usize \<times> 'b sitem result fiber_stream) list
     \<Rightarrow> ('c, 'db) count_by_key_function \<times> 'c node
     \<Rightarrow> ((usize \<times> 'b sitem result fiber_stream) list \<times> ('c, 'db) count_by_key_function \<times> 'c node) result" where
  "count_by_key_run rk key_values counts_batch entries uuid merge inputs s =
     (if inputs = [] then Err (Internal ''CountStarOperator expects exactly one input stream'')
      else if cbk_state (fst s) = None then Err (Internal ''State backend not initialized'')
      else bind_result (combined merge (snd (last inputs))) (\<lambda>items.
             case try_filter_map (count_by_key_item rk key_values counts_batch entries uuid) (map Some items @ [None]) s of
               (out, s') \<Rightarrow> Ok ([(0, single_fiber_stream out)], s')))"

subsection \<open>Counting and restoring\<close>

definition counting ::
  "('c, 'db) rocks_spec \<Rightarrow> path \<Rightarrow> partition_range \<Rightarrow> snapshots \<Rightarrow> string set
     \<Rightarrow> ('c, 'db) count_star_function \<times> 'c node \<Rightarrow> bool" where
  "counting sp dir r a used s \<longleftrightarrow> csf_current_partition_range (fst s) = Some r \<and>
     csf_local_count (fst s) < usize_limit \<and>
     (\<exists>st. csf_state (fst s) = Some st \<and> refines sp dir a used (st, snd s))"

definition rows_of :: "('b \<Rightarrow> usize) \<Rightarrow> 'b sitem list \<Rightarrow> nat" where
  "rows_of row_count items = sum_list (map (\<lambda>item. case item of SBatch b \<Rightarrow> row_count b | _ \<Rightarrow> 0) items)"

definition item_markers :: "'b sitem list \<Rightarrow> u64 list" where
  "item_markers items = List.map_filter (\<lambda>item. case item of SMarker m \<Rightarrow> Some (checkpoint_number m) | _ \<Rightarrow> None) items"

definition plain_items :: "'b sitem list \<Rightarrow> bool" where
  "plain_items items \<longleftrightarrow> list_all (\<lambda>item. \<forall>g. item \<noteq> SGeneration g) items"

lemma item_lists [simp]:
  "rows_of rc [] = 0" "rows_of rc (SBatch b # xs) = rc b + rows_of rc xs" "rows_of rc (SMarker m # xs) = rows_of rc xs"
  "rows_of rc (xs @ ys) = rows_of rc xs + rows_of rc ys"
  "item_markers [] = []" "item_markers (SBatch b # xs) = item_markers xs"
  "item_markers (SMarker m # xs) = checkpoint_number m # item_markers xs"
  "item_markers (xs @ ys) = item_markers xs @ item_markers ys"
  "plain_items []" "plain_items (x # xs) \<longleftrightarrow> (\<forall>g. x \<noteq> SGeneration g) \<and> plain_items xs"
  "plain_items (xs @ ys) \<longleftrightarrow> plain_items xs \<and> plain_items ys"
  by (simp_all add: rows_of_def item_markers_def plain_items_def List.map_filter_def)

lemma try_filter_map_append:
  "try_filter_map f (xs @ ys) s =
     (case try_filter_map f xs s of (rs, s') \<Rightarrow> case try_filter_map f ys s' of (rs', s'') \<Rightarrow> (rs @ rs', s''))"
  by (induction xs arbitrary: s) (auto split: prod.splits result.splits option.splits)

lemma star_marker:
  assumes "rocks_ok rk sp" and "counting sp dir r a used s" and "sn_saved a n (uuid n) = None"
  obtains s' where "count_star_item rk rc cb uuid (Some (Ok (SMarker (Marker n)))) s = (Ok (Some (SMarker (Marker n))), s')"
    and "counting sp dir r (snapshot_save (uuid n) n
      (snapshot_put count_key (to_be_bytes (csf_local_count (fst s))) a)) used s'"
    and "csf_local_count (fst s') = csf_local_count (fst s)"
proof -
  obtain f d where s: "s = (f, d)" by (cases s)
  obtain st where st: "csf_state f = Some st" "refines sp dir a used (st, d)" "csf_current_partition_range f = Some r"
    "csf_local_count f < usize_limit" using assms(2) by (auto simp: counting_def s)
  let ?a = "snapshot_put count_key (to_be_bytes (csf_local_count f)) a"
  obtain st1 d1 where 1: "backend_put rk count_key (to_be_bytes (csf_local_count f)) (st, d) = Ok (st1, d1)"
    "refines sp dir ?a used (st1, d1)"
    using put_refines [OF assms(1) st(2)] by (metis surj_pair)
  have "sn_saved ?a n (uuid n) = None" using assms(3) by simp
  from checkpoint_refines [OF assms(1) 1(2) this, of r] obtain st2 d2 where
    "backend_checkpoint rk (uuid n) n r (st1, d1) = Ok (st2, d2)"
    "refines sp dir (snapshot_save (uuid n) n ?a) used (st2, d2)" by (metis surj_pair)
  with 1(1) st that [of "(f\<lparr>csf_state := Some st2\<rparr>, d2)"] show ?thesis
    by (simp add: count_star_item_def s counting_def)
qed

text \<open>
  A run over batches and markers: the count grows by the rows, the markers are passed on, and
  each marker saves the count of the rows before it.
\<close>

lemma star_items:
  assumes "rocks_ok rk sp" and "counting sp dir r a used s" and "plain_items xs"
    and "distinct (item_markers xs)" and "\<forall>n \<in> set (item_markers xs). sn_saved a n (uuid n) = None"
  shows "\<exists>out a' s'. try_filter_map (count_star_item rk rc cb uuid) (map (Some \<circ> Ok) xs) s = (map Ok out, s') \<and>
    counting sp dir r a' used s' \<and> csf_local_count (fst s') = (csf_local_count (fst s) + rows_of rc xs) mod usize_limit \<and>
    (\<forall>n v. \<not> (n \<in> set (item_markers xs) \<and> v = uuid n) \<longrightarrow> sn_saved a' n v = sn_saved a n v) \<and>
    (\<forall>pre m post. xs = pre @ SMarker m # post \<longrightarrow> (\<exists>c. sn_saved a' (checkpoint_number m) (uuid (checkpoint_number m)) = Some c \<and>
       c count_key = Some (to_be_bytes ((csf_local_count (fst s) + rows_of rc pre) mod usize_limit))))"
  using assms(2-5)
proof (induction xs arbitrary: s a)
  case Nil
  then have "csf_local_count (fst s) < usize_limit" by (simp add: counting_def)
  with Nil show ?case by (intro exI [of _ "[]"] exI [of _ a] exI [of _ s]) simp
next
  case (Cons x xs)
  show ?case
  proof (cases x)
    case (SBatch b)
    obtain f d where s: "s = (f, d)" by (cases s)
    let ?s = "(f\<lparr>csf_local_count := usize_add (csf_local_count f) (rc b)\<rparr>, d)"
    have step: "count_star_item rk rc cb uuid (Some (Ok (SBatch b))) s = (Ok None, ?s)" by (simp add: count_star_item_def s)
    have cnt: "counting sp dir r a used ?s"
      using Cons.prems(1) by (simp add: counting_def s usize_add_def usize_limit_def)
    have "plain_items xs" "distinct (item_markers xs)" "\<forall>n \<in> set (item_markers xs). sn_saved a n (uuid n) = None"
      using Cons.prems(2-4) SBatch by simp_all
    from Cons.IH [OF cnt this] obtain out a' s' where IH:
      "try_filter_map (count_star_item rk rc cb uuid) (map (Some \<circ> Ok) xs) ?s = (map Ok out, s')"
      "counting sp dir r a' used s'"
      "csf_local_count (fst s') = (csf_local_count (fst ?s) + rows_of rc xs) mod usize_limit"
      "\<forall>n v. \<not> (n \<in> set (item_markers xs) \<and> v = uuid n) \<longrightarrow> sn_saved a' n v = sn_saved a n v"
      "\<forall>pre m post. xs = pre @ SMarker m # post \<longrightarrow> (\<exists>c. sn_saved a' (checkpoint_number m) (uuid (checkpoint_number m)) = Some c \<and>
         c count_key = Some (to_be_bytes ((csf_local_count (fst ?s) + rows_of rc pre) mod usize_limit)))" by blast
    have count: "(csf_local_count (fst ?s) + k) mod usize_limit = (csf_local_count (fst s) + (rc b + k)) mod usize_limit" for k
      by (simp add: s usize_add_def mod_add_left_eq add.assoc)
    have "\<exists>c. sn_saved a' (checkpoint_number m) (uuid (checkpoint_number m)) = Some c \<and>
        c count_key = Some (to_be_bytes ((csf_local_count (fst s) + rows_of rc pre) mod usize_limit))"
      if "x # xs = pre @ SMarker m # post" for pre m post
    proof -
      from that SBatch obtain pre' where "pre = SBatch b # pre'" "xs = pre' @ SMarker m # post" by (cases pre) auto
      with IH(5) count show ?thesis by auto
    qed
    with IH(1-4) step count SBatch show ?thesis by (intro exI [of _ out] exI [of _ a'] exI [of _ s']) (auto simp: comp_def)
  next
    case (SMarker m)
    define n where "n = checkpoint_number m"
    have m: "m = Marker n" by (cases m) (simp add: n_def)
    have "sn_saved a n (uuid n) = None" using Cons.prems(4) SMarker by (auto simp: m)
    from star_marker [where uuid = uuid, OF assms(1) Cons.prems(1) this, of rc cb] obtain s1 where
      step: "count_star_item rk rc cb uuid (Some (Ok (SMarker (Marker n)))) s = (Ok (Some (SMarker (Marker n))), s1)"
      and cnt: "counting sp dir r (snapshot_save (uuid n) n
        (snapshot_put count_key (to_be_bytes (csf_local_count (fst s))) a)) used s1"
      and same: "csf_local_count (fst s1) = csf_local_count (fst s)" by blast
    let ?a = "snapshot_save (uuid n) n (snapshot_put count_key (to_be_bytes (csf_local_count (fst s))) a)"
    have "plain_items xs" and later: "distinct (item_markers xs)" "n \<notin> set (item_markers xs)"
      and "\<forall>k \<in> set (item_markers xs). sn_saved ?a k (uuid k) = None"
      using Cons.prems(2-4) SMarker by (auto simp: m)
    from Cons.IH [OF cnt this(1,2,4)] obtain out a' s' where IH:
      "try_filter_map (count_star_item rk rc cb uuid) (map (Some \<circ> Ok) xs) s1 = (map Ok out, s')"
      "counting sp dir r a' used s'"
      "csf_local_count (fst s') = (csf_local_count (fst s) + rows_of rc xs) mod usize_limit"
      "\<forall>k v. \<not> (k \<in> set (item_markers xs) \<and> v = uuid k) \<longrightarrow> sn_saved a' k v = sn_saved ?a k v"
      "\<forall>pre m post. xs = pre @ SMarker m # post \<longrightarrow> (\<exists>c. sn_saved a' (checkpoint_number m) (uuid (checkpoint_number m)) = Some c \<and>
         c count_key = Some (to_be_bytes ((csf_local_count (fst s) + rows_of rc pre) mod usize_limit)))"
      unfolding same by blast
    have lt: "csf_local_count (fst s) < usize_limit" using Cons.prems(1) by (simp add: counting_def)
    have saved: "sn_saved a' n (uuid n) = Some ((sn_now a)(count_key \<mapsto> to_be_bytes (csf_local_count (fst s))))"
      using IH(4) later(2) by simp
    have "\<exists>c. sn_saved a' (checkpoint_number m') (uuid (checkpoint_number m')) = Some c \<and>
        c count_key = Some (to_be_bytes ((csf_local_count (fst s) + rows_of rc pre) mod usize_limit))"
      if "x # xs = pre @ SMarker m' # post" for pre m' post
    proof (cases pre)
      case Nil
      with that SMarker have "checkpoint_number m' = n" by (auto simp: m)
      with Nil saved lt show ?thesis by simp
    next
      case (Cons y pre')
      with that SMarker have "pre = SMarker m # pre'" "xs = pre' @ SMarker m' # post" by auto
      with IH(5) show ?thesis by auto
    qed
    moreover have "\<forall>k v. \<not> (k \<in> set (item_markers (x # xs)) \<and> v = uuid k) \<longrightarrow> sn_saved a' k v = sn_saved a k v"
      using IH(4) SMarker by (auto simp: m)
    ultimately show ?thesis
      using IH(1-3) step SMarker
      by (intro exI [of _ "SMarker m # out"] exI [of _ a'] exI [of _ s'] conjI) (simp_all add: m comp_def)
  next
    case (SGeneration g)
    with Cons.prems(2) show ?thesis by simp
  qed
qed

lemma star_load:
  assumes "rocks_ok rk sp" and "counting sp dir r a used s" and "0 < n" and "w \<notin> used"
    and "sn_saved a n \<noteq> Map.empty" and "\<And>v c. sn_saved a n v = Some c \<Longrightarrow> c count_key = Some (to_be_bytes k)"
    and "k < usize_limit"
  obtains s' c where "count_star_load rk json fuel w sst_dir rdisk n s = Some (Ok s')"
    and "counting sp dir r (a\<lparr>sn_now := c\<rparr>) (insert w used) s'" and "csf_local_count (fst s') = k"
proof -
  obtain f d where s: "s = (f, d)" by (cases s)
  obtain st where st: "csf_state f = Some st" "refines sp dir a used (st, d)" "csf_current_partition_range f = Some r"
    using assms(2) by (auto simp: counting_def s)
  from move_refines [OF assms(1) st(2) assms(4,5)] obtain st1 v c where
    mv: "move_to_checkpoint rk json fuel w sst_dir n r rdisk (st, d) = Some (Ok st1)"
    "refines sp dir (a\<lparr>sn_now := c\<rparr>) (insert w used) st1" "sn_saved a n v = Some c" by metis
  have "backend_get rk count_key st1 = Ok (Some (to_be_bytes k))"
    using refines_reads(1) [OF assms(1) mv(2), of count_key] assms(6) [OF mv(3)] by simp
  with mv st assms(3,7) that [of "(f\<lparr>csf_state := Some (fst st1), csf_local_count := k\<rparr>, snd st1)" c] show ?thesis
    by (simp add: count_star_load_def s be_bytes_round_trip counting_def)
qed

lemma star_init:
  assumes "rocks_ok rk sp" and "disk_ok dir disk" and "fst details = Some (generation # generations)"
    and "\<And>q. fs_view disk (dir @ create_root_directory_path (sid @ ''-count-star'') (gs_partitions generation) @ q) = NoEntry"
    and "fs_view disk (dir @ [sid @ ''-count-star'']) \<in> {NoEntry, DirEntry}"
  obtains s where "count_star_init rk remote (prefixed_storage dir) u details sid (count_star_new, disk) = Ok s"
    and "counting sp dir (gs_partitions generation) no_snapshots {u} s"
    and "csf_local_count (fst s) = 0"
proof -
  obtain b d where "open_new rk (sid @ ''-count-star'') (gs_partitions generation) remote (prefixed_storage dir) u disk = Ok (b, d)"
    "refines sp dir no_snapshots {u} (b, d)"
    using open_new_refines [OF assms(1,2,4,5), of remote u] by (metis surj_pair)
  with assms(3) that [of "(count_star_new\<lparr>csf_state := Some b, csf_current_partition_range := Some (gs_partitions generation)\<rparr>, d)"]
  show ?thesis
    by (simp add: count_star_init_def initial_generation_def counting_def count_star_new_def usize_limit_def)
qed

text \<open>
  C4: the count survives a failure.  A counting operator is initialised, reads batches and
  markers up to a checkpoint marker and some more that are lost in a failure; it is then loaded
  at that checkpoint and reads the rest of the input from there.  The rest may replay markers of
  the lost part: their checkpoints are taken again, under a new identifier.  Every step succeeds,
  and the batch it finally emits is the number of rows before the marker plus the rows read after
  the restart: none of the lost rows is counted, and none is missing.
\<close>

theorem count_star_recovers:
  assumes "rocks_ok rk sp" and "disk_ok dir disk" and "fst details = Some (generation # generations)"
    and "\<And>q. fs_view disk (dir @ create_root_directory_path (sid @ ''-count-star'') (gs_partitions generation) @ q) = NoEntry"
    and "fs_view disk (dir @ [sid @ ''-count-star'']) \<in> {NoEntry, DirEntry}"
    and "plain_items (pre @ lost @ rest)" and "0 < n" and "w \<noteq> u"
    and "distinct (item_markers (pre @ SMarker (Marker n) # lost))" and "distinct (item_markers rest)"
    and "\<forall>k \<in> set (item_markers (pre @ SMarker (Marker n) # lost)) \<inter> set (item_markers rest). uuid' k \<noteq> uuid k"
  shows "\<exists>s0 out1 s1 s2 out2 s3.
    count_star_init rk remote (prefixed_storage dir) u details sid (count_star_new, disk) = Ok s0 \<and>
    try_filter_map (count_star_item rk row_count count_batch uuid)
      (map (Some \<circ> Ok) (pre @ SMarker (Marker n) # lost)) s0 = (map Ok out1, s1) \<and>
    count_star_load rk json fuel w sst_dir rdisk n s1 = Some (Ok s2) \<and>
    count_star_stream rk row_count count_batch uuid' (map Ok rest) s2 =
      (map Ok out2 @ [Ok (SBatch (count_batch ((rows_of row_count pre + rows_of row_count rest) mod usize_limit)))], s3)"
proof -
  let ?r = "gs_partitions generation" and ?xs = "pre @ SMarker (Marker n) # lost"
  obtain s0 where s0: "count_star_init rk remote (prefixed_storage dir) u details sid (count_star_new, disk) = Ok s0"
    "counting sp dir ?r no_snapshots {u} s0" "csf_local_count (fst s0) = 0"
    by (rule star_init [OF assms(1-5)])
  have "plain_items ?xs" "\<forall>k \<in> set (item_markers ?xs). sn_saved no_snapshots k (uuid k) = None"
    using assms(6) by auto
  from star_items [where uuid = uuid, OF assms(1) s0(2) this(1) assms(9) this(2), of row_count count_batch] obtain out1 a1 s1 where s1:
    "try_filter_map (count_star_item rk row_count count_batch uuid) (map (Some \<circ> Ok) ?xs) s0 = (map Ok out1, s1)"
    "counting sp dir ?r a1 {u} s1"
    and only: "\<forall>k v. \<not> (k \<in> set (item_markers ?xs) \<and> v = uuid k) \<longrightarrow> sn_saved a1 k v = sn_saved no_snapshots k v"
    and saved: "\<forall>pre m post. ?xs = pre @ SMarker m # post \<longrightarrow>
      (\<exists>c. sn_saved a1 (checkpoint_number m) (uuid (checkpoint_number m)) = Some c \<and>
       c count_key = Some (to_be_bytes ((csf_local_count (fst s0) + rows_of row_count pre) mod usize_limit)))"
    by blast
  obtain c where c: "sn_saved a1 n (uuid n) = Some c" "c count_key = Some (to_be_bytes (rows_of row_count pre mod usize_limit))"
    using saved [rule_format, of pre "Marker n" lost] s0(3) by auto
  have "sn_saved a1 n \<noteq> Map.empty" using c(1) by auto
  moreover have "c' count_key = Some (to_be_bytes (rows_of row_count pre mod usize_limit))" if "sn_saved a1 n v = Some c'" for v c'
    using only [rule_format, of n v] that c by (cases "v = uuid n") simp_all
  moreover have "rows_of row_count pre mod usize_limit < usize_limit" "w \<notin> {u}" using assms(8) by (simp_all add: usize_limit_def)
  ultimately obtain s2 c2 where s2:
    "count_star_load rk json fuel w sst_dir rdisk n s1 = Some (Ok s2)"
    "counting sp dir ?r (a1\<lparr>sn_now := c2\<rparr>) {w, u} s2"
    "csf_local_count (fst s2) = rows_of row_count pre mod usize_limit"
    using star_load [OF assms(1) s1(2) assms(7)] by metis
  have "plain_items rest" using assms(6) by simp
  moreover have "\<forall>k \<in> set (item_markers rest). sn_saved (a1\<lparr>sn_now := c2\<rparr>) k (uuid' k) = None"
    using assms(11) only by auto
  ultimately obtain out2 s3 where
    s3: "try_filter_map (count_star_item rk row_count count_batch uuid') (map (Some \<circ> Ok) rest) s2 = (map Ok out2, s3)"
    "csf_local_count (fst s3) = (rows_of row_count pre mod usize_limit + rows_of row_count rest) mod usize_limit"
    using star_items [where uuid = uuid', OF assms(1) s2(2) _ assms(10), of row_count count_batch] unfolding s2(3) by blast
  then have "count_star_stream rk row_count count_batch uuid' (map Ok rest) s2 =
      (map Ok out2 @ [Ok (SBatch (count_batch ((rows_of row_count pre + rows_of row_count rest) mod usize_limit)))], s3)"
    by (cases s3) (simp add: count_star_stream_def try_filter_map_append comp_def count_star_item_def mod_add_left_eq)
  with s0(1) s1(1) s2(1) show ?thesis by blast
qed

theorem count_star_recovers_witness:
  "\<exists>s0 out1 s1 s2 out2 s3.
    count_star_init small_rocks example_remote (prefixed_storage []) ''u''
      (Some [\<lparr>gs_id = ''g'', gs_partitions = pr_unit, gs_start_conditions = []\<rparr>], None) ''op'' (count_star_new, Dir []) = Ok s0 \<and>
    try_filter_map (count_star_item small_rocks id id (\<lambda>_. ''v''))
      (map (Some \<circ> Ok) ([SBatch 3] @ SMarker (Marker 1) # [SBatch 9, SMarker (Marker 2)])) s0 = (map Ok out1, s1) \<and>
    count_star_load small_rocks small_json 0 ''w'' [] (Dir []) 1 s1 = Some (Ok s2) \<and>
    count_star_stream small_rocks id id (\<lambda>_. ''v2'') (map Ok [SBatch 4, SMarker (Marker 2)]) s2 = (map Ok out2 @ [Ok (SBatch 7)], s3)"
proof -
  have "\<exists>s0 out1 s1 s2 out2 s3.
    count_star_init small_rocks example_remote (prefixed_storage []) ''u''
      (Some [\<lparr>gs_id = ''g'', gs_partitions = pr_unit, gs_start_conditions = []\<rparr>], None) ''op'' (count_star_new, Dir []) = Ok s0 \<and>
    try_filter_map (count_star_item small_rocks id id (\<lambda>_. ''v''))
      (map (Some \<circ> Ok) ([SBatch 3] @ SMarker (Marker 1) # [SBatch 9, SMarker (Marker 2)])) s0 = (map Ok out1, s1) \<and>
    count_star_load small_rocks small_json 0 ''w'' [] (Dir []) 1 s1 = Some (Ok s2) \<and>
    count_star_stream small_rocks id id (\<lambda>_. ''v2'') (map Ok [SBatch 4, SMarker (Marker 2)]) s2 =
      (map Ok out2 @ [Ok (SBatch (id ((rows_of id [SBatch 3] + rows_of id [SBatch 4, SMarker (Marker 2)]) mod usize_limit)))], s3)"
    by (intro count_star_recovers [OF small_rocks_ok]) (auto simp: create_root_directory_path_def disk_ok_def)
  then show ?thesis by (simp add: usize_limit_def)
qed

subsection \<open>Counts by key in the state\<close>

definition bounded_counts :: "(u64 \<Rightarrow> u64 option) \<Rightarrow> bool" where
  "bounded_counts m \<longleftrightarrow> (\<forall>k n. m k = Some n \<longrightarrow> k < usize_limit \<and> n < usize_limit)"

definition encoded :: "(u64 \<Rightarrow> u64 option) \<Rightarrow> content" where
  "encoded m kb = (case from_be_bytes kb of Some k \<Rightarrow> map_option to_be_bytes (m k) | None \<Rightarrow> None)"

lemma to_be_bytes_eq_iff: "k < usize_limit \<Longrightarrow> to_be_bytes k = kb \<longleftrightarrow> from_be_bytes kb = Some k"
  using be_bytes_value [of kb] be_bytes_round_trip [of k]
  by (auto simp: from_be_bytes_def to_be_bytes_def split: if_splits)

text \<open>Decoding the pairs of an encoded map gives the map back.\<close>

lemma decode_encoded:
  assumes "\<And>kb vb. (kb, vb) \<in> set kvs \<Longrightarrow> encoded m kb = Some vb" and "bounded_counts m"
  shows "decode_counts (map Ok kvs) c0 = Ok (\<lambda>k. if k < usize_limit \<and> to_be_bytes k \<in> fst ` set kvs then m k else c0 k)"
  using assms(1)
proof (induction kvs arbitrary: c0)
  case (Cons kv kvs)
  obtain kb vb where kv: "kv = (kb, vb)" by (cases kv)
  with Cons.prems [of kb vb] obtain k n where k: "from_be_bytes kb = Some k" "m k = Some n" "vb = to_be_bytes n"
    by (auto simp: encoded_def split: option.splits)
  then have lt: "k < usize_limit" "n < usize_limit" using assms(2) by (auto simp: bounded_counts_def)
  have "decode_counts (map Ok (kv # kvs)) c0 = decode_counts (map Ok kvs) (c0(k \<mapsto> n))"
    using k lt by (simp add: kv be_bytes_round_trip)
  also have "\<dots> = Ok (\<lambda>j. if j < usize_limit \<and> to_be_bytes j \<in> fst ` set kvs then m j else (c0(k \<mapsto> n)) j)"
    using Cons by auto
  also have "(\<lambda>j. if j < usize_limit \<and> to_be_bytes j \<in> fst ` set kvs then m j else (c0(k \<mapsto> n)) j) =
      (\<lambda>j. if j < usize_limit \<and> to_be_bytes j \<in> fst ` set (kv # kvs) then m j else c0 j)"
  proof -
    have "to_be_bytes j = kb \<longleftrightarrow> j = k" if "j < usize_limit" for j
      using to_be_bytes_eq_iff [OF that, of kb] k(1) by auto
    with k lt show ?thesis by (auto simp: kv fun_eq_iff)
  qed
  finally show ?case .
qed simp

lemma decode_state:
  assumes "map_of kvs = encoded m" and "distinct (map fst kvs)" and "bounded_counts m"
  shows "decode_counts (map Ok kvs) Map.empty = Ok m"
proof -
  have "decode_counts (map Ok kvs) Map.empty =
      Ok (\<lambda>k. if k < usize_limit \<and> to_be_bytes k \<in> fst ` set kvs then m k else None)"
    using assms by (intro decode_encoded) (auto simp: assms(1) [symmetric])
  moreover have "(if k < usize_limit \<and> to_be_bytes k \<in> fst ` set kvs then m k else None) = m k" for k
  proof (cases "m k")
    case (Some n)
    then have "k < usize_limit" using assms(3) by (auto simp: bounded_counts_def)
    moreover from this Some have "encoded m (to_be_bytes k) \<noteq> None" by (simp add: encoded_def be_bytes_round_trip)
    then have "to_be_bytes k \<in> fst ` set kvs" by (simp add: assms(1) [symmetric] map_of_eq_None_iff)
    ultimately show ?thesis by simp
  qed simp
  ultimately show ?thesis by simp
qed

lemma put_counts_refines:
  assumes "rocks_ok rk sp" and "refines sp dir a used st"
  shows "\<exists>st'. put_counts rk es st = (Ok (), st') \<and>
    refines sp dir (a\<lparr>sn_now := fold (\<lambda>(k, n) c. c(to_be_bytes k \<mapsto> to_be_bytes n)) es (sn_now a)\<rparr>) used st'"
  using assms(2)
proof (induction es arbitrary: a st)
  case (Cons e es)
  obtain k n where e: "e = (k, n)" by (cases e)
  obtain st1 where 1: "backend_put rk (to_be_bytes k) (to_be_bytes n) st = Ok st1"
    "refines sp dir (snapshot_put (to_be_bytes k) (to_be_bytes n) a) used st1"
    using put_refines [OF assms(1), of dir a used] Cons.prems by (metis surj_pair)
  from Cons.IH [OF 1(2)] 1(1) show ?case by (auto simp: e snapshot_put_def)
qed auto

lemma fold_counts:
  assumes "\<And>k n. (k, n) \<in> set es \<Longrightarrow> k < usize_limit"
  shows "fold (\<lambda>(k, n) c. c(to_be_bytes k \<mapsto> to_be_bytes n)) es c0 kb =
    (case from_be_bytes kb of
       Some k \<Rightarrow> (case map_of (rev es) k of Some n \<Rightarrow> Some (to_be_bytes n) | None \<Rightarrow> c0 kb)
     | None \<Rightarrow> c0 kb)"
  using assms
proof (induction es arbitrary: c0)
  case (Cons e es)
  obtain k n where e: "e = (k, n)" by (cases e)
  have "k < usize_limit" using Cons.prems e by auto
  note iff = to_be_bytes_eq_iff [OF this, of kb]
  let ?f = "\<lambda>(k, n) c. c(to_be_bytes k \<mapsto> to_be_bytes n)" and ?c = "c0(to_be_bytes k \<mapsto> to_be_bytes n)"
  have "fold ?f (e # es) c0 kb = fold ?f es ?c kb" by (simp add: e del: fun_upd_apply)
  also have "\<dots> = (case from_be_bytes kb of
       Some k \<Rightarrow> (case map_of (rev es) k of Some n \<Rightarrow> Some (to_be_bytes n) | None \<Rightarrow> ?c kb)
     | None \<Rightarrow> ?c kb)"
    by (rule Cons.IH) (use Cons.prems in auto)
  also have "\<dots> = (case from_be_bytes kb of
       Some k \<Rightarrow> (case map_of (rev (e # es)) k of Some n \<Rightarrow> Some (to_be_bytes n) | None \<Rightarrow> c0 kb)
     | None \<Rightarrow> c0 kb)"
    using iff by (auto simp: e map_add_def split: option.splits)
  finally show ?case .
qed (simp split: option.splits)



end
