(* ===== verification/Flight_Encoder.thy ===== *)
theory Flight_Encoder
  imports Action_Stream "HOL-Library.Word"
begin

text \<open>
  \<open>src/streaming/processor/flight_data_encoder.rs\<close> and \<open>stream_serialization.rs\<close>: the
  encoder that turns a stream of batches and markers into Arrow Flight messages, and the two
  functions that put a stream on the wire and read it back.

  Arrow is a parameter: the record \<open>flight_lib\<close> holds the functions of arrays, batches, the
  IPC writer and the dictionary tracker the code calls.  Schemas are a datatype with the
  nested types the code distinguishes.  An encoder is a record with the fields of
  \<open>FlightDataEncoder\<close>; \<open>encoder_poll_next\<close> is its \<open>poll_next\<close> over an input that is always
  ready, and \<open>encoder_run\<close> the messages of all polls until the end.

  The theorems show that a batch is split into adjacent parts that are no larger than the
  limit if its rows are of equal size, that the preparation of a schema at the top level
  agrees with the recursive one and leaves no dictionaries when they are hydrated, and that
  what is decoded is what was encoded: the same rows and markers in the same order.  Of casts
  Arrow is only relied on to keep the values when a type is unpacked.
\<close>

type_synonym buffer = "8 word list"

subsection \<open>Schemas\<close>

datatype union_mode = Sparse | Dense

datatype data_type =
    Plain string
  | DList field
  | LargeList field
  | FixedSizeList field int
  | Struct "field list"
  | Union "(int \<times> field) list" union_mode
  | Dictionary data_type data_type
  | DMap field bool
and field = Field (field_name: string) (field_data_type: data_type) (is_nullable: bool)
    (field_metadata: "(string \<times> string) list") (field_dict_id: int) (dict_ordered: bool)

record schema =
  sc_fields :: "field list"
  sc_metadata :: "(string \<times> string) list"

definition field_new :: "string \<Rightarrow> data_type \<Rightarrow> bool \<Rightarrow> field" where
  "field_new name t nullable = Field name t nullable [] 0 False"

fun with_metadata :: "field \<Rightarrow> (string \<times> string) list \<Rightarrow> field" where
  "with_metadata (Field name t nullable _ i ord) md = Field name t nullable md i ord"

fun is_nested :: "data_type \<Rightarrow> bool" where
  "is_nested (Plain _) = False"
| "is_nested (Dictionary _ v) = is_nested v"
| "is_nested _ = True"

definition dict_is_ordered :: "field \<Rightarrow> bool" where
  "dict_is_ordered f = (case field_data_type f of Dictionary _ _ \<Rightarrow> dict_ordered f | _ \<Rightarrow> False)"

subsection \<open>The Arrow library\<close>

datatype flight_error =
    ArrowError string
  | NotYetImplemented string
  | Tonic string
  | ProtocolError string
  | DecodeError string
  | ExternalError string
  | FlightPanic string

record 'y flight_data =
  fd_flight_descriptor :: "string option"
  fd_data_header :: 'y
  fd_app_metadata :: buffer
  fd_data_body :: 'y

text \<open>
  Batches \<open>'b\<close>, arrays \<open>'a\<close>, IPC options \<open>'o\<close> and the dictionary tracker \<open>'d\<close> are
  opaque.  A function that returns a \<open>Result\<close> with an \<open>ArrowError\<close> has the text of the
  error on the left.
\<close>

record ('b, 'a, 'o, 'd, 'y) flight_lib =
  al_schema :: "'b \<Rightarrow> schema"
  al_columns :: "'b \<Rightarrow> 'a list"
  al_num_rows :: "'b \<Rightarrow> usize"
  al_slice :: "'b \<Rightarrow> usize \<Rightarrow> usize \<Rightarrow> 'b"
  al_try_new :: "schema \<Rightarrow> 'a list \<Rightarrow> usize \<Rightarrow> string + 'b"
  al_buffer_size :: "'a \<Rightarrow> usize"
  al_array_type :: "'a \<Rightarrow> data_type"
  al_cast :: "'a \<Rightarrow> data_type \<Rightarrow> string + 'a"
  al_union_child :: "'a \<Rightarrow> int \<Rightarrow> 'a"
  al_union_new :: "(int \<times> field) list \<Rightarrow> 'a \<Rightarrow> 'a list \<Rightarrow> string + 'a"
  al_default_options :: 'o
  al_preserve_dict_id :: "'o \<Rightarrow> bool"
  al_tracker_new :: "bool \<Rightarrow> bool \<Rightarrow> 'd"
  al_set_dict_id :: "field \<Rightarrow> 'd \<Rightarrow> int \<times> 'd"
  al_schema_message :: "schema \<Rightarrow> 'o \<Rightarrow> 'y flight_data"
  al_encoded_batch :: "'b \<Rightarrow> 'd \<Rightarrow> 'o \<Rightarrow> (string + 'y flight_data list \<times> 'y flight_data) \<times> 'd"
  al_none_message :: 'y
  al_empty_bytes :: 'y

fun bind_sum :: "'e + 'a \<Rightarrow> ('a \<Rightarrow> 'e + 'c) \<Rightarrow> 'e + 'c" where
  "bind_sum (Inl e) f = Inl e"
| "bind_sum (Inr x) f = f x"

fun collect_sum :: "('e + 'a) list \<Rightarrow> 'e + 'a list" where
  "collect_sum [] = Inr []"
| "collect_sum (r # rs) = bind_sum r (\<lambda>x. bind_sum (collect_sum rs) (\<lambda>xs. Inr (x # xs)))"

fun arrow_result :: "string + 'a \<Rightarrow> flight_error + 'a" where
  "arrow_result (Inl e) = Inl (ArrowError e)"
| "arrow_result (Inr x) = Inr x"

subsection \<open>Preparing a schema\<close>

datatype dictionary_handling = Hydrate | Resend

fun prepare_field_for_flight ::
    "('b, 'a, 'o, 'd, 'y) flight_lib \<Rightarrow> bool \<Rightarrow> field \<Rightarrow> 'd \<Rightarrow> field \<times> 'd"
  and prepare_fields ::
    "('b, 'a, 'o, 'd, 'y) flight_lib \<Rightarrow> bool \<Rightarrow> field list \<Rightarrow> 'd \<Rightarrow> field list \<times> 'd"
  and prepare_union_fields ::
    "('b, 'a, 'o, 'd, 'y) flight_lib \<Rightarrow> bool \<Rightarrow> (int \<times> field) list \<Rightarrow> 'd \<Rightarrow> (int \<times> field) list \<times> 'd"
where
  "prepare_field_for_flight lib send (Field name (DList inner) nullable md i ord) tr =
     (case prepare_field_for_flight lib send inner tr of
        (inner', tr') \<Rightarrow> (with_metadata (field_new name (DList inner') nullable) md, tr'))"
| "prepare_field_for_flight lib send (Field name (LargeList inner) nullable md i ord) tr =
     (case prepare_field_for_flight lib send inner tr of
        (inner', tr') \<Rightarrow> (with_metadata (field_new name (DList inner') nullable) md, tr'))"
| "prepare_field_for_flight lib send (Field name (Struct fs) nullable md i ord) tr =
     (case prepare_fields lib send fs tr of
        (fs', tr') \<Rightarrow> (with_metadata (field_new name (Struct fs') nullable) md, tr'))"
| "prepare_field_for_flight lib send (Field name (Union fs mode) nullable md i ord) tr =
     (case prepare_union_fields lib send fs tr of
        (fs', tr') \<Rightarrow> (field_new name (Union fs' mode) False, tr'))"
| "prepare_field_for_flight lib send (Field name (Dictionary kt vt) nullable md i ord) tr =
     (if \<not> send then (with_metadata (field_new name vt nullable) md, tr)
      else case al_set_dict_id lib (Field name (Dictionary kt vt) nullable md i ord) tr of
             (dict_id, tr') \<Rightarrow> (Field name (Dictionary kt vt) nullable md dict_id ord, tr'))"
| "prepare_field_for_flight lib send (Field name (DMap inner keys_sorted) nullable md i ord) tr =
     (case prepare_field_for_flight lib send inner tr of
        (inner', tr') \<Rightarrow> (with_metadata (field_new name (DMap inner' keys_sorted) nullable) md, tr'))"
| "prepare_field_for_flight lib send (Field name (Plain p) nullable md i ord) tr =
     (Field name (Plain p) nullable md i ord, tr)"
| "prepare_field_for_flight lib send (Field name (FixedSizeList inner n) nullable md i ord) tr =
     (Field name (FixedSizeList inner n) nullable md i ord, tr)"
| "prepare_fields lib send [] tr = ([], tr)"
| "prepare_fields lib send (f # fs) tr =
     (case prepare_field_for_flight lib send f tr of (f', tr') \<Rightarrow>
      case prepare_fields lib send fs tr' of (fs', tr'') \<Rightarrow> (f' # fs', tr''))"
| "prepare_union_fields lib send [] tr = ([], tr)"
| "prepare_union_fields lib send ((type_id, f) # fs) tr =
     (case prepare_field_for_flight lib send f tr of (f', tr') \<Rightarrow>
      case prepare_union_fields lib send fs tr' of (fs', tr'') \<Rightarrow> ((type_id, f') # fs', tr''))"

text \<open>The closure of \<open>prepare_schema_for_flight\<close> for one field of the schema.\<close>

definition prepare_top_field :: "('b, 'a, 'o, 'd, 'y) flight_lib \<Rightarrow> bool \<Rightarrow> field \<Rightarrow> 'd \<Rightarrow> field \<times> 'd" where
  "prepare_top_field lib send f tr =
     (case field_data_type f of
        Dictionary kt vt \<Rightarrow>
          (if \<not> send
           then (with_metadata (field_new (field_name f) vt (is_nullable f)) (field_metadata f), tr)
           else case al_set_dict_id lib f tr of
                  (dict_id, tr') \<Rightarrow>
                    (with_metadata (Field (field_name f) (field_data_type f) (is_nullable f) [] dict_id (dict_is_ordered f))
                       (field_metadata f), tr'))
      | tpe \<Rightarrow> if is_nested tpe then prepare_field_for_flight lib send f tr else (f, tr))"

fun prepare_top_fields :: "('b, 'a, 'o, 'd, 'y) flight_lib \<Rightarrow> bool \<Rightarrow> field list \<Rightarrow> 'd \<Rightarrow> field list \<times> 'd" where
  "prepare_top_fields lib send [] tr = ([], tr)"
| "prepare_top_fields lib send (f # fs) tr =
     (case prepare_top_field lib send f tr of (f', tr') \<Rightarrow>
      case prepare_top_fields lib send fs tr' of (fs', tr'') \<Rightarrow> (f' # fs', tr''))"

definition prepare_schema_for_flight :: "('b, 'a, 'o, 'd, 'y) flight_lib \<Rightarrow> bool \<Rightarrow> schema \<Rightarrow> 'd \<Rightarrow> schema \<times> 'd" where
  "prepare_schema_for_flight lib send s tr =
     (case prepare_top_fields lib send (sc_fields s) tr of
        (fs, tr') \<Rightarrow> (\<lparr>sc_fields = fs, sc_metadata = sc_metadata s\<rparr>, tr'))"

subsection \<open>Hydrating dictionaries\<close>

definition hydrate_dictionary :: "('b, 'a, 'o, 'd, 'y) flight_lib \<Rightarrow> 'a \<Rightarrow> data_type \<Rightarrow> flight_error + 'a" where
  "hydrate_dictionary lib arr t =
     (case (al_array_type lib arr, t) of
        (Union _ Sparse, Union fs Sparse) \<Rightarrow>
          bind_sum (collect_sum (map (\<lambda>(type_id, f).
              arrow_result (al_cast lib (al_union_child lib arr type_id) (field_data_type f))) fs)) (\<lambda>children.
          arrow_result (al_union_new lib fs arr children))
      | _ \<Rightarrow> arrow_result (al_cast lib arr t))"

definition hydrate_dictionaries :: "('b, 'a, 'o, 'd, 'y) flight_lib \<Rightarrow> 'b \<Rightarrow> schema \<Rightarrow> flight_error + 'b" where
  "hydrate_dictionaries lib batch s =
     bind_sum (collect_sum (map (\<lambda>(f, c). hydrate_dictionary lib c (field_data_type f))
       (zip (sc_fields s) (al_columns lib batch)))) (\<lambda>columns.
     arrow_result (al_try_new lib s columns (al_num_rows lib batch)))"

subsection \<open>Splitting a batch\<close>

definition n_batches :: "usize \<Rightarrow> usize \<Rightarrow> usize" where
  "n_batches sz max_size = max (sz div max_size + (if sz mod max_size \<noteq> 0 then 1 else 0)) 1"

definition rows_per_batch :: "usize \<Rightarrow> usize \<Rightarrow> usize" where
  "rows_per_batch rows n = max (rows div n) 1"

function split_loop :: "(usize \<Rightarrow> usize \<Rightarrow> 'b) \<Rightarrow> usize \<Rightarrow> usize \<Rightarrow> usize \<Rightarrow> 'b list" where
  "split_loop sl rows n offset =
     (if offset < rows
      then let len = min (rows_per_batch rows n) (rows - offset)
           in sl offset len # split_loop sl rows n (offset + len)
      else [])"
  by pat_completeness auto
termination by (relation "measure (\<lambda>(sl, rows, n, offset). rows - offset)") (auto simp: rows_per_batch_def)

declare split_loop.simps [simp del]

definition batch_size :: "('b, 'a, 'o, 'd, 'y) flight_lib \<Rightarrow> 'b \<Rightarrow> usize" where
  "batch_size lib batch = usize_sum (map (al_buffer_size lib) (al_columns lib batch))"

definition split_batch_for_grpc_response ::
  "('b, 'a, 'o, 'd, 'y) flight_lib \<Rightarrow> 'b \<Rightarrow> usize \<Rightarrow> flight_error + 'b list" where
  "split_batch_for_grpc_response lib batch max_flight_data_size =
     (if max_flight_data_size = 0 then Inl (FlightPanic ''attempt to divide by zero'')
      else Inr (split_loop (al_slice lib batch) (al_num_rows lib batch)
             (n_batches (batch_size lib batch) max_flight_data_size) 0))"

subsection \<open>The encoder\<close>

datatype 'b flight_data_item = RecordBatchItem 'b | AppMetadata buffer

record ('o, 'd) flight_ipc_encoder =
  ie_options :: 'o
  ie_dictionary_tracker :: 'd

definition flight_ipc_encoder_new :: "('b, 'a, 'o, 'd, 'y) flight_lib \<Rightarrow> 'o \<Rightarrow> bool \<Rightarrow> ('o, 'd) flight_ipc_encoder" where
  "flight_ipc_encoder_new lib options error_on_replacement =
     \<lparr>ie_options = options,
      ie_dictionary_tracker = al_tracker_new lib error_on_replacement (al_preserve_dict_id lib options)\<rparr>"

definition ipc_encode_schema ::
  "('b, 'a, 'o, 'd, 'y) flight_lib \<Rightarrow> schema \<Rightarrow> ('o, 'd) flight_ipc_encoder \<Rightarrow> 'y flight_data" where
  "ipc_encode_schema lib s ie = al_schema_message lib s (ie_options ie)"

definition ipc_encode_batch ::
  "('b, 'a, 'o, 'd, 'y) flight_lib \<Rightarrow> 'b \<Rightarrow> ('o, 'd) flight_ipc_encoder
     \<Rightarrow> (flight_error + 'y flight_data list \<times> 'y flight_data) \<times> ('o, 'd) flight_ipc_encoder" where
  "ipc_encode_batch lib batch ie =
     (case al_encoded_batch lib batch (ie_dictionary_tracker ie) (ie_options ie) of
        (r, tracker) \<Rightarrow> (arrow_result r, ie\<lparr>ie_dictionary_tracker := tracker\<rparr>))"

record 'o flight_data_encoder_builder =
  fb_max_flight_data_size :: usize
  fb_options :: 'o
  fb_app_metadata :: buffer
  fb_schema :: "schema option"
  fb_descriptor :: "string option"
  fb_dictionary_handling :: dictionary_handling

definition grpc_target_max_flight_size_bytes :: usize where
  "grpc_target_max_flight_size_bytes = 2097152"

definition builder_new :: "('b, 'a, 'o, 'd, 'y) flight_lib \<Rightarrow> 'o flight_data_encoder_builder" where
  "builder_new lib =
     \<lparr>fb_max_flight_data_size = grpc_target_max_flight_size_bytes, fb_options = al_default_options lib,
      fb_app_metadata = [], fb_schema = None, fb_descriptor = None, fb_dictionary_handling = Hydrate\<rparr>"

definition with_max_flight_data_size :: "usize \<Rightarrow> 'o flight_data_encoder_builder \<Rightarrow> 'o flight_data_encoder_builder" where
  "with_max_flight_data_size n b = b\<lparr>fb_max_flight_data_size := n\<rparr>"

definition with_dictionary_handling ::
  "dictionary_handling \<Rightarrow> 'o flight_data_encoder_builder \<Rightarrow> 'o flight_data_encoder_builder" where
  "with_dictionary_handling h b = b\<lparr>fb_dictionary_handling := h\<rparr>"

definition builder_with_metadata :: "buffer \<Rightarrow> 'o flight_data_encoder_builder \<Rightarrow> 'o flight_data_encoder_builder" where
  "builder_with_metadata md b = b\<lparr>fb_app_metadata := md\<rparr>"

definition with_options :: "'o \<Rightarrow> 'o flight_data_encoder_builder \<Rightarrow> 'o flight_data_encoder_builder" where
  "with_options options b = b\<lparr>fb_options := options\<rparr>"

definition with_schema :: "schema \<Rightarrow> 'o flight_data_encoder_builder \<Rightarrow> 'o flight_data_encoder_builder" where
  "with_schema s b = b\<lparr>fb_schema := Some s\<rparr>"

definition with_flight_descriptor ::
  "string option \<Rightarrow> 'o flight_data_encoder_builder \<Rightarrow> 'o flight_data_encoder_builder" where
  "with_flight_descriptor descriptor b = b\<lparr>fb_descriptor := descriptor\<rparr>"

record ('b, 'o, 'd, 'y) flight_data_encoder =
  fe_inner :: "(flight_error + 'b flight_data_item) list"
  fe_schema :: "schema option"
  fe_max_flight_data_size :: usize
  fe_encoder :: "('o, 'd) flight_ipc_encoder"
  fe_app_metadata :: "buffer option"
  fe_queue :: "'y flight_data list"
  fe_done :: bool
  fe_descriptor :: "string option"
  fe_dictionary_handling :: dictionary_handling

definition queue_message :: "'y flight_data \<Rightarrow> ('b, 'o, 'd, 'y) flight_data_encoder \<Rightarrow> ('b, 'o, 'd, 'y) flight_data_encoder" where
  "queue_message data e =
     (case fe_descriptor e of
        Some descriptor \<Rightarrow>
          e\<lparr>fe_descriptor := None, fe_queue := fe_queue e @ [data\<lparr>fd_flight_descriptor := Some descriptor\<rparr>]\<rparr>
      | None \<Rightarrow> e\<lparr>fe_queue := fe_queue e @ [data]\<rparr>)"

definition queue_messages :: "'y flight_data list \<Rightarrow> ('b, 'o, 'd, 'y) flight_data_encoder \<Rightarrow> ('b, 'o, 'd, 'y) flight_data_encoder" where
  "queue_messages datas e = fold queue_message datas e"

definition encode_schema ::
  "('b, 'a, 'o, 'd, 'y) flight_lib \<Rightarrow> schema \<Rightarrow> ('b, 'o, 'd, 'y) flight_data_encoder \<Rightarrow> schema \<times> ('b, 'o, 'd, 'y) flight_data_encoder" where
  "encode_schema lib s e =
     (let send_dictionaries = (fe_dictionary_handling e = Resend)
      in case prepare_schema_for_flight lib send_dictionaries s (ie_dictionary_tracker (fe_encoder e)) of
           (s', tracker) \<Rightarrow>
             let ie = (fe_encoder e)\<lparr>ie_dictionary_tracker := tracker\<rparr>;
                 data = ipc_encode_schema lib s' ie;
                 data' = (case fe_app_metadata e of Some md \<Rightarrow> data\<lparr>fd_app_metadata := md\<rparr> | None \<Rightarrow> data)
             in (s', (queue_message data' (e\<lparr>fe_encoder := ie, fe_app_metadata := None\<rparr>))\<lparr>fe_schema := Some s'\<rparr>))"

fun encode_parts ::
  "('b, 'a, 'o, 'd, 'y) flight_lib \<Rightarrow> 'b list \<Rightarrow> ('b, 'o, 'd, 'y) flight_data_encoder
     \<Rightarrow> (flight_error + unit) \<times> ('b, 'o, 'd, 'y) flight_data_encoder" where
  "encode_parts lib [] e = (Inr (), e)"
| "encode_parts lib (batch # batches) e =
     (case ipc_encode_batch lib batch (fe_encoder e) of
        (Inl err, ie) \<Rightarrow> (Inl err, e\<lparr>fe_encoder := ie\<rparr>)
      | (Inr (flight_dictionaries, flight_batch), ie) \<Rightarrow>
          encode_parts lib batches
            (queue_message flight_batch (queue_messages flight_dictionaries (e\<lparr>fe_encoder := ie\<rparr>))))"

definition encode_batch ::
  "('b, 'a, 'o, 'd, 'y) flight_lib \<Rightarrow> 'b \<Rightarrow> ('b, 'o, 'd, 'y) flight_data_encoder
     \<Rightarrow> (flight_error + unit) \<times> ('b, 'o, 'd, 'y) flight_data_encoder" where
  "encode_batch lib batch e =
     (let (s, e1) = (case fe_schema e of Some s \<Rightarrow> (s, e) | None \<Rightarrow> encode_schema lib (al_schema lib batch) e)
      in case (case fe_dictionary_handling e1 of Resend \<Rightarrow> Inr batch | Hydrate \<Rightarrow> hydrate_dictionaries lib batch s) of
           Inl err \<Rightarrow> (Inl err, e1)
         | Inr batch' \<Rightarrow>
             (case split_batch_for_grpc_response lib batch' (fe_max_flight_data_size e1) of
                Inl err \<Rightarrow> (Inl err, e1)
              | Inr parts \<Rightarrow> encode_parts lib parts e1))"

definition encoder_new ::
  "('b, 'a, 'o, 'd, 'y) flight_lib \<Rightarrow> (flight_error + 'b flight_data_item) list \<Rightarrow> schema option \<Rightarrow> usize \<Rightarrow> 'o \<Rightarrow> buffer
     \<Rightarrow> string option \<Rightarrow> dictionary_handling \<Rightarrow> ('b, 'o, 'd, 'y) flight_data_encoder" where
  "encoder_new lib inner s max_flight_data_size options app_metadata descriptor handling =
     (let e = \<lparr>fe_inner = inner, fe_schema = None, fe_max_flight_data_size = max_flight_data_size,
               fe_encoder = flight_ipc_encoder_new lib options (handling \<noteq> Resend),
               fe_app_metadata = Some app_metadata, fe_queue = [], fe_done = False,
               fe_descriptor = descriptor, fe_dictionary_handling = handling\<rparr>
      in case s of Some s \<Rightarrow> snd (encode_schema lib s e) | None \<Rightarrow> e)"

definition builder_build ::
  "('b, 'a, 'o, 'd, 'y) flight_lib \<Rightarrow> (flight_error + 'b flight_data_item) list \<Rightarrow> 'o flight_data_encoder_builder
     \<Rightarrow> ('b, 'o, 'd, 'y) flight_data_encoder" where
  "builder_build lib input b =
     encoder_new lib input (fb_schema b) (fb_max_flight_data_size b) (fb_options b) (fb_app_metadata b)
       (fb_descriptor b) (fb_dictionary_handling b)"

definition none_flight_data :: "('b, 'a, 'o, 'd, 'y) flight_lib \<Rightarrow> buffer \<Rightarrow> 'y flight_data" where
  "none_flight_data lib md =
     \<lparr>fd_flight_descriptor = None, fd_data_header = al_none_message lib, fd_app_metadata = md, fd_data_body = al_empty_bytes lib\<rparr>"

text \<open>Encoding never touches the input.\<close>

lemma queue_message_inner [simp]: "fe_inner (queue_message d e) = fe_inner e"
  by (simp add: queue_message_def split: option.split)

lemma queue_messages_inner [simp]: "fe_inner (queue_messages ds e) = fe_inner e"
  unfolding queue_messages_def by (induction ds arbitrary: e) auto

lemma encode_parts_inner: "encode_parts lib bs e = (r, e') \<Longrightarrow> fe_inner e' = fe_inner e"
  by (induction lib bs e rule: encode_parts.induct) (auto split: prod.splits sum.splits)

lemma encode_schema_inner: "encode_schema lib s e = (s', e') \<Longrightarrow> fe_inner e' = fe_inner e"
  by (auto simp: encode_schema_def Let_def split: prod.splits)

lemma encode_batch_inner: "encode_batch lib b e = (r, e') \<Longrightarrow> fe_inner e' = fe_inner e"
  by (auto simp: encode_batch_def Let_def dest!: encode_parts_inner encode_schema_inner
    split: prod.splits option.splits sum.splits)

text \<open>
  One poll over an input that is always ready.  A round of the loop that does not return has
  encoded a batch and goes on with a shorter input.
\<close>

function encoder_poll_next ::
  "('b, 'a, 'o, 'd, 'y) flight_lib \<Rightarrow> ('b, 'o, 'd, 'y) flight_data_encoder
     \<Rightarrow> (flight_error + 'y flight_data) option \<times> ('b, 'o, 'd, 'y) flight_data_encoder" where
  "encoder_poll_next lib e =
     (if fe_done e \<and> fe_queue e = [] then (None, e)
      else case fe_queue e of
             data # queue \<Rightarrow> (Some (Inr data), e\<lparr>fe_queue := queue\<rparr>)
           | [] \<Rightarrow>
          (case fe_inner e of
             [] \<Rightarrow> (None, e\<lparr>fe_done := True\<rparr>)
           | Inl err # inner \<Rightarrow> (Some (Inl err), e\<lparr>fe_inner := inner, fe_done := True, fe_queue := []\<rparr>)
           | Inr (AppMetadata md) # inner \<Rightarrow> (Some (Inr (none_flight_data lib md)), e\<lparr>fe_inner := inner\<rparr>)
           | Inr (RecordBatchItem batch) # inner \<Rightarrow>
               (case encode_batch lib batch (e\<lparr>fe_inner := inner\<rparr>) of
                  (Inl err, e') \<Rightarrow> (Some (Inl err), e'\<lparr>fe_done := True, fe_queue := []\<rparr>)
                | (Inr _, e') \<Rightarrow> encoder_poll_next lib e')))"
  by pat_completeness auto
termination
  by (relation "measure (\<lambda>(lib, e). length (fe_inner e))") (auto dest: encode_batch_inner [OF sym])

declare encoder_poll_next.simps [simp del]

lemma poll_decreases:
  "encoder_poll_next lib e = (Some r, e') \<Longrightarrow>
   length (fe_inner e') < length (fe_inner e) \<or> fe_inner e' = fe_inner e \<and> length (fe_queue e') < length (fe_queue e)"
proof (induction lib e rule: encoder_poll_next.induct)
  case (1 lib e)
  show ?case
  proof (cases "fe_queue e")
    case Nil
    note step = "1.prems" [unfolded encoder_poll_next.simps [of lib e]]
    show ?thesis
    proof (cases "\<exists>b inner e1. fe_inner e = Inr (RecordBatchItem b) # inner \<and> \<not> fe_done e \<and>
        encode_batch lib b (e\<lparr>fe_inner := inner\<rparr>) = (Inr (), e1)")
      case True
      then obtain b inner e1 where b: "fe_inner e = Inr (RecordBatchItem b) # inner" "\<not> fe_done e"
        "encode_batch lib b (e\<lparr>fe_inner := inner\<rparr>) = (Inr (), e1)" by blast
      have "fe_inner e1 = inner" using encode_batch_inner [OF b(3)] by simp
      moreover have "encoder_poll_next lib e1 = (Some r, e')" using step b Nil by simp
      ultimately show ?thesis using "1.IH" [OF _ Nil b(1) refl refl b(3) [symmetric]] b Nil by auto
    next
      case False
      then show ?thesis using step Nil
        by (auto dest: encode_batch_inner split: if_splits list.splits sum.splits flight_data_item.splits prod.splits)
    qed
  next
    case (Cons d q)
    then show ?thesis using "1.prems" by (auto simp: encoder_poll_next.simps [of lib e])
  qed
qed

function encoder_run ::
  "('b, 'a, 'o, 'd, 'y) flight_lib \<Rightarrow> ('b, 'o, 'd, 'y) flight_data_encoder \<Rightarrow> (flight_error + 'y flight_data) list" where
  "encoder_run lib e = (case encoder_poll_next lib e of (None, e') \<Rightarrow> [] | (Some r, e') \<Rightarrow> r # encoder_run lib e')"
  by pat_completeness auto
termination
  by (relation "measures [\<lambda>(lib, e). length (fe_inner e), \<lambda>(lib, e). length (fe_queue e)]")
    (auto dest!: poll_decreases [OF sym])

declare encoder_run.simps [simp del]

subsection \<open>Streams on the wire\<close>

text \<open>The protobuf codec of a marker number is generated code and a parameter.\<close>

record marker_codec =
  mc_encode :: "u64 \<Rightarrow> buffer"
  mc_decode :: "buffer \<Rightarrow> string + u64"

definition marker_to_bytes :: "marker_codec \<Rightarrow> marker \<Rightarrow> buffer" where
  "marker_to_bytes mc m = mc_encode mc (checkpoint_number m)"

definition marker_from_bytes :: "marker_codec \<Rightarrow> buffer \<Rightarrow> string + marker" where
  "marker_from_bytes mc bs = map_sum id Marker (mc_decode mc bs)"

definition to_flight_item ::
  "marker_codec \<Rightarrow> string + 'b stream_item \<Rightarrow> flight_error + 'b flight_data_item" where
  "to_flight_item mc r =
     (case r of
        Inl err \<Rightarrow> Inl (ExternalError err)
      | Inr (ItemBatch batch) \<Rightarrow> Inr (RecordBatchItem batch)
      | Inr (ItemMarker marker) \<Rightarrow> Inr (AppMetadata (marker_to_bytes mc marker)))"

definition encode_stream_to_flight ::
  "('b, 'a, 'o, 'd, 'y) flight_lib \<Rightarrow> marker_codec \<Rightarrow> (string + 'b stream_item) list \<Rightarrow> (string + 'y flight_data) list" where
  "encode_stream_to_flight lib mc stream =
     map (map_sum (\<lambda>_. ''Error encoding flight data'') id)
       (encoder_run lib (builder_build lib (map (to_flight_item mc) stream) (builder_new lib)))"

datatype 'b decoded_payload = PayloadNone | PayloadSchema schema | PayloadBatch 'b

record ('b, 'y) decoded_flight_data =
  df_inner :: "'y flight_data"
  df_payload :: "'b decoded_payload"

fun decode_error :: "flight_error \<Rightarrow> df_error" where
  "decode_error (ArrowError e) = ArrowErr e"
| "decode_error (NotYetImplemented e) = Internal ''Not yet implemented''"
| "decode_error (Tonic e) = Internal ''Tonic error''"
| "decode_error (ProtocolError e) = Internal ''Protocol error''"
| "decode_error (DecodeError e) = Internal ''Decode error''"
| "decode_error (ExternalError e) = Internal ''External error''"
| "decode_error (FlightPanic e) = Panic e"

definition decode_item :: "marker_codec \<Rightarrow> ('b, 'y) decoded_flight_data \<Rightarrow> 'b stream_item option result" where
  "decode_item mc d =
     (case df_payload d of
        PayloadBatch batch \<Rightarrow> Ok (Some (ItemBatch batch))
      | PayloadSchema _ \<Rightarrow> Ok None
      | PayloadNone \<Rightarrow>
          (case marker_from_bytes mc (fd_app_metadata (df_inner d)) of
             Inl _ \<Rightarrow> Err (Internal ''Error decoding marker'')
           | Inr marker \<Rightarrow> Ok (Some (ItemMarker marker))))"

fun decode_flight_to_stream ::
  "marker_codec \<Rightarrow> (flight_error + ('b, 'y) decoded_flight_data) list \<Rightarrow> 'b stream_item result list" where
  "decode_flight_to_stream mc [] = []"
| "decode_flight_to_stream mc (Inl err # ds) = Err (decode_error err) # decode_flight_to_stream mc ds"
| "decode_flight_to_stream mc (Inr d # ds) =
     (case decode_item mc d of
        Err e \<Rightarrow> Err e # decode_flight_to_stream mc ds
      | Ok None \<Rightarrow> decode_flight_to_stream mc ds
      | Ok (Some item) \<Rightarrow> Ok item # decode_flight_to_stream mc ds)"

subsection \<open>Splitting tiles the rows\<close>

lemma split_loop_tiles:
  "offset \<le> rows \<Longrightarrow> \<exists>ps. tiles offset rows ps \<and> split_loop sl rows n offset = map (\<lambda>(s, e). sl s (e - s)) ps \<and>
     (\<forall>(s, e) \<in> set ps. e - s \<le> rows_per_batch rows n)"
proof (induction sl rows n offset rule: split_loop.induct)
  case (1 sl rows n offset)
  show ?case
  proof (cases "offset < rows")
    case True
    define len where "len = min (rows_per_batch rows n) (rows - offset)"
    have len: "0 < len" "offset + len \<le> rows" using True by (auto simp: len_def rows_per_batch_def)
    from "1.IH" [OF True len_def len(2)] obtain ps where
      ps: "tiles (offset + len) rows ps" "split_loop sl rows n (offset + len) = map (\<lambda>(s, e). sl s (e - s)) ps"
      "\<forall>(s, e) \<in> set ps. e - s \<le> rows_per_batch rows n" by blast
    have "split_loop sl rows n offset = sl offset len # split_loop sl rows n (offset + len)"
      using True by (simp add: split_loop.simps [of sl rows n offset] len_def Let_def)
    with ps len show ?thesis by (intro exI [of _ "(offset, offset + len) # ps"]) (auto simp: len_def)
  next
    case False
    with "1.prems" show ?thesis by (intro exI [of _ "[]"]) (simp, subst split_loop.simps, simp)
  qed
qed

lemma rows_per_batch_bound:
  assumes "0 < max_size" and "1 < rows_per_batch rows (n_batches sz max_size)"
  shows "rows_per_batch rows (n_batches sz max_size) * sz \<le> max_size * rows"
proof -
  let ?n = "n_batches sz max_size"
  have "sz \<le> ?n * max_size"
  proof (cases "sz mod max_size = 0")
    case True
    then have "sz = sz div max_size * max_size" by auto
    moreover have "sz div max_size * max_size \<le> ?n * max_size" by (intro mult_le_mono1) (simp add: n_batches_def)
    ultimately show ?thesis by linarith
  next
    case False
    have "sz = sz div max_size * max_size + sz mod max_size" by simp
    also have "\<dots> \<le> sz div max_size * max_size + max_size"
      using mod_less_divisor [OF assms(1), of sz] by linarith
    also have "\<dots> = (sz div max_size + 1) * max_size" by simp
    also have "\<dots> \<le> ?n * max_size" using False by (intro mult_le_mono1) (simp add: n_batches_def)
    finally show ?thesis .
  qed
  moreover have "rows_per_batch rows ?n = rows div ?n" using assms(2) by (auto simp: rows_per_batch_def)
  ultimately have "rows_per_batch rows ?n * sz \<le> rows div ?n * (?n * max_size)" by simp
  also have "\<dots> = (rows div ?n * ?n) * max_size" by simp
  also have "\<dots> \<le> rows * max_size" by (intro mult_le_mono1) simp
  finally show ?thesis by (simp add: mult.commute)
qed

text \<open>
  A batch is split into adjacent, non-empty parts that together are all its rows in
  order.  A part of more than one row holds at most its share of the size limit: if all rows
  have the same size, it is not larger than the limit.
\<close>

theorem split_batch_parts:
  assumes "0 < max_size"
  shows "\<exists>ps. split_batch_for_grpc_response lib batch max_size = Inr (map (\<lambda>(s, e). al_slice lib batch s (e - s)) ps) \<and>
    tiles 0 (al_num_rows lib batch) ps \<and>
    (\<forall>(s, e) \<in> set ps. 1 < e - s \<longrightarrow> (e - s) * batch_size lib batch \<le> max_size * al_num_rows lib batch)"
proof -
  let ?rows = "al_num_rows lib batch" and ?sz = "batch_size lib batch"
  obtain ps where ps: "tiles 0 ?rows ps"
    "split_loop (al_slice lib batch) ?rows (n_batches ?sz max_size) 0 = map (\<lambda>(s, e). al_slice lib batch s (e - s)) ps"
    "\<forall>(s, e) \<in> set ps. e - s \<le> rows_per_batch ?rows (n_batches ?sz max_size)"
    using split_loop_tiles [of 0 ?rows "al_slice lib batch" "n_batches ?sz max_size"] by blast
  have "(e - s) * ?sz \<le> max_size * ?rows" if "(s, e) \<in> set ps" "1 < e - s" for s e
  proof -
    let ?r = "rows_per_batch ?rows (n_batches ?sz max_size)"
    have "e - s \<le> ?r" using ps(3) that(1) by blast
    moreover have "1 < ?r" using calculation that(2) by linarith
    ultimately show ?thesis using rows_per_batch_bound [OF assms, of ?rows ?sz]
      by (meson le_trans mult_le_mono1)
  qed
  with ps assms show ?thesis by (intro exI [of _ ps]) (auto simp: split_batch_for_grpc_response_def)
qed

subsection \<open>Preparing a schema\<close>

lemma prepare_top_field_eq: "prepare_top_field lib send f tr = prepare_field_for_flight lib send f tr"
proof (cases f)
  case (Field name t nullable md i ord)
  then show ?thesis by (cases t) (auto simp: prepare_top_field_def dict_is_ordered_def split: prod.split)
qed

lemma prepare_top_fields_eq: "prepare_top_fields lib send fs tr = prepare_fields lib send fs tr"
  by (induction fs arbitrary: tr) (auto simp: prepare_top_field_eq)

text \<open>
  C37: the preparation of the fields of a schema, which treats dictionaries and nested types
  of the top level itself, is the recursive preparation of every field in turn, with the
  dictionary tracker passed from field to field.
\<close>

theorem prepare_schema_recursive:
  "prepare_schema_for_flight lib send s tr =
     (case prepare_fields lib send (sc_fields s) tr of
        (fs, tr') \<Rightarrow> (\<lparr>sc_fields = fs, sc_metadata = sc_metadata s\<rparr>, tr'))"
  by (simp add: prepare_schema_for_flight_def prepare_top_fields_eq)

text \<open>
  Types without dictionaries, and the types the preparation reaches: dictionaries of plain
  values below lists, structures, unions and maps.
\<close>

fun dictionary_free :: "data_type \<Rightarrow> bool" and dictionary_free_field :: "field \<Rightarrow> bool" where
  "dictionary_free (Plain _) = True"
| "dictionary_free (DList f) = dictionary_free_field f"
| "dictionary_free (LargeList f) = dictionary_free_field f"
| "dictionary_free (FixedSizeList f _) = dictionary_free_field f"
| "dictionary_free (Struct fs) = (\<forall>f \<in> set fs. dictionary_free_field f)"
| "dictionary_free (Union fs _) = (\<forall>f \<in> set fs. dictionary_free_field (snd f))"
| "dictionary_free (Dictionary _ _) = False"
| "dictionary_free (DMap f _) = dictionary_free_field f"
| "dictionary_free_field (Field _ t _ _ _ _) = dictionary_free t"

fun hydratable :: "data_type \<Rightarrow> bool" and hydratable_field :: "field \<Rightarrow> bool" where
  "hydratable (Plain _) = True"
| "hydratable (DList f) = hydratable_field f"
| "hydratable (LargeList f) = hydratable_field f"
| "hydratable (FixedSizeList f _) = dictionary_free_field f"
| "hydratable (Struct fs) = (\<forall>f \<in> set fs. hydratable_field f)"
| "hydratable (Union fs _) = (\<forall>f \<in> set fs. hydratable_field (snd f))"
| "hydratable (Dictionary _ v) = dictionary_free v"
| "hydratable (DMap f _) = hydratable_field f"
| "hydratable_field (Field _ t _ _ _ _) = hydratable t"

lemma dictionary_free_with_metadata [simp]:
  "dictionary_free_field (with_metadata (field_new n t b) md) = dictionary_free t"
  by (simp add: field_new_def)

lemma prepare_hydrates:
  "\<not> send \<Longrightarrow> hydratable_field f \<Longrightarrow> dictionary_free_field (fst (prepare_field_for_flight lib send f tr))"
  "\<not> send \<Longrightarrow> \<forall>f \<in> set fs. hydratable_field f \<Longrightarrow>
     \<forall>f \<in> set (fst (prepare_fields lib send fs tr)). dictionary_free_field f"
  "\<not> send \<Longrightarrow> \<forall>f \<in> set us. hydratable_field (snd f) \<Longrightarrow>
     \<forall>f \<in> set (fst (prepare_union_fields lib send us tr)). dictionary_free_field (snd f)"
  by (induction lib send f tr and lib send fs tr and lib send us tr
      rule: prepare_field_for_flight_prepare_fields_prepare_union_fields.induct)
    (auto simp: field_new_def case_prod_beta prod_eq_iff)

text \<open>
  C38: with hydration a prepared schema has no dictionary types left, provided its
  dictionaries have values without dictionaries and stand below the nested types the
  preparation descends into.
\<close>

theorem prepared_schema_dictionary_free:
  assumes "\<forall>f \<in> set (sc_fields s). hydratable_field f"
  shows "\<forall>f \<in> set (sc_fields (fst (prepare_schema_for_flight lib False s tr))). dictionary_free_field f"
  using prepare_hydrates(2) [OF _ assms, of False lib tr]
  by (simp add: prepare_schema_for_flight_def prepare_top_fields_eq split: prod.splits)

subsection \<open>What the decoder sees\<close>

text \<open>
  The Flight decoder of the Arrow library takes one message at a time; a dictionary message
  gives no payload, and the stream ends after an error.
\<close>

record ('b, 'y, 'r) flight_decoder =
  dc_init :: 'r
  dc_step :: "'r \<Rightarrow> 'y flight_data \<Rightarrow> (flight_error + 'b decoded_payload option) \<times> 'r"

fun decoder_run ::
  "('b, 'y, 'r) flight_decoder \<Rightarrow> 'r \<Rightarrow> 'y flight_data list \<Rightarrow> (flight_error + ('b, 'y) decoded_flight_data) list" where
  "decoder_run dc r [] = []"
| "decoder_run dc r (m # ms) =
     (case dc_step dc r m of
        (Inl err, r') \<Rightarrow> [Inl err]
      | (Inr None, r') \<Rightarrow> decoder_run dc r' ms
      | (Inr (Some p), r') \<Rightarrow> Inr \<lparr>df_inner = m, df_payload = p\<rparr> # decoder_run dc r' ms)"

text \<open>
  The pairs of types between which a cast only unpacks: a dictionary becomes its value type, a
  large list a list with smaller offsets, and the types inside a nested type are unpacked at
  their places; every other type stays as it is.
\<close>

fun unpacks :: "data_type \<Rightarrow> data_type \<Rightarrow> bool"
  and unpacks_field :: "field \<Rightarrow> field \<Rightarrow> bool"
  and unpacks_fields :: "field list \<Rightarrow> field list \<Rightarrow> bool"
  and unpacks_union :: "(int \<times> field) list \<Rightarrow> (int \<times> field) list \<Rightarrow> bool"
where
  "unpacks (Plain p) t = (t = Plain p)"
| "unpacks (Dictionary kt vt) t = (t = vt)"
| "unpacks (DList f) t = (case t of DList f' \<Rightarrow> unpacks_field f f' | _ \<Rightarrow> False)"
| "unpacks (LargeList f) t = (case t of DList f' \<Rightarrow> unpacks_field f f' | _ \<Rightarrow> False)"
| "unpacks (FixedSizeList f n) t = (t = FixedSizeList f n)"
| "unpacks (Struct fs) t = (case t of Struct fs' \<Rightarrow> unpacks_fields fs fs' | _ \<Rightarrow> False)"
| "unpacks (Union us mode) t = (case t of Union us' mode' \<Rightarrow> mode' = mode \<and> unpacks_union us us' | _ \<Rightarrow> False)"
| "unpacks (DMap f keys) t = (case t of DMap f' keys' \<Rightarrow> keys' = keys \<and> unpacks_field f f' | _ \<Rightarrow> False)"
| "unpacks_field (Field name t _ _ _ _) f' = (field_name f' = name \<and> unpacks t (field_data_type f'))"
| "unpacks_fields [] fs' = (fs' = [])"
| "unpacks_fields (f # fs) fs' = (case fs' of [] \<Rightarrow> False | f' # fs'' \<Rightarrow> unpacks_field f f' \<and> unpacks_fields fs fs'')"
| "unpacks_union [] us' = (us' = [])"
| "unpacks_union ((i, f) # us) us' = (case us' of [] \<Rightarrow> False | (i', f') # us'' \<Rightarrow> i' = i \<and> unpacks_field f f' \<and> unpacks_union us us'')"

lemma unpacks_fields_iff: "unpacks_fields fs fs' \<longleftrightarrow> list_all2 unpacks_field fs fs'"
  by (induction fs arbitrary: fs') (auto split: list.splits)

lemma unpacks_union_iff: "unpacks_union us us' \<longleftrightarrow> list_all2 (\<lambda>u u'. fst u' = fst u \<and> unpacks_field (snd u) (snd u')) us us'"
  by (induction us arbitrary: us') (auto split: list.splits prod.splits)

text \<open>The preparation of a schema only unpacks its types.\<close>

lemma prepare_unpacks:
  "\<not> send \<Longrightarrow> unpacks_field f (fst (prepare_field_for_flight lib send f tr))"
  "\<not> send \<Longrightarrow> unpacks_fields fs (fst (prepare_fields lib send fs tr))"
  "\<not> send \<Longrightarrow> unpacks_union us (fst (prepare_union_fields lib send us tr))"
  by (induction lib send f tr and lib send fs tr and lib send us tr
      rule: prepare_field_for_flight_prepare_fields_prepare_union_fields.induct)
    (auto simp: field_new_def case_prod_beta prod_eq_iff)

lemma unpacks_field_type: "unpacks_field f f' \<Longrightarrow> unpacks (field_data_type f) (field_data_type f')"
  by (cases f) simp

text \<open>
  What is relied on.  The columns of a batch have the types of its schema, and the children of a
  union those of its fields.  \<open>vals\<close> are the logical values of an array: slices and the
  construction of batches keep them, and so does a cast that only unpacks, when it succeeds; of
  other casts nothing is asked.  \<open>sync\<close> relates the writer's dictionary tracker and the
  schema that was sent to the state of the decoder: messages arrive as they were written, and
  a batch of a schema without dictionaries is a single message.
\<close>

definition arrow_ok :: "('b, 'a, 'o, 'd, 'y) flight_lib \<Rightarrow> ('a \<Rightarrow> 'v list) \<Rightarrow> bool" where
  "arrow_ok lib vals \<longleftrightarrow>
     (\<forall>b. map (al_array_type lib) (al_columns lib b) = map field_data_type (sc_fields (al_schema lib b))) \<and>
     (\<forall>b. \<forall>c \<in> set (al_columns lib b). length (vals c) = al_num_rows lib b) \<and>
     (\<forall>b i l. i + l \<le> al_num_rows lib b \<longrightarrow>
        al_schema lib (al_slice lib b i l) = al_schema lib b \<and> al_num_rows lib (al_slice lib b i l) = l \<and>
        map vals (al_columns lib (al_slice lib b i l)) = map (\<lambda>c. take l (drop i (vals c))) (al_columns lib b)) \<and>
     (\<forall>c t c'. al_cast lib c t = Inr c' \<longrightarrow> unpacks (al_array_type lib c) t \<longrightarrow> vals c' = vals c) \<and>
     (\<forall>c us mode i f. al_array_type lib c = Union us mode \<longrightarrow> map_of us i = Some f \<longrightarrow>
        al_array_type lib (al_union_child lib c i) = field_data_type f) \<and>
     (\<forall>fs c cs c'. al_union_new lib fs c cs = Inr c' \<longrightarrow>
        list_all2 (\<lambda>f x. vals x = vals (al_union_child lib c (fst f))) fs cs \<longrightarrow> vals c' = vals c) \<and>
     (\<forall>s cs n b. al_try_new lib s cs n = Inr b \<longrightarrow>
        al_schema lib b = s \<and> al_columns lib b = cs \<and> al_num_rows lib b = n)"

definition schema_dictionary_free :: "schema \<Rightarrow> bool" where
  "schema_dictionary_free s \<longleftrightarrow> (\<forall>f \<in> set (sc_fields s). dictionary_free_field f)"

definition codec_ok ::
  "('b, 'a, 'o, 'd, 'y) flight_lib \<Rightarrow> ('b, 'y, 'r) flight_decoder \<Rightarrow> ('d \<Rightarrow> schema option \<Rightarrow> 'r \<Rightarrow> bool) \<Rightarrow> bool" where
  "codec_ok lib dc sync \<longleftrightarrow>
     (\<forall>x y. sync (al_tracker_new lib x y) None (dc_init dc)) \<and>
     (\<forall>d s r md. sync d s r \<longrightarrow>
        (\<exists>r'. dc_step dc r (none_flight_data lib md) = (Inr (Some PayloadNone), r') \<and> sync d s r')) \<and>
     (\<forall>d s r md s' opts. sync d s r \<longrightarrow>
        (\<exists>r'. dc_step dc r ((al_schema_message lib s' opts)\<lparr>fd_app_metadata := md\<rparr>) = (Inr (Some (PayloadSchema s')), r') \<and>
          sync d (Some s') r')) \<and>
     (\<forall>d s r b opts. sync d (Some s) r \<longrightarrow> al_schema lib b = s \<longrightarrow> schema_dictionary_free s \<longrightarrow>
        (\<exists>m d' r'. al_encoded_batch lib b d opts = (Inr ([], m), d') \<and>
          dc_step dc r m = (Inr (Some (PayloadBatch b)), r') \<and> sync d' (Some s) r'))"

text \<open>Rows of a batch, and the rows and markers of a stream.\<close>

definition batch_rows :: "('b, 'a, 'o, 'd, 'y) flight_lib \<Rightarrow> ('a \<Rightarrow> 'v list) \<Rightarrow> 'b \<Rightarrow> 'v list list" where
  "batch_rows lib vals b = map (\<lambda>i. map (\<lambda>c. vals c ! i) (al_columns lib b)) [0..<al_num_rows lib b]"

datatype 'v event = Row "'v list" | Mark marker

fun item_events :: "('b, 'a, 'o, 'd, 'y) flight_lib \<Rightarrow> ('a \<Rightarrow> 'v list) \<Rightarrow> 'b stream_item \<Rightarrow> 'v event list" where
  "item_events lib vals (ItemBatch b) = map Row (batch_rows lib vals b)"
| "item_events lib vals (ItemMarker m) = [Mark m]"

definition events :: "('b, 'a, 'o, 'd, 'y) flight_lib \<Rightarrow> ('a \<Rightarrow> 'v list) \<Rightarrow> 'b stream_item list \<Rightarrow> 'v event list" where
  "events lib vals items = concat (map (item_events lib vals) items)"

lemma events_append [simp]: "events lib vals (xs @ ys) = events lib vals xs @ events lib vals ys"
  by (simp add: events_def)

subsection \<open>Rows survive slicing and hydration\<close>

lemma length_batch_rows [simp]: "length (batch_rows lib vals b) = al_num_rows lib b"
  by (simp add: batch_rows_def)

lemma batch_rows_slice:
  assumes "arrow_ok lib vals" and "i + l \<le> al_num_rows lib b"
  shows "batch_rows lib vals (al_slice lib b i l) = take l (drop i (batch_rows lib vals b))"
proof (rule nth_equalityI)
  have s: "al_num_rows lib (al_slice lib b i l) = l"
    "map vals (al_columns lib (al_slice lib b i l)) = map (\<lambda>c. take l (drop i (vals c))) (al_columns lib b)"
    using assms by (simp_all add: arrow_ok_def)
  show "length (batch_rows lib vals (al_slice lib b i l)) = length (take l (drop i (batch_rows lib vals b)))"
    using assms(2) s(1) by simp
  fix k assume "k < length (batch_rows lib vals (al_slice lib b i l))"
  then have k: "k < l" using s(1) by simp
  have "map (\<lambda>c. vals c ! k) (al_columns lib (al_slice lib b i l)) =
      map (\<lambda>v. v ! k) (map vals (al_columns lib (al_slice lib b i l)))" by simp
  also have "\<dots> = map (\<lambda>c. vals c ! (i + k)) (al_columns lib b)"
    unfolding s(2) using k assms by (auto simp: arrow_ok_def)
  finally show "batch_rows lib vals (al_slice lib b i l) ! k = take l (drop i (batch_rows lib vals b)) ! k"
    using k s(1) assms(2) by (simp add: batch_rows_def)
qed

lemma tiles_concat:
  "tiles a b ps \<Longrightarrow> b \<le> length xs \<Longrightarrow> concat (map (\<lambda>(s, e). take (e - s) (drop s xs)) ps) = take (b - a) (drop a xs)"
proof (induction a b ps rule: tiles.induct)
  case (2 a b s e ps)
  then have e: "s = a" "a < e" "e \<le> b" "tiles e b ps" using tiles_le by auto
  have "take (e - a) (drop a xs) @ take (b - e) (drop e xs) = take (b - a) (drop a xs)"
    using e take_add [of "e - a" "b - e" "drop a xs"] by (simp add: add.commute)
  with 2 e show ?case by simp
qed simp

lemma collect_sum_eq_Inr: "collect_sum rs = Inr xs \<longleftrightarrow> rs = map Inr xs"
proof (induction rs arbitrary: xs)
  case (Cons r rs)
  then show ?case by (cases r; cases xs; cases "collect_sum rs") auto
qed auto

lemma arrow_result_eq_Inr [simp]: "arrow_result r = Inr x \<longleftrightarrow> r = Inr x"
  by (cases r) auto

lemma bind_sum_eq_Inr: "bind_sum r f = Inr y \<longleftrightarrow> (\<exists>x. r = Inr x \<and> f x = Inr y)"
  by (cases r) auto

text \<open>The type ids of a union at the top of a schema are distinct, as Arrow requires of unions.\<close>

fun union_ids_ok :: "data_type \<Rightarrow> bool" where
  "union_ids_ok (Union us _) = distinct (map fst us)"
| "union_ids_ok _ = True"

lemma hydrate_children:
  assumes ok: "arrow_ok lib vals" and u: "al_array_type lib c = Union us mode" "distinct (map fst us)"
    and "list_all2 (\<lambda>u u'. fst u' = fst u \<and> unpacks_field (snd u) (snd u')) vs fs" and "set vs \<subseteq> set us"
    and "map (\<lambda>(i, f). arrow_result (al_cast lib (al_union_child lib c i) (field_data_type f))) fs = map Inr cs"
  shows "list_all2 (\<lambda>f x. vals x = vals (al_union_child lib c (fst f))) fs cs"
  using assms(4-)
proof (induction arbitrary: cs rule: list_all2_induct)
  case (Cons v vs f fs)
  obtain i g h where v: "v = (i, g)" "f = (i, h)" using Cons.hyps by (cases v; cases f) auto
  have "map_of us i = Some g" using Cons.prems(1) u(2) by (simp add: v)
  with ok u(1) have "al_array_type lib (al_union_child lib c i) = field_data_type g" unfolding arrow_ok_def by blast
  moreover have "unpacks (field_data_type g) (field_data_type h)" using Cons.hyps by (simp add: v unpacks_field_type)
  moreover obtain x cs' where x: "cs = x # cs'" "al_cast lib (al_union_child lib c i) (field_data_type h) = Inr x"
    using Cons.prems(2) by (cases cs) (auto simp: v)
  ultimately have "vals x = vals (al_union_child lib c i)" using ok unfolding arrow_ok_def by metis
  with Cons.IH [of cs'] Cons.prems x show ?case by (simp add: v)
qed simp

lemma hydrate_dictionary_vals:
  assumes "arrow_ok lib vals" and "hydrate_dictionary lib c t = Inr c'" and "unpacks (al_array_type lib c) t"
    and "union_ids_ok (al_array_type lib c)"
  shows "vals c' = vals c"
proof (cases "\<exists>us fs. al_array_type lib c = Union us Sparse \<and> t = Union fs Sparse")
  case True
  then obtain us fs where u: "al_array_type lib c = Union us Sparse" "t = Union fs Sparse" by blast
  with assms(2) obtain cs where cs:
    "map (\<lambda>(i, f). arrow_result (al_cast lib (al_union_child lib c i) (field_data_type f))) fs = map Inr cs"
    "al_union_new lib fs c cs = Inr c'"
    by (auto simp: hydrate_dictionary_def bind_sum_eq_Inr collect_sum_eq_Inr)
  have "list_all2 (\<lambda>f x. vals x = vals (al_union_child lib c (fst f))) fs cs"
    by (rule hydrate_children [OF assms(1) u(1) _ _ _ cs(1)]) (use assms(3,4) u in \<open>auto simp: unpacks_union_iff\<close>)
  then show ?thesis using assms(1) cs(2) unfolding arrow_ok_def by blast
next
  case False
  then have "al_cast lib c t = Inr c'"
    using assms(2) by (auto simp: hydrate_dictionary_def split: data_type.splits union_mode.splits)
  then show ?thesis using assms(1,3) unfolding arrow_ok_def by blast
qed

lemma hydrate_rows:
  assumes ok: "arrow_ok lib vals" and h: "hydrate_dictionaries lib b s = Inr b'"
    and n: "unpacks_fields (sc_fields (al_schema lib b)) (sc_fields s)"
    and ids: "\<forall>f \<in> set (sc_fields (al_schema lib b)). union_ids_ok (field_data_type f)"
  shows "batch_rows lib vals b' = batch_rows lib vals b \<and> al_schema lib b' = s"
proof -
  let ?fs = "sc_fields (al_schema lib b)"
  from h obtain cs where
    cs: "map (\<lambda>(f, c). hydrate_dictionary lib c (field_data_type f)) (zip (sc_fields s) (al_columns lib b)) = map Inr cs"
    and "al_try_new lib s cs (al_num_rows lib b) = Inr b'"
    by (auto simp: hydrate_dictionaries_def bind_sum_eq_Inr collect_sum_eq_Inr)
  then have b': "al_schema lib b' = s" "al_columns lib b' = cs" "al_num_rows lib b' = al_num_rows lib b"
    using ok unfolding arrow_ok_def by blast+
  have types: "map (al_array_type lib) (al_columns lib b) = map field_data_type ?fs" using ok by (simp add: arrow_ok_def)
  note un = n [unfolded unpacks_fields_iff]
  have len: "length (sc_fields s) = length (al_columns lib b)" "length ?fs = length (al_columns lib b)"
    using list_all2_lengthD [OF un] arg_cong [OF types, of length] by simp_all
  then have "length cs = length (al_columns lib b)" using arg_cong [OF cs, of length] by simp
  have "map vals cs = map vals (al_columns lib b)"
  proof (rule nth_equalityI)
    fix i assume "i < length (map vals cs)"
    then have i: "i < length cs" "i < length (al_columns lib b)" "i < length (sc_fields s)" "i < length ?fs"
      using len \<open>length cs = _\<close> by simp_all
    have "hydrate_dictionary lib (al_columns lib b ! i) (field_data_type (sc_fields s ! i)) = Inr (cs ! i)"
      using arg_cong [OF cs, of "\<lambda>xs. xs ! i"] i by simp
    moreover have t: "al_array_type lib (al_columns lib b ! i) = field_data_type (?fs ! i)"
      using arg_cong [OF types, of "\<lambda>xs. xs ! i"] i by simp
    moreover have "unpacks (field_data_type (?fs ! i)) (field_data_type (sc_fields s ! i))"
      using list_all2_nthD [OF un i(4)] by (rule unpacks_field_type)
    ultimately show "map vals cs ! i = map vals (al_columns lib b) ! i"
      using hydrate_dictionary_vals [OF ok, of "al_columns lib b ! i"] ids i by simp
  qed (simp add: \<open>length cs = _\<close>)
  then have "map (\<lambda>v. v ! i) (map vals cs) = map (\<lambda>v. v ! i) (map vals (al_columns lib b))" for i
    by (rule arg_cong)
  then have "map (\<lambda>c. vals c ! i) cs = map (\<lambda>c. vals c ! i) (al_columns lib b)" for i
    unfolding map_map comp_def .
  with b' show ?thesis by (simp add: batch_rows_def)
qed

subsection \<open>The encoder and the decoder in step\<close>

fun decode_all ::
  "('b, 'y, 'r) flight_decoder \<Rightarrow> 'r \<Rightarrow> 'y flight_data list \<Rightarrow> (('b, 'y) decoded_flight_data list \<times> 'r) option" where
  "decode_all dc r [] = Some ([], r)"
| "decode_all dc r (m # ms) =
     (case dc_step dc r m of
        (Inr (Some p), r') \<Rightarrow> map_option (\<lambda>(ds, r''). (\<lparr>df_inner = m, df_payload = p\<rparr> # ds, r'')) (decode_all dc r' ms)
      | _ \<Rightarrow> None)"

lemma decoder_run_append:
  "decode_all dc r ms = Some (ds, r') \<Longrightarrow> decoder_run dc r (ms @ ms') = map Inr ds @ decoder_run dc r' ms'"
  by (induction dc r ms arbitrary: ds rule: decode_all.induct) (auto split: prod.splits sum.splits option.splits)

lemma decode_stream_append:
  "decode_flight_to_stream mc (ds @ ds') = decode_flight_to_stream mc ds @ decode_flight_to_stream mc ds'"
  by (induction mc ds rule: decode_flight_to_stream.induct) (auto split: result.splits option.splits)

lemma decode_stream_batches:
  "map df_payload ds = map PayloadBatch bs \<Longrightarrow> decode_flight_to_stream mc (map Inr ds) = map (\<lambda>b. Ok (ItemBatch b)) bs"
  by (induction ds arbitrary: bs) (auto simp: decode_item_def Cons_eq_map_conv)

lemma encoder_run_queue: "encoder_run lib e = map Inr (fe_queue e) @ encoder_run lib (e\<lparr>fe_queue := []\<rparr>)"
proof (induction "fe_queue e" arbitrary: e)
  case (Cons d q)
  have "encoder_poll_next lib e = (Some (Inr d), e\<lparr>fe_queue := q\<rparr>)"
    by (simp add: encoder_poll_next.simps [of lib e] Cons.hyps(2) [symmetric])
  then have "encoder_run lib e = Inr d # encoder_run lib (e\<lparr>fe_queue := q\<rparr>)" by (simp add: encoder_run.simps [of lib e])
  also have "\<dots> = Inr d # map Inr q @ encoder_run lib (e\<lparr>fe_queue := []\<rparr>)"
    using Cons.hyps(1) [of "e\<lparr>fe_queue := q\<rparr>"] by simp
  finally show ?case by (simp add: Cons.hyps(2) [symmetric])
next
  case Nil
  then have eq: "e\<lparr>fe_queue := []\<rparr> = e" by (cases e) simp
  show ?case by (subst eq) (simp add: Nil [symmetric])
qed

definition in_step ::
  "('d \<Rightarrow> schema option \<Rightarrow> 'r \<Rightarrow> bool) \<Rightarrow> schema \<Rightarrow> ('b, 'o, 'd, 'y) flight_data_encoder \<Rightarrow> 'r \<Rightarrow> bool" where
  "in_step sync s e r \<longleftrightarrow>
     \<not> fe_done e \<and> fe_descriptor e = None \<and> fe_dictionary_handling e = Hydrate \<and> 0 < fe_max_flight_data_size e \<and>
     (fe_schema e = None \<and> fe_app_metadata e \<noteq> None \<or> fe_schema e = Some s) \<and>
     sync (ie_dictionary_tracker (fe_encoder e)) (fe_schema e) r"

lemma encode_parts_decoded:
  assumes "codec_ok lib dc sync" and "schema_dictionary_free s" and "\<forall>b \<in> set bs. al_schema lib b = s"
    and "in_step sync s e r" and "fe_schema e = Some s"
  shows "\<exists>ms e' ds r'. encode_parts lib bs e = (Inr (), e') \<and> fe_queue e' = fe_queue e @ ms \<and>
    decode_all dc r ms = Some (ds, r') \<and> map df_payload ds = map PayloadBatch bs \<and>
    in_step sync s e' r' \<and> fe_schema e' = Some s \<and> fe_inner e' = fe_inner e"
  using assms(3-5)
proof (induction bs arbitrary: e r)
  case Nil
  then show ?case by (intro exI [of _ "[]"] exI [of _ e] exI [of _ r]) simp
next
  case (Cons b bs)
  let ?ie = "fe_encoder e"
  have "sync (ie_dictionary_tracker ?ie) (Some s) r" using Cons.prems by (simp add: in_step_def)
  then obtain m d' r1 where m: "al_encoded_batch lib b (ie_dictionary_tracker ?ie) (ie_options ?ie) = (Inr ([], m), d')"
      "dc_step dc r m = (Inr (Some (PayloadBatch b)), r1)" "sync d' (Some s) r1"
    using assms(1,2) Cons.prems(1) unfolding codec_ok_def by (metis list.set_intros(1))
  define e1 where "e1 = e\<lparr>fe_encoder := ?ie\<lparr>ie_dictionary_tracker := d'\<rparr>, fe_queue := fe_queue e @ [m]\<rparr>"
  have "in_step sync s e1 r1" "fe_schema e1 = Some s"
    using Cons.prems m(3) by (simp_all add: in_step_def e1_def)
  from Cons.IH [OF _ this] Cons.prems(1) obtain ms e' ds r' where
    IH: "encode_parts lib bs e1 = (Inr (), e')" "fe_queue e' = fe_queue e1 @ ms"
      "decode_all dc r1 ms = Some (ds, r')" "map df_payload ds = map PayloadBatch bs"
      "in_step sync s e' r'" "fe_schema e' = Some s" "fe_inner e' = fe_inner e1" by auto
  have "encode_parts lib (b # bs) e = encode_parts lib bs e1"
    using Cons.prems(2) m(1)
    by (simp add: ipc_encode_batch_def e1_def queue_messages_def queue_message_def in_step_def)
  then show ?case using IH m(2)
    by (intro exI [of _ "m # ms"] exI [of _ e'] exI [of _ "\<lparr>df_inner = m, df_payload = PayloadBatch b\<rparr> # ds"] exI [of _ r'])
      (simp add: e1_def)
qed

lemma prepare_keeps_tracker:
  "\<not> send \<Longrightarrow> snd (prepare_field_for_flight lib send f tr) = tr"
  "\<not> send \<Longrightarrow> snd (prepare_fields lib send fs tr) = tr"
  "\<not> send \<Longrightarrow> snd (prepare_union_fields lib send us tr) = tr"
  by (induction lib send f tr and lib send fs tr and lib send us tr
      rule: prepare_field_for_flight_prepare_fields_prepare_union_fields.induct)
    (auto simp: case_prod_beta prod_eq_iff)

lemma prepare_fields_no_tracker:
  "\<not> send \<Longrightarrow> fst (prepare_field_for_flight lib send f tr) = fst (prepare_field_for_flight lib send f tr')"
  "\<not> send \<Longrightarrow> fst (prepare_fields lib send fs tr) = fst (prepare_fields lib send fs tr')"
  "\<not> send \<Longrightarrow> fst (prepare_union_fields lib send us tr) = fst (prepare_union_fields lib send us tr')"
  by (induction lib send f tr and lib send fs tr and lib send us tr
      rule: prepare_field_for_flight_prepare_fields_prepare_union_fields.induct)
    (auto simp: case_prod_beta prod_eq_iff prepare_keeps_tracker)

text \<open>The schema that is sent for batches of schema \<open>s\<close> when dictionaries are hydrated.\<close>

definition sent_schema :: "('b, 'a, 'o, 'd, 'y) flight_lib \<Rightarrow> schema \<Rightarrow> schema" where
  "sent_schema lib s = fst (prepare_schema_for_flight lib False s (al_tracker_new lib True (al_preserve_dict_id lib (al_default_options lib))))"

lemma prepare_schema_sent: "prepare_schema_for_flight lib False s tr = (sent_schema lib s, tr)"
proof -
  have "fst (prepare_fields lib False fs tr) = fst (prepare_fields lib False fs tr')"
    "snd (prepare_fields lib False fs tr) = tr" for fs tr tr'
    by (rule prepare_fields_no_tracker prepare_keeps_tracker; simp)+
  then show ?thesis by (simp add: sent_schema_def prepare_schema_for_flight_def prepare_top_fields_eq case_prod_beta)
qed

lemma sent_schema_unpacks: "unpacks_fields (sc_fields s) (sc_fields (sent_schema lib s))"
  by (simp add: sent_schema_def prepare_schema_for_flight_def prepare_top_fields_eq case_prod_beta prepare_unpacks)

lemma sent_schema_dictionary_free:
  "\<forall>f \<in> set (sc_fields s). hydratable_field f \<Longrightarrow> schema_dictionary_free (sent_schema lib s)"
  using prepare_hydrates(2) [of False "sc_fields s" lib]
  by (simp add: schema_dictionary_free_def sent_schema_def prepare_schema_for_flight_def prepare_top_fields_eq case_prod_beta)

text \<open>The schema message, if it was not sent yet.\<close>

lemma schema_sent:
  assumes "codec_ok lib dc sync" and "in_step sync (sent_schema lib s) e r" and "fe_queue e = []"
  obtains e1 ms ds r1 where
    "(case fe_schema e of Some s' \<Rightarrow> (s', e) | None \<Rightarrow> encode_schema lib s e) = (sent_schema lib s, e1)"
    "fe_queue e1 = ms" "decode_all dc r ms = Some (ds, r1)" "decode_flight_to_stream mc (map Inr ds) = []"
    "in_step sync (sent_schema lib s) e1 r1" "fe_schema e1 = Some (sent_schema lib s)" "fe_inner e1 = fe_inner e"
proof (cases "fe_schema e")
  case None
  then obtain md where md: "fe_app_metadata e = Some md" using assms(2) by (auto simp: in_step_def)
  let ?s = "sent_schema lib s"
  let ?m = "(al_schema_message lib ?s (ie_options (fe_encoder e)))\<lparr>fd_app_metadata := md\<rparr>"
  have hyd: "fe_dictionary_handling e = Hydrate" "fe_descriptor e = None" "fe_schema e = None"
    "sync (ie_dictionary_tracker (fe_encoder e)) (fe_schema e) r"
    using assms(2) None by (simp_all add: in_step_def)
  obtain r1 where r1: "dc_step dc r ?m = (Inr (Some (PayloadSchema ?s)), r1)"
      "sync (ie_dictionary_tracker (fe_encoder e)) (Some ?s) r1"
    using assms(1) hyd(4) unfolding codec_ok_def by metis
  let ?e1 = "e\<lparr>fe_app_metadata := None, fe_queue := [?m], fe_schema := Some ?s\<rparr>"
  have "encode_schema lib s e = (?s, ?e1)"
    using hyd md assms(3)
    by (simp add: encode_schema_def prepare_schema_sent Let_def ipc_encode_schema_def queue_message_def)
  moreover have "in_step sync ?s ?e1 r1" using assms(2) r1(2) by (simp add: in_step_def)
  ultimately show thesis using None r1(1)
    by (intro that [of ?e1 "[?m]" "[\<lparr>df_inner = ?m, df_payload = PayloadSchema ?s\<rparr>]" r1]) (simp_all add: decode_item_def)
next
  case (Some s')
  then have "s' = sent_schema lib s" using assms(2) by (auto simp: in_step_def)
  with Some assms(2,3) show thesis by (intro that [of e "[]" "[]" r]) simp_all
qed

lemma decode_all_append:
  "decode_all dc r ms = Some (ds, r1) \<Longrightarrow> decode_all dc r1 ms' = Some (ds', r2) \<Longrightarrow> decode_all dc r (ms @ ms') = Some (ds @ ds', r2)"
  by (induction dc r ms arbitrary: ds rule: decode_all.induct) (auto split: prod.splits sum.splits option.splits)

lemma encode_batch_decoded:
  assumes ok: "arrow_ok lib vals" "codec_ok lib dc sync" and free: "schema_dictionary_free (sent_schema lib s)"
    and ids: "\<forall>f \<in> set (sc_fields s). union_ids_ok (field_data_type f)"
    and e: "in_step sync (sent_schema lib s) e r" "fe_queue e = []"
    and b: "al_schema lib b = s" "hydrate_dictionaries lib b (sent_schema lib s) = Inr b'"
  obtains e' ds r' parts where "encode_batch lib b e = (Inr (), e')" "decode_all dc r (fe_queue e') = Some (ds, r')"
    "decode_flight_to_stream mc (map Inr ds) = map (\<lambda>b. Ok (ItemBatch b)) parts"
    "concat (map (batch_rows lib vals) parts) = batch_rows lib vals b"
    "in_step sync (sent_schema lib s) e' r'" "fe_inner e' = fe_inner e"
proof -
  let ?s = "sent_schema lib s"
  obtain e1 ms ds r1 where
    1: "(case fe_schema e of Some s' \<Rightarrow> (s', e) | None \<Rightarrow> encode_schema lib s e) = (?s, e1)"
    "fe_queue e1 = ms" "decode_all dc r ms = Some (ds, r1)" "decode_flight_to_stream mc (map Inr ds) = []"
    "in_step sync ?s e1 r1" "fe_schema e1 = Some ?s" "fe_inner e1 = fe_inner e"
    by (rule schema_sent [OF ok(2) e, of mc])
  have rows: "batch_rows lib vals b' = batch_rows lib vals b" "al_schema lib b' = ?s"
    using hydrate_rows [OF ok(1) b(2)] b(1) ids by (simp_all add: sent_schema_unpacks)
  let ?max = "fe_max_flight_data_size e1" and ?n = "al_num_rows lib b'"
  have "0 < ?max" using 1(5) by (simp add: in_step_def)
  then obtain ps where
    ps: "split_batch_for_grpc_response lib b' ?max = Inr (map (\<lambda>(s, e). al_slice lib b' s (e - s)) ps)" "tiles 0 ?n ps"
    using split_loop_tiles [of 0 ?n "al_slice lib b'" "n_batches (batch_size lib b') ?max"]
    by (auto simp: split_batch_for_grpc_response_def)
  let ?parts = "map (\<lambda>(s, e). al_slice lib b' s (e - s)) ps"
  have inside: "i + (j - i) \<le> ?n" if "(i, j) \<in> set ps" for i j using tiles_inside [OF ps(2) that] by simp
  then have sch: "\<forall>p \<in> set ?parts. al_schema lib p = ?s" using ok(1) rows(2) by (auto simp: arrow_ok_def)
  obtain ms2 e' ds2 r' where
    2: "encode_parts lib ?parts e1 = (Inr (), e')" "fe_queue e' = fe_queue e1 @ ms2" "decode_all dc r1 ms2 = Some (ds2, r')"
    "map df_payload ds2 = map PayloadBatch ?parts" "in_step sync ?s e' r'" "fe_inner e' = fe_inner e1"
    using encode_parts_decoded [OF ok(2) free sch 1(5,6)] by blast
  have "map (batch_rows lib vals) ?parts = map (\<lambda>(i, j). take (j - i) (drop i (batch_rows lib vals b'))) ps"
    using batch_rows_slice [OF ok(1)] inside by auto
  then have "concat (map (batch_rows lib vals) ?parts) =
      concat (map (\<lambda>(i, j). take (j - i) (drop i (batch_rows lib vals b'))) ps)" by (rule arg_cong)
  also have "\<dots> = take (?n - 0) (drop 0 (batch_rows lib vals b'))" by (rule tiles_concat [OF ps(2)]) simp
  also have "\<dots> = batch_rows lib vals b'" by simp
  finally have rs: "concat (map (batch_rows lib vals) ?parts) = batch_rows lib vals b" unfolding rows(1) .
  have enc: "encode_batch lib b e = (Inr (), e')"
    unfolding encode_batch_def b(1) 1(1) using 1(5) b(2) ps(1) 2(1) by (simp add: in_step_def)
  have all: "decode_all dc r (fe_queue e') = Some (ds @ ds2, r')"
    using decode_all_append [OF 1(3) 2(3)] 1(2) 2(2) by simp
  have "decode_flight_to_stream mc (map Inr (ds @ ds2)) = map (\<lambda>b. Ok (ItemBatch b)) ?parts"
    using 1(4) decode_stream_batches [OF 2(4)] by (simp add: decode_stream_append)
  from that [OF enc all this rs 2(5)] show thesis using 2(6) 1(7) by simp
qed

definition marker_codec_ok :: "marker_codec \<Rightarrow> bool" where
  "marker_codec_ok mc \<longleftrightarrow> (\<forall>n < usize_limit. mc_decode mc (mc_encode mc n) = Inr n)"

text \<open>What is required of an item of the stream: it has the schema and can be hydrated.\<close>

fun sendable_item :: "('b, 'a, 'o, 'd, 'y) flight_lib \<Rightarrow> schema \<Rightarrow> 'b stream_item \<Rightarrow> bool" where
  "sendable_item lib s (ItemBatch b) \<longleftrightarrow> al_schema lib b = s \<and> (\<exists>b'. hydrate_dictionaries lib b (sent_schema lib s) = Inr b')"
| "sendable_item lib s (ItemMarker m) \<longleftrightarrow> checkpoint_number m < usize_limit"

lemma encoder_run_decoded:
  assumes ok: "arrow_ok lib vals" "codec_ok lib dc sync" "marker_codec_ok mc"
    and free: "schema_dictionary_free (sent_schema lib s)"
    and ids: "\<forall>f \<in> set (sc_fields s). union_ids_ok (field_data_type f)"
    and "\<forall>item \<in> set items. sendable_item lib s item" and "in_step sync (sent_schema lib s) e r" and "fe_queue e = []"
    and "fe_inner e = map (\<lambda>item. to_flight_item mc (Inr item)) items"
  shows "\<exists>ms out. encoder_run lib e = map Inr ms \<and> decode_flight_to_stream mc (decoder_run dc r ms) = map Ok out \<and>
    events lib vals out = events lib vals items"
  using assms(6-)
proof (induction items arbitrary: e r)
  case Nil
  then have "encoder_run lib e = []" by (simp add: encoder_run.simps [of lib e] encoder_poll_next.simps [of lib e])
  then show ?case by (intro exI [of _ "[]"]) simp
next
  case (Cons item items)
  let ?s = "sent_schema lib s"
  let ?e = "e\<lparr>fe_inner := map (\<lambda>item. to_flight_item mc (Inr item)) items\<rparr>"
  have step: "in_step sync ?s ?e r" using Cons.prems(2) by (simp add: in_step_def)
  have going: "\<not> fe_done e" using Cons.prems(2) by (simp add: in_step_def)
  show ?case
  proof (cases item)
    case (ItemMarker m)
    let ?m = "none_flight_data lib (marker_to_bytes mc m)"
    obtain r1 where r1: "dc_step dc r ?m = (Inr (Some PayloadNone), r1)"
        "sync (ie_dictionary_tracker (fe_encoder e)) (fe_schema e) r1"
      using ok(2) Cons.prems(2) unfolding codec_ok_def in_step_def by metis
    then have "in_step sync ?s ?e r1" using step by (simp add: in_step_def)
    from Cons.IH [OF _ this] Cons.prems(1,3) obtain ms out where
      IH: "encoder_run lib ?e = map Inr ms" "decode_flight_to_stream mc (decoder_run dc r1 ms) = map Ok out"
        "events lib vals out = events lib vals items" by auto
    have "encoder_poll_next lib e = (Some (Inr ?m), ?e)"
      using ItemMarker Cons.prems(3,4) going by (simp add: encoder_poll_next.simps [of lib e] to_flight_item_def)
    then have "encoder_run lib e = map Inr (?m # ms)" using IH(1) by (simp add: encoder_run.simps [of lib e])
    moreover have "marker_from_bytes mc (marker_to_bytes mc m) = Inr m"
      using ok(3) Cons.prems(1) ItemMarker
      by (simp add: marker_codec_ok_def marker_from_bytes_def marker_to_bytes_def)
    then have "decode_flight_to_stream mc (decoder_run dc r (?m # ms)) = map Ok (ItemMarker m # out)"
      using r1(1) IH(2) by (simp add: decode_item_def none_flight_data_def)
    ultimately show ?thesis using IH(3) ItemMarker
      by (intro exI [of _ "?m # ms"] exI [of _ "ItemMarker m # out"]) (simp add: events_def)
  next
    case (ItemBatch b)
    with Cons.prems(1) obtain b' where b: "al_schema lib b = s" "hydrate_dictionaries lib b ?s = Inr b'" by auto
    have q: "fe_queue ?e = []" using Cons.prems(3) by simp
    obtain e' ds r' parts where
      1: "encode_batch lib b ?e = (Inr (), e')" "decode_all dc r (fe_queue e') = Some (ds, r')"
      "decode_flight_to_stream mc (map Inr ds) = map (\<lambda>b. Ok (ItemBatch b)) parts"
      "concat (map (batch_rows lib vals) parts) = batch_rows lib vals b" "in_step sync ?s e' r'" "fe_inner e' = fe_inner ?e"
      by (rule encode_batch_decoded [OF ok(1,2) free ids step q b, of mc])
    let ?e' = "e'\<lparr>fe_queue := []\<rparr>"
    have "in_step sync ?s ?e' r'" using 1(5) by (simp add: in_step_def)
    from Cons.IH [OF _ this] Cons.prems(1) 1(6) obtain ms out where
      IH: "encoder_run lib ?e' = map Inr ms" "decode_flight_to_stream mc (decoder_run dc r' ms) = map Ok out"
        "events lib vals out = events lib vals items" by auto
    have "encoder_poll_next lib e = encoder_poll_next lib e'"
      using ItemBatch Cons.prems(3,4) going 1(1) by (simp add: encoder_poll_next.simps [of lib e] to_flight_item_def)
    then have "encoder_run lib e = encoder_run lib e'" by (simp add: encoder_run.simps [of lib e] encoder_run.simps [of lib e'])
    then have "encoder_run lib e = map Inr (fe_queue e' @ ms)" using encoder_run_queue [of lib e'] IH(1) by simp
    moreover have "decode_flight_to_stream mc (decoder_run dc r (fe_queue e' @ ms)) = map Ok (map ItemBatch parts @ out)"
      using decoder_run_append [OF 1(2), of ms] 1(3) IH(2) by (simp add: decode_stream_append comp_def)
    moreover have "events lib vals (map ItemBatch parts) = map Row (concat (map (batch_rows lib vals) parts))"
      by (simp add: events_def map_concat comp_def)
    ultimately show ?thesis using IH(3) 1(4) ItemBatch
      by (intro exI [of _ "fe_queue e' @ ms"] exI [of _ "map ItemBatch parts @ out"]) (simp add: events_def)
  qed
qed

text \<open>
  C9: what is read from the wire is what was written.  Take a stream of markers and of batches
  of one schema, in which dictionaries stand only where the preparation finds them, unions have
  distinct type ids, and the hydration of every batch succeeds.  Encoding succeeds, and decoding
  the messages gives the same rows and markers in the same order, whatever the sizes of the
  batches are and however they are split.  The casts of the hydration only unpack dictionaries
  and large lists, for which alone Arrow is relied on to keep the values.
\<close>

theorem flight_round_trip:
  assumes "arrow_ok lib vals" and "codec_ok lib dc sync" and "marker_codec_ok mc"
    and "\<forall>f \<in> set (sc_fields s). hydratable_field f" and "\<forall>f \<in> set (sc_fields s). union_ids_ok (field_data_type f)"
    and "\<forall>item \<in> set items. sendable_item lib s item"
  shows "\<exists>ms out. encode_stream_to_flight lib mc (map Inr items) = map Inr ms \<and>
    decode_flight_to_stream mc (decoder_run dc (dc_init dc) ms) = map Ok out \<and>
    events lib vals out = events lib vals items"
proof -
  let ?e = "builder_build lib (map (to_flight_item mc) (map Inr items)) (builder_new lib)"
  have "in_step sync (sent_schema lib s) ?e (dc_init dc)" "fe_queue ?e = []"
    "fe_inner ?e = map (\<lambda>item. to_flight_item mc (Inr item)) items"
    using assms(2)
    by (simp_all add: builder_build_def builder_new_def encoder_new_def in_step_def codec_ok_def flight_ipc_encoder_new_def
      grpc_target_max_flight_size_bytes_def)
  from encoder_run_decoded [OF assms(1-3) sent_schema_dictionary_free [OF assms(4)] assms(5,6) this]
  obtain ms out where "encoder_run lib ?e = map Inr ms"
    "decode_flight_to_stream mc (decoder_run dc (dc_init dc) ms) = map Ok out" "events lib vals out = events lib vals items"
    by blast
  then show ?thesis by (intro exI [of _ ms] exI [of _ out]) (simp add: encode_stream_to_flight_def)
qed

subsection \<open>A small instance\<close>

text \<open>
  Typed columns of numbers as arrays, batches as triples, and messages that hold what they stand
  for: an instance of the library and its decoder, for concrete streams.  A cast that is not an
  unpacking forgets the values.
\<close>

type_synonym small_batch = "schema \<times> nat list list \<times> nat"

type_synonym small_array = "data_type \<times> nat list"

datatype small_message = SmallNone | SmallSchema schema | SmallBatch small_batch

definition small_wellformed :: "small_batch \<Rightarrow> bool" where
  "small_wellformed b \<longleftrightarrow> length (fst (snd b)) = length (sc_fields (fst b)) \<and> (\<forall>c \<in> set (fst (snd b)). length c = snd (snd b))"

text \<open>The columns of an ill-formed triple are read as columns of zeros.\<close>

definition small_columns :: "small_batch \<Rightarrow> nat list list" where
  "small_columns b = (if small_wellformed b then fst (snd b) else map (\<lambda>_. replicate (snd (snd b)) 0) (sc_fields (fst b)))"

definition small_arrays :: "small_batch \<Rightarrow> small_array list" where
  "small_arrays b = zip (map field_data_type (sc_fields (fst b))) (small_columns b)"

definition small_try_new :: "schema \<Rightarrow> small_array list \<Rightarrow> nat \<Rightarrow> string + small_batch" where
  "small_try_new s cs n =
     (if small_wellformed (s, map snd cs, n) \<and> map fst cs = map field_data_type (sc_fields s) then Inr (s, map snd cs, n)
      else Inl ''columns do not match the schema'')"

definition small_cast :: "small_array \<Rightarrow> data_type \<Rightarrow> string + small_array" where
  "small_cast c t = Inr (t, if unpacks (fst c) t then snd c else map (\<lambda>_. 0) (snd c))"

definition small_union_child :: "small_array \<Rightarrow> int \<Rightarrow> small_array" where
  "small_union_child c i =
     (case fst c of
        Union us mode \<Rightarrow> (case map_of us i of Some f \<Rightarrow> (field_data_type f, snd c) | None \<Rightarrow> c)
      | _ \<Rightarrow> c)"

definition small_arrow :: "(small_batch, small_array, unit, unit, small_message) flight_lib" where
  "small_arrow =
     \<lparr>al_schema = fst, al_columns = small_arrays, al_num_rows = (\<lambda>b. snd (snd b)),
      al_slice = (\<lambda>b i l. (fst b, map (\<lambda>c. take l (drop i c)) (small_columns b), l)), al_try_new = small_try_new,
      al_buffer_size = (\<lambda>c. 8 * length (snd c)), al_array_type = fst, al_cast = small_cast,
      al_union_child = small_union_child, al_union_new = (\<lambda>us c _. Inr (Union us Sparse, snd c)), al_default_options = (),
      al_preserve_dict_id = (\<lambda>_. False), al_tracker_new = (\<lambda>_ _. ()), al_set_dict_id = (\<lambda>_ d. (0, d)),
      al_schema_message = (\<lambda>s _. \<lparr>fd_flight_descriptor = None, fd_data_header = SmallSchema s, fd_app_metadata = [],
        fd_data_body = SmallNone\<rparr>),
      al_encoded_batch = (\<lambda>b d _. (Inr ([], \<lparr>fd_flight_descriptor = None, fd_data_header = SmallBatch b, fd_app_metadata = [],
        fd_data_body = SmallNone\<rparr>), d)),
      al_none_message = SmallNone, al_empty_bytes = SmallNone\<rparr>"

definition small_decoder :: "(small_batch, small_message, unit) flight_decoder" where
  "small_decoder =
     \<lparr>dc_init = (), dc_step = (\<lambda>r m.
        (Inr (Some (case fd_data_header m of SmallNone \<Rightarrow> PayloadNone | SmallSchema s \<Rightarrow> PayloadSchema s
                    | SmallBatch b \<Rightarrow> PayloadBatch b)), r))\<rparr>"

text \<open>The number of a marker as that many bytes.\<close>

definition small_marker_codec :: marker_codec where
  "small_marker_codec = \<lparr>mc_encode = (\<lambda>n. replicate n 0), mc_decode = (\<lambda>bs. Inr (length bs))\<rparr>"

lemma small_columns_length:
  "length (small_columns b) = length (sc_fields (fst b))" "c \<in> set (small_columns b) \<Longrightarrow> length c = snd (snd b)"
  by (auto simp: small_columns_def small_wellformed_def split: if_splits)

lemma small_slice_columns:
  assumes "i + l \<le> snd (snd b)"
  shows "small_columns (fst b, map (\<lambda>c. take l (drop i c)) (small_columns b), l) = map (\<lambda>c. take l (drop i c)) (small_columns b)"
proof -
  have "small_wellformed (fst b, map (\<lambda>c. take l (drop i c)) (small_columns b), l)"
    using assms small_columns_length(1) [of b] small_columns_length(2) [of _ b] by (auto simp: small_wellformed_def)
  then show ?thesis by (simp add: small_columns_def)
qed

lemma small_arrays_vals: "map snd (small_arrays b) = small_columns b" "map fst (small_arrays b) = map field_data_type (sc_fields (fst b))"
  using small_columns_length(1) [of b] by (simp_all add: small_arrays_def)

lemma small_try_new_arrays: "small_try_new s cs n = Inr b \<Longrightarrow> fst b = s \<and> small_arrays b = cs \<and> snd (snd b) = n"
  by (auto simp: small_try_new_def small_arrays_def small_columns_def zip_map_fst_snd split: if_splits)
    (metis zip_map_fst_snd)

lemma small_arrow_ok: "arrow_ok small_arrow snd"
  unfolding arrow_ok_def
proof (intro conjI allI impI ballI)
  fix b c assume "c \<in> set (al_columns small_arrow b)"
  then have "snd c \<in> set (small_columns b)" by (simp add: small_arrow_def small_arrays_def) (metis set_zip_rightD surjective_pairing)
  then show "length (snd c) = al_num_rows small_arrow b"
    using small_columns_length(2) by (simp add: small_arrow_def)
next
  fix b i l assume "i + l \<le> al_num_rows small_arrow b"
  then have "i + l \<le> snd (snd b)" by (simp add: small_arrow_def)
  note cols = small_slice_columns [OF this]
  have "map (\<lambda>c. take l (drop i (snd c))) (small_arrays b) = map (\<lambda>c. take l (drop i c)) (map snd (small_arrays b))" by simp
  with cols show "map snd (al_columns small_arrow (al_slice small_arrow b i l)) =
      map (\<lambda>c. take l (drop i (snd c))) (al_columns small_arrow b)"
    by (simp add: small_arrow_def small_arrays_vals)
qed (use small_try_new_arrays in \<open>auto simp: small_arrow_def small_arrays_vals small_cast_def small_union_child_def\<close>)

lemma small_codec_ok: "codec_ok small_arrow small_decoder (\<lambda>_ _ _. True)"
  by (simp add: codec_ok_def small_arrow_def small_decoder_def none_flight_data_def)

lemma small_marker_codec_ok: "marker_codec_ok small_marker_codec"
  by (simp add: marker_codec_ok_def small_marker_codec_def)

abbreviation word_field :: field where
  "word_field \<equiv> Field ''word'' (Dictionary (Plain ''UInt8'') (Plain ''UInt64'')) False [] 0 False"

theorem flight_round_trip_witness:
  "\<exists>ms out. encode_stream_to_flight small_arrow small_marker_codec
       [Inr (ItemBatch (\<lparr>sc_fields = [word_field], sc_metadata = []\<rparr>, [[3, 5]], 2)), Inr (ItemMarker (Marker 1))] = map Inr ms \<and>
     decode_flight_to_stream small_marker_codec (decoder_run small_decoder (dc_init small_decoder) ms) = map Ok out \<and>
     events small_arrow snd out = [Row [3], Row [5], Mark (Marker 1)]"
proof -
  let ?s = "\<lparr>sc_fields = [word_field], sc_metadata = []\<rparr>"
  let ?items = "[ItemBatch (?s, [[3, 5]], 2), ItemMarker (Marker 1)] :: small_batch stream_item list"
  have h: "\<forall>f \<in> set (sc_fields ?s). hydratable_field f" "\<forall>f \<in> set (sc_fields ?s). union_ids_ok (field_data_type f)" by simp_all
  have "hydrate_dictionaries small_arrow (?s, [[3, 5]], 2) (sent_schema small_arrow ?s) =
      Inr (sent_schema small_arrow ?s, [[3, 5]], 2)"
    by (simp add: hydrate_dictionaries_def sent_schema_def prepare_schema_for_flight_def prepare_top_field_def small_arrow_def
      small_arrays_def small_columns_def small_wellformed_def hydrate_dictionary_def small_try_new_def small_cast_def field_new_def)
  then have s: "\<forall>item \<in> set ?items. sendable_item small_arrow ?s item"
    by (auto simp: small_arrow_def usize_limit_def)
  have "events small_arrow snd ?items = [Row [3], Row [5], Mark (Marker 1)]"
    by (simp add: events_def batch_rows_def small_arrow_def small_arrays_def small_columns_def small_wellformed_def upt_rec)
  then show ?thesis
    using flight_round_trip [OF small_arrow_ok small_codec_ok small_marker_codec_ok h s] by simp
qed

theorem split_batch_parts_witness:
  "\<exists>ps. split_batch_for_grpc_response small_arrow (\<lparr>sc_fields = [word_field], sc_metadata = []\<rparr>, [[3, 5, 7]], 3) 8 =
      Inr (map (\<lambda>(s, e). al_slice small_arrow (\<lparr>sc_fields = [word_field], sc_metadata = []\<rparr>, [[3, 5, 7]], 3) s (e - s)) ps) \<and>
    tiles 0 3 ps"
  using split_batch_parts [where max_size = 8 and lib = small_arrow and batch = "(\<lparr>sc_fields = [word_field], sc_metadata = []\<rparr>, [[3, 5, 7]], 3)"]
  by (auto simp: small_arrow_def)

theorem prepared_schema_dictionary_free_witness:
  "hydratable_field word_field \<and>
   list_all dictionary_free_field
     (sc_fields (fst (prepare_schema_for_flight small_arrow False \<lparr>sc_fields = [word_field], sc_metadata = []\<rparr> ())))"
  using prepared_schema_dictionary_free [where s = "\<lparr>sc_fields = [word_field], sc_metadata = []\<rparr>" and lib = small_arrow and tr = "()"]
  by (simp add: list_all_iff)

text \<open>
  A dictionary in a list of fixed size stays a dictionary, although the documentation says
  that all dictionaries are hydrated.
\<close>

lemma fixed_size_list_keeps_dictionary:
  "prepare_field_for_flight lib False (Field n (FixedSizeList word_field k) nullable md i ord) tr =
     (Field n (FixedSizeList word_field k) nullable md i ord, tr)"
  by simp
end
