(* ===== verification/Operators.thy ===== *)
theory Operators
  imports Count_Operators Remote_Source
begin

text \<open>
  \<open>src/streaming/operators/operator.rs\<close>, \<open>nested.rs\<close>, \<open>utils/example_ref_storage.rs\<close> and
  \<open>src/streaming/task_definition_2.rs\<close>: operator specifications, the functions they create,
  the nested operator that connects operators by named streams, and the traversals of a task
  definition.

  The operator functions are one datatype with a constructor per implementation of
  \<open>OperatorFunction2\<close>; \<open>op_init\<close>, \<open>op_load\<close> and \<open>op_run\<close> dispatch on it as the trait object
  does.  Streams are run to their end, so the state an operator reaches by producing its
  output is the state after \<open>op_run\<close>.  What is outside of the operators, the database, the
  file systems, the kernels and the network, are fields of \<open>op_env\<close>; the local disk and the
  exchange channels are the state \<open>op_world\<close> that is passed along.

  The futures of a nested operator are polled in the order of the operators.  A future that
  waits for a stream stays pending: no \<open>insert\<close> wakes it up, because inserting where a taker
  waits is an error.  The theorems show that operators that are listed after their producers
  run as a plain sequence over named streams, and that no operator fails with an error the
  task loop would retry.
\<close>

subsection \<open>Specifications\<close>

record operator_input =
  oi_stream_id :: string
  oi_ordinal :: usize

record operator_output =
  oo_stream_id :: string
  oo_ordinal :: usize

text \<open>
  The schema of an exchange output is left out: it serves only to read the expressions of its
  partitioning back and is kept where tasks are written and read.
\<close>

datatype ('b, 'e) operator_spec =
    Identity
  | Source "'b stream_item list" usize
  | CountStar
  | CountByKey string
  | Nested "(usize \<times> string) list" "('b, 'e) operator_definition list" "(usize \<times> string) list"
  | RemoteExchangeOutput string "'e partitioning_spec option"
  | RemoteExchangeInput "string list"
and ('b, 'e) operator_definition =
  OperatorDefinition (od_id: string) (od_state_id: string) (od_spec: "('b, 'e) operator_spec")
    (od_inputs: "operator_input list") (od_outputs: "operator_output list")

record ('b, 'e) task_definition2 =
  td_task_id :: string
  td_operator :: "('b, 'e) operator_definition"

fun get_exchange_outputs :: "('b, 'e) operator_spec \<Rightarrow> string list"
  and nested_exchange_outputs :: "('b, 'e) operator_definition list \<Rightarrow> string list" where
  "get_exchange_outputs Identity = []"
| "get_exchange_outputs (Source _ _) = []"
| "get_exchange_outputs CountStar = []"
| "get_exchange_outputs (CountByKey _) = []"
| "get_exchange_outputs (RemoteExchangeInput _) = []"
| "get_exchange_outputs (RemoteExchangeOutput stream_id _) = [stream_id]"
| "get_exchange_outputs (Nested _ operators _) = nested_exchange_outputs operators"
| "nested_exchange_outputs [] = []"
| "nested_exchange_outputs (OperatorDefinition _ _ spec _ _ # ops) =
     get_exchange_outputs spec @ nested_exchange_outputs ops"

fun get_exchange_inputs :: "('b, 'e) operator_spec \<Rightarrow> string list"
  and nested_exchange_inputs :: "('b, 'e) operator_definition list \<Rightarrow> string list" where
  "get_exchange_inputs Identity = []"
| "get_exchange_inputs (Source _ _) = []"
| "get_exchange_inputs CountStar = []"
| "get_exchange_inputs (CountByKey _) = []"
| "get_exchange_inputs (RemoteExchangeOutput _ _) = []"
| "get_exchange_inputs (RemoteExchangeInput stream_ids) = stream_ids"
| "get_exchange_inputs (Nested _ operators _) = nested_exchange_inputs operators"
| "nested_exchange_inputs [] = []"
| "nested_exchange_inputs (OperatorDefinition _ _ spec _ _ # ops) =
     get_exchange_inputs spec @ nested_exchange_inputs ops"

fun get_used_state_ids :: "('b, 'e) operator_definition \<Rightarrow> string list"
  and nested_used_state_ids :: "('b, 'e) operator_definition list \<Rightarrow> string list" where
  "get_used_state_ids (OperatorDefinition _ _ Identity _ _) = []"
| "get_used_state_ids (OperatorDefinition _ _ (Source _ _) _ _) = []"
| "get_used_state_ids (OperatorDefinition _ state_id CountStar _ _) = [state_id]"
| "get_used_state_ids (OperatorDefinition _ state_id (CountByKey _) _ _) = [state_id]"
| "get_used_state_ids (OperatorDefinition _ _ (RemoteExchangeInput _) _ _) = []"
| "get_used_state_ids (OperatorDefinition _ _ (RemoteExchangeOutput _ _) _ _) = []"
| "get_used_state_ids (OperatorDefinition _ _ (Nested _ operators _) _ _) = nested_used_state_ids operators"
| "nested_used_state_ids [] = []"
| "nested_used_state_ids (op # ops) = get_used_state_ids op @ nested_used_state_ids ops"

definition exchange_outputs :: "('b, 'e) task_definition2 \<Rightarrow> string list" where
  "exchange_outputs td = get_exchange_outputs (od_spec (td_operator td))"

definition exchange_inputs :: "('b, 'e) task_definition2 \<Rightarrow> string list" where
  "exchange_inputs td = get_exchange_inputs (od_spec (td_operator td))"

definition used_state_ids :: "('b, 'e) task_definition2 \<Rightarrow> string list" where
  "used_state_ids td = get_used_state_ids (td_operator td)"

subsection \<open>Operator functions\<close>

datatype ('b, 'e, 'c, 'db) operator_function =
    IdentityFunction
  | SourceFunction "'b source_function"
  | CountStarFunction "('c, 'db) count_star_function"
  | CountByKeyFunction "('c, 'db) count_by_key_function"
  | NestedFunction "(usize \<times> string) list" "('b, 'e, 'c, 'db) nested_operator list" "(usize \<times> string) list"
  | RemoteExchangeFunction "'e remote_exchange_function"
  | RemoteSourceFunction remote_source_function
and ('b, 'e, 'c, 'db) nested_operator =
  NestedOperator (no_definition: "('b, 'e) operator_definition") (no_function: "('b, 'e, 'c, 'db) operator_function")

fun create_operator_function :: "('b, 'e) operator_spec \<Rightarrow> ('b, 'e, 'c, 'db) operator_function"
  and create_nested_functions :: "('b, 'e) operator_definition list \<Rightarrow> ('b, 'e, 'c, 'db) nested_operator list" where
  "create_operator_function Identity = IdentityFunction"
| "create_operator_function (Source items num_iterations) = SourceFunction (source_new items num_iterations)"
| "create_operator_function CountStar = CountStarFunction count_star_new"
| "create_operator_function (CountByKey key_col) = CountByKeyFunction (count_by_key_new key_col)"
| "create_operator_function (Nested inputs operators outputs) =
     NestedFunction inputs (create_nested_functions operators) outputs"
| "create_operator_function (RemoteExchangeOutput stream_id partitioning) =
     RemoteExchangeFunction (remote_exchange_new stream_id partitioning)"
| "create_operator_function (RemoteExchangeInput stream_ids) = RemoteSourceFunction (remote_source_new stream_ids)"
| "create_nested_functions [] = []"
| "create_nested_functions (OperatorDefinition i s spec ins outs # ops) =
     NestedOperator (OperatorDefinition i s spec ins outs) (create_operator_function spec) # create_nested_functions ops"

text \<open>
  \<open>ev_uuid k n\<close> is the \<open>n\<close>-th identifier drawn by the \<open>k\<close>-th call that draws any;
  \<open>ev_receive\<close> gives what the pulls of a remote stream yield.
\<close>

record ('b, 'c, 'db, 'sst) op_env =
  ev_rocks :: "('c, 'db, 'sst) rocks"
  ev_json :: "'c json_lib"
  ev_remote :: "'c state_storage"
  ev_remote_disk :: "'c node"
  ev_local_fs :: "'c fs_storage"
  ev_sst_dir :: path
  ev_fuel :: nat
  ev_uuid :: "nat \<Rightarrow> nat \<Rightarrow> string"
  ev_row_count :: "'b \<Rightarrow> usize"
  ev_count_batch :: "u64 \<Rightarrow> 'b"
  ev_key_values :: "string \<Rightarrow> 'b \<Rightarrow> key_column result"
  ev_counts_batch :: "(u64 \<times> u64) list \<Rightarrow> 'b"
  ev_entries :: "(u64 \<Rightarrow> u64 option) \<Rightarrow> (u64 \<times> u64) list"
  ev_merge :: "'b sitem result list list \<Rightarrow> 'b sitem result list"
  ev_receive :: "'b running_stream \<Rightarrow> 'b sitem result fiber_stream"

record ('b, 'e, 'c) op_world =
  ow_disk :: "'c node"
  ow_exchange :: "('b, 'e) exchange_channel_store"
  ow_calls :: nat

fun op_init ::
  "('b, 'c, 'db, 'sst) op_env \<Rightarrow> scheduling_details \<Rightarrow> string \<Rightarrow> ('b, 'e, 'c, 'db) operator_function \<Rightarrow> ('b, 'e, 'c) op_world
     \<Rightarrow> (('b, 'e, 'c, 'db) operator_function \<times> ('b, 'e, 'c) op_world) result"
  and nested_init ::
  "('b, 'c, 'db, 'sst) op_env \<Rightarrow> scheduling_details \<Rightarrow> ('b, 'e, 'c, 'db) nested_operator list \<Rightarrow> ('b, 'e, 'c) op_world
     \<Rightarrow> (('b, 'e, 'c, 'db) nested_operator list \<times> ('b, 'e, 'c) op_world) result" where
  "op_init env details state_id IdentityFunction w = Ok (IdentityFunction, w)"
| "op_init env details state_id (SourceFunction f) w = Ok (SourceFunction f, w)"
| "op_init env details state_id (CountStarFunction f) w =
     bind_result (count_star_init (ev_rocks env) (ev_remote env) (ev_local_fs env) (ev_uuid env (ow_calls w) 0) details state_id
         (f, ow_disk w)) (\<lambda>(f', disk).
     Ok (CountStarFunction f', w\<lparr>ow_disk := disk, ow_calls := Suc (ow_calls w)\<rparr>))"
| "op_init env details state_id (CountByKeyFunction f) w =
     bind_result (count_by_key_init (ev_rocks env) (ev_remote env) (ev_local_fs env) (ev_uuid env (ow_calls w) 0) details state_id
         (f, ow_disk w)) (\<lambda>(f', disk).
     Ok (CountByKeyFunction f', w\<lparr>ow_disk := disk, ow_calls := Suc (ow_calls w)\<rparr>))"
| "op_init env details state_id (NestedFunction ins ops outs) w =
     bind_result (nested_init env details ops w) (\<lambda>(ops', w'). Ok (NestedFunction ins ops' outs, w'))"
| "op_init env details state_id (RemoteExchangeFunction f) w =
     bind_result (remote_exchange_init details f (ow_exchange w)) (\<lambda>(f', st).
     Ok (RemoteExchangeFunction f', w\<lparr>ow_exchange := st\<rparr>))"
| "op_init env details state_id (RemoteSourceFunction f) w =
     bind_result (remote_source_init details f) (\<lambda>f'. Ok (RemoteSourceFunction f', w))"
| "nested_init env details [] w = Ok ([], w)"
| "nested_init env details (NestedOperator def f # ops) w =
     bind_result (op_init env details (od_state_id def) f w) (\<lambda>(f', w').
     bind_result (nested_init env details ops w') (\<lambda>(ops', w'').
     Ok (NestedOperator def f' # ops', w'')))"

fun op_load ::
  "('b, 'c, 'db, 'sst) op_env \<Rightarrow> usize \<Rightarrow> ('b, 'e, 'c, 'db) operator_function \<Rightarrow> ('b, 'e, 'c) op_world
     \<Rightarrow> (('b, 'e, 'c, 'db) operator_function \<times> ('b, 'e, 'c) op_world) result option"
  and nested_load ::
  "('b, 'c, 'db, 'sst) op_env \<Rightarrow> usize \<Rightarrow> ('b, 'e, 'c, 'db) nested_operator list \<Rightarrow> ('b, 'e, 'c) op_world
     \<Rightarrow> (('b, 'e, 'c, 'db) nested_operator list \<times> ('b, 'e, 'c) op_world) result option" where
  "op_load env checkpoint IdentityFunction w = Some (Ok (IdentityFunction, w))"
| "op_load env checkpoint (SourceFunction f) w =
     Some (bind_result (source_load checkpoint f) (\<lambda>f'. Ok (SourceFunction f', w)))"
| "op_load env checkpoint (CountStarFunction f) w =
     bind_run (count_star_load (ev_rocks env) (ev_json env) (ev_fuel env) (ev_uuid env (ow_calls w) 0) (ev_sst_dir env)
         (ev_remote_disk env) checkpoint (f, ow_disk w)) (\<lambda>(f', disk).
     Some (Ok (CountStarFunction f', w\<lparr>ow_disk := disk, ow_calls := Suc (ow_calls w)\<rparr>)))"
| "op_load env checkpoint (CountByKeyFunction f) w =
     bind_run (count_by_key_load (ev_rocks env) (ev_json env) (ev_fuel env) (ev_uuid env (ow_calls w) 0) (ev_sst_dir env)
         (ev_remote_disk env) checkpoint (f, ow_disk w)) (\<lambda>(f', disk).
     Some (Ok (CountByKeyFunction f', w\<lparr>ow_disk := disk, ow_calls := Suc (ow_calls w)\<rparr>)))"
| "op_load env checkpoint (NestedFunction ins ops outs) w =
     bind_run (nested_load env checkpoint ops w) (\<lambda>(ops', w'). Some (Ok (NestedFunction ins ops' outs, w')))"
| "op_load env checkpoint (RemoteExchangeFunction f) w = Some (Ok (RemoteExchangeFunction f, w))"
| "op_load env checkpoint (RemoteSourceFunction f) w =
     Some (bind_result (remote_source_load checkpoint f) (\<lambda>f'. Ok (RemoteSourceFunction f', w)))"
| "nested_load env checkpoint [] w = Some (Ok ([], w))"
| "nested_load env checkpoint (NestedOperator def f # ops) w =
     bind_run (op_load env checkpoint f w) (\<lambda>(f', w').
     bind_run (nested_load env checkpoint ops w') (\<lambda>(ops', w'').
     Some (Ok (NestedOperator def f' # ops', w''))))"

text \<open>\<open>last_checkpoint\<close>: all functions answer zero, the nested one is not written yet.\<close>

fun op_last_checkpoint :: "('b, 'e, 'c, 'db) operator_function \<Rightarrow> usize result" where
  "op_last_checkpoint (NestedFunction _ _ _) = Err (Panic ''not yet implemented'')"
| "op_last_checkpoint _ = Ok 0"

subsection \<open>The store of streams\<close>

datatype 's chan_item = ChanWaiting | ChanStored "'s option"

type_synonym 's chan_store = "string \<Rightarrow> 's chan_item option"

definition chan_new :: "'s chan_store" where
  "chan_new = (\<lambda>_. None)"

definition chan_insert :: "string \<Rightarrow> 's \<Rightarrow> 's chan_store \<Rightarrow> 's chan_store result" where
  "chan_insert key v st =
     (case st key of
        Some _ \<Rightarrow> Err (Internal ''Spot in store already taken'')
      | None \<Rightarrow> Ok (st(key \<mapsto> ChanStored (Some v))))"

datatype 's taken = Took 's | TakeFails df_error | TakeWaits

definition chan_take :: "string \<Rightarrow> 's chan_store \<Rightarrow> 's taken \<times> 's chan_store" where
  "chan_take key st =
     (case st key of
        Some (ChanStored (Some v)) \<Rightarrow> (Took v, st(key \<mapsto> ChanStored None))
      | Some (ChanStored None) \<Rightarrow> (TakeFails (Internal ''Another operator already took this value''), st)
      | Some ChanWaiting \<Rightarrow> (TakeFails (Internal ''Another operator was already waiting for item''), st)
      | None \<Rightarrow> (TakeWaits, st(key \<mapsto> ChanWaiting)))"

text \<open>
  Taking several streams: every future is polled, a failed one is unwrapped, and one that
  waits keeps the whole waiting.
\<close>

fun take_streams :: "(usize \<times> string) list \<Rightarrow> 's chan_store \<Rightarrow> (usize \<times> 's) list taken \<times> 's chan_store" where
  "take_streams [] st = (Took [], st)"
| "take_streams ((ordinal, stream_id) # specs) st =
     (case chan_take stream_id st of
        (TakeFails e, st1) \<Rightarrow> (TakeFails (Panic ''called unwrap on an Err value''), st1)
      | (Took s, st1) \<Rightarrow>
          (case take_streams specs st1 of
             (Took ss, st2) \<Rightarrow> (Took ((ordinal, s) # ss), st2)
           | other \<Rightarrow> other)
      | (TakeWaits, st1) \<Rightarrow>
          (case take_streams specs st1 of
             (Took ss, st2) \<Rightarrow> (TakeWaits, st2)
           | other \<Rightarrow> other))"

text \<open>The lookup tables are hash maps: of several entries for an ordinal the last one counts.\<close>

definition ordinal_lookup :: "(usize \<times> string) list \<Rightarrow> usize \<Rightarrow> string option" where
  "ordinal_lookup specs = map_of (rev specs)"

fun insert_external :: "(usize \<times> string) list \<Rightarrow> (usize \<times> 's) list \<Rightarrow> 's chan_store \<Rightarrow> 's chan_store result" where
  "insert_external specs [] st = Ok st"
| "insert_external specs ((ordinal, s) # streams) st =
     (case ordinal_lookup specs ordinal of
        None \<Rightarrow> Err (Panic ''called unwrap on an Err value'')
      | Some stream_id \<Rightarrow> bind_result (chan_insert stream_id s st) (insert_external specs streams))"

fun insert_outputs :: "(usize \<times> string) list \<Rightarrow> (usize \<times> 's) list \<Rightarrow> 's chan_store \<Rightarrow> 's chan_store result" where
  "insert_outputs specs [] st = Ok st"
| "insert_outputs specs ((ordinal, s) # streams) st =
     bind_result (ok_or (ordinal_lookup specs ordinal) (Internal ''No stream id found for ordinal'')) (\<lambda>stream_id.
     bind_result (chan_insert stream_id s st) (insert_outputs specs streams))"

definition input_specs :: "('b, 'e) operator_definition \<Rightarrow> (usize \<times> string) list" where
  "input_specs def = map (\<lambda>i. (oi_ordinal i, oi_stream_id i)) (od_inputs def)"

definition output_specs :: "('b, 'e) operator_definition \<Rightarrow> (usize \<times> string) list" where
  "output_specs def = map (\<lambda>i. (oo_ordinal i, oo_stream_id i)) (od_outputs def)"

subsection \<open>Running\<close>

text \<open>
  A run returns its output streams, stays pending for ever, or fails.
\<close>

datatype ('o, 'f, 'w) run_outcome = RunReturns 'o 'f 'w | RunPends 'f 'w | RunFails df_error 'f 'w

fun lift_run :: "('o \<times> 'g \<times> 'w) result \<Rightarrow> ('g \<Rightarrow> 'f) \<Rightarrow> 'f \<Rightarrow> 'w \<Rightarrow> ('o, 'f, 'w) run_outcome" where
  "lift_run (Ok (out, g, w')) mk f w = RunReturns out (mk g) w'"
| "lift_run (Err e) mk f w = RunFails e f w"

fun op_run ::
  "('b, 'c, 'db, 'sst) op_env \<Rightarrow> ('b, 'e, 'c, 'db) operator_function \<Rightarrow> (usize \<times> 'b sitem result fiber_stream) list
     \<Rightarrow> ('b, 'e, 'c) op_world
     \<Rightarrow> ((usize \<times> 'b sitem result fiber_stream) list, ('b, 'e, 'c, 'db) operator_function, ('b, 'e, 'c) op_world) run_outcome"
  and run_operators ::
  "('b, 'c, 'db, 'sst) op_env \<Rightarrow> ('b, 'e, 'c, 'db) nested_operator list \<Rightarrow> 'b sitem result fiber_stream chan_store
     \<Rightarrow> ('b, 'e, 'c) op_world
     \<Rightarrow> ('b sitem result fiber_stream chan_store, ('b, 'e, 'c, 'db) nested_operator list, ('b, 'e, 'c) op_world) run_outcome" where
  "op_run env IdentityFunction inputs w =
     lift_run (bind_result (identity_run inputs) (\<lambda>out. Ok (out, (), w))) (\<lambda>_. IdentityFunction) IdentityFunction w"
| "op_run env (SourceFunction f) inputs w =
     lift_run (bind_result (source_run inputs f) (\<lambda>out. Ok (out, f, w))) SourceFunction (SourceFunction f) w"
| "op_run env (CountStarFunction f) inputs w =
     lift_run (bind_result (count_star_run (ev_rocks env) (ev_row_count env) (ev_count_batch env) (ev_uuid env (ow_calls w))
         (ev_merge env) inputs (f, ow_disk w)) (\<lambda>(out, f', disk).
       Ok (out, f', w\<lparr>ow_disk := disk, ow_calls := Suc (ow_calls w)\<rparr>))) CountStarFunction (CountStarFunction f) w"
| "op_run env (CountByKeyFunction f) inputs w =
     lift_run (bind_result (count_by_key_run (ev_rocks env) (ev_key_values env) (ev_counts_batch env) (ev_entries env)
         (ev_uuid env (ow_calls w)) (ev_merge env) inputs (f, ow_disk w)) (\<lambda>(out, f', disk).
       Ok (out, f', w\<lparr>ow_disk := disk, ow_calls := Suc (ow_calls w)\<rparr>))) CountByKeyFunction (CountByKeyFunction f) w"
| "op_run env (RemoteExchangeFunction f) inputs w =
     lift_run (bind_result (remote_exchange_run (ev_merge env) inputs f (ow_exchange w)) (\<lambda>(f', st).
       Ok ([], f', w\<lparr>ow_exchange := st\<rparr>))) RemoteExchangeFunction (RemoteExchangeFunction f) w"
| "op_run env (RemoteSourceFunction f) inputs w =
     lift_run (bind_result (remote_source_run inputs f) (\<lambda>out.
       Ok (map (map_prod id (ev_receive env)) out, f, w))) RemoteSourceFunction (RemoteSourceFunction f) w"
| "op_run env (NestedFunction ins ops outs) inputs w =
     (case insert_external ins inputs chan_new of
        Err e \<Rightarrow> RunFails e (NestedFunction ins ops outs) w
      | Ok channels \<Rightarrow>
          (case run_operators env ops channels w of
             RunFails e ops' w' \<Rightarrow> RunFails e (NestedFunction ins ops' outs) w'
           | RunPends ops' w' \<Rightarrow> RunPends (NestedFunction ins ops' outs) w'
           | RunReturns channels' ops' w' \<Rightarrow>
               (case fst (take_streams outs channels') of
                  TakeFails e \<Rightarrow> RunFails e (NestedFunction ins ops' outs) w'
                | TakeWaits \<Rightarrow> RunPends (NestedFunction ins ops' outs) w'
                | Took streams \<Rightarrow> RunReturns streams (NestedFunction ins ops' outs) w')))"
| "run_operators env [] channels w = RunReturns channels [] w"
| "run_operators env (NestedOperator def f # ops) channels w =
     (case take_streams (input_specs def) channels of
        (TakeFails e, channels1) \<Rightarrow> RunFails e (NestedOperator def f # ops) w
      | (TakeWaits, channels1) \<Rightarrow>
          (case run_operators env ops channels1 w of
             RunFails e ops' w' \<Rightarrow> RunFails e (NestedOperator def f # ops') w'
           | RunPends ops' w' \<Rightarrow> RunPends (NestedOperator def f # ops') w'
           | RunReturns _ ops' w' \<Rightarrow> RunPends (NestedOperator def f # ops') w')
      | (Took inputs, channels1) \<Rightarrow>
          (case op_run env f inputs w of
             RunFails e f' w1 \<Rightarrow> RunFails e (NestedOperator def f' # ops) w1
           | RunPends f' w1 \<Rightarrow>
               (case run_operators env ops channels1 w1 of
                  RunFails e ops' w' \<Rightarrow> RunFails e (NestedOperator def f' # ops') w'
                | RunPends ops' w' \<Rightarrow> RunPends (NestedOperator def f' # ops') w'
                | RunReturns _ ops' w' \<Rightarrow> RunPends (NestedOperator def f' # ops') w')
           | RunReturns outputs f' w1 \<Rightarrow>
               (case insert_outputs (output_specs def) outputs channels1 of
                  Err e \<Rightarrow> RunFails e (NestedOperator def f' # ops) w1
                | Ok channels2 \<Rightarrow>
                    (case run_operators env ops channels2 w1 of
                       RunFails e ops' w' \<Rightarrow> RunFails e (NestedOperator def f' # ops') w'
                     | RunPends ops' w' \<Rightarrow> RunPends (NestedOperator def f' # ops') w'
                     | RunReturns channels3 ops' w' \<Rightarrow> RunReturns channels3 (NestedOperator def f' # ops') w'))))"

subsection \<open>Errors of a run\<close>

text \<open>The errors the task loop retries are the external ones.\<close>

fun retryable :: "df_error \<Rightarrow> bool" where
  "retryable (External _) = True"
| "retryable _ = False"

fun fails_final :: "'a result \<Rightarrow> bool" where
  "fails_final (Err e) = (\<not> retryable e)"
| "fails_final (Ok _) = True"

lemma fails_final_bind: "fails_final r \<Longrightarrow> (\<And>x. r = Ok x \<Longrightarrow> fails_final (f x)) \<Longrightarrow> fails_final (bind_result r f)"
  by (cases r) auto

lemma fails_final_ok_or: "\<not> retryable e \<Longrightarrow> fails_final (ok_or x e)"
  by (cases x) auto

lemma fails_final_combined: "fails_final (combined merge pulls)"
proof (induction merge pulls rule: combined.induct)
  case (3 merge fibers pulls)
  then show ?case by (cases "combined merge pulls") auto
qed auto

lemma fails_final_max_marker: "fails_final (max_marker items)"
  by (simp add: max_marker_def split: list.split)

lemma fails_final_channel_send: "fails_final (channel_send item ch sender)"
  by (auto simp: channel_send_def send_notify_def split: result.split prod.split option.split)

lemma fails_final_exchange_write: "fails_final (exchange_write items s)"
proof (induction items s rule: exchange_write.induct)
  case (2 item items s)
  then show ?case
    by (auto intro!: fails_final_bind simp: fails_final_channel_send split: result.split sitem.split)
qed simp

lemmas fails_final_intros =
  fails_final_bind fails_final_ok_or fails_final_combined fails_final_max_marker fails_final_exchange_write

lemma fails_final_runs:
  "fails_final (source_run inputs sf)"
  "fails_final (count_star_run rk row_count count_batch uuid merge ins s)"
  "fails_final (count_by_key_run rk key_values counts_batch entries uuid merge ins s')"
  "fails_final (remote_exchange_run merge ins ef st)"
  "fails_final (remote_source_run inputs rf)"
  by (auto simp: source_run_def count_star_run_def count_by_key_run_def remote_exchange_run_def remote_source_run_def Let_def
    intro!: fails_final_intros split: prod.split)

lemma fails_final_insert: "fails_final (insert_external specs ss st)" "fails_final (insert_outputs specs ss st)"
  by (induction ss arbitrary: st)
    (auto simp: chan_insert_def intro!: fails_final_intros split: prod.split option.split)

lemma take_streams_fails: "fst (take_streams specs st) = TakeFails e \<Longrightarrow> \<not> retryable e"
  by (induction specs st rule: take_streams.induct) (auto split: prod.splits taken.splits)

lemma lift_run_fails: "lift_run r mk f w = RunFails e f' w' \<Longrightarrow> fails_final r \<Longrightarrow> \<not> retryable e"
  by (cases r) auto

lemma op_run_fails_final:
  fixes env :: "('b, 'c, 'db, 'sst) op_env" and f :: "('b, 'e, 'c, 'db) operator_function"
    and ops :: "('b, 'e, 'c, 'db) nested_operator list"
  shows "op_run env f inputs w = RunFails e f' w' \<Longrightarrow> \<not> retryable e"
  "run_operators env ops channels w2 = RunFails e ops' w3 \<Longrightarrow> \<not> retryable e"
proof (induction env f inputs w and env ops channels w2 arbitrary: f' w' and ops' w3 rule: op_run_run_operators.induct)
  case (7 env ins ops outs inputs w)
  have "fails_final (insert_external ins inputs (chan_new :: 'b sitem result fiber_stream chan_store))" by (rule fails_final_insert)
  with 7 show ?case
    by (auto split: result.splits run_outcome.splits taken.splits dest: take_streams_fails)
next
  case (9 env def f ops channels w)
  have "fails_final (insert_outputs (output_specs def) out st)" for out st by (rule fails_final_insert)
  note ins = this
  obtain t ch where t: "take_streams (input_specs def) channels = (t, ch)" by fastforce
  show ?case
  proof (cases t)
    case (TakeFails err)
    with 9 t take_streams_fails [of "input_specs def" channels err] show ?thesis by simp
  next
    case TakeWaits
    with 9 t show ?thesis by (auto split: run_outcome.splits)
  next
    case (Took inputs)
    note IH = "9.IH"(1-3) [OF t [symmetric] Took]
    show ?thesis
    proof (cases "op_run env f inputs w")
      case (RunReturns out f1 w1)
      show ?thesis
      proof (cases "insert_outputs (output_specs def) out ch")
        case (Ok ch2)
        with 9 t Took RunReturns IH show ?thesis by (auto split: run_outcome.splits)
      next
        case (Err err)
        with 9 t Took RunReturns ins [of out ch] show ?thesis by auto
      qed
    next
      case (RunPends f1 w1)
      with 9 t Took IH show ?thesis by (auto split: run_outcome.splits)
    next
      case (RunFails err f1 w1)
      with 9 t Took IH show ?thesis by auto
    qed
  qed
qed (auto dest!: lift_run_fails simp: identity_run_def intro!: fails_final_intros fails_final_runs split: prod.splits)

subsection \<open>Outputs are registered\<close>

fun function_outputs :: "('b, 'e, 'c, 'db) operator_function \<Rightarrow> string list"
  and nested_outputs :: "('b, 'e, 'c, 'db) nested_operator list \<Rightarrow> string list" where
  "function_outputs (RemoteExchangeFunction f) = [ref_output_stream_id f]"
| "function_outputs (NestedFunction _ ops _) = nested_outputs ops"
| "function_outputs _ = []"
| "nested_outputs [] = []"
| "nested_outputs (NestedOperator _ f # ops) = function_outputs f @ nested_outputs ops"

lemma created_outputs:
  fixes spec :: "('b, 'e) operator_spec" and defs :: "('b, 'e) operator_definition list"
  shows "function_outputs (create_operator_function spec :: ('b, 'e, 'c, 'db) operator_function) = get_exchange_outputs spec"
    and "nested_outputs (create_nested_functions defs :: ('b, 'e, 'c, 'db) nested_operator list) = nested_exchange_outputs defs"
  by (induction spec and defs rule: get_exchange_outputs_nested_exchange_outputs.induct)
    (auto simp: remote_exchange_new_def)

abbreviation served :: "('b, 'e, 'c) op_world \<Rightarrow> string set" where
  "served w \<equiv> dom (es_channels (ow_exchange w))"

lemma op_init_served:
  fixes env :: "('b, 'c, 'db, 'sst) op_env" and f :: "('b, 'e, 'c, 'db) operator_function"
    and ops :: "('b, 'e, 'c, 'db) nested_operator list"
  shows "op_init env details state_id f w = Ok (f', w') \<Longrightarrow> served w' = served w \<union> set (function_outputs f)"
    and "nested_init env details2 ops w2 = Ok (ops', w3) \<Longrightarrow> served w3 = served w2 \<union> set (nested_outputs ops)"
proof (induction env details state_id f w and env details2 ops w2 arbitrary: f' w' and ops' w3
    rule: op_init_nested_init.induct)
  case (6 env details state_id f w)
  then obtain st where "\<exists>g. remote_exchange_init details f (ow_exchange w) = Ok (g, st)" "w' = w\<lparr>ow_exchange := st\<rparr>"
    by (auto simp: result_simps)
  then show ?case
    by (auto simp: remote_exchange_init_def store_create_def channel_create_def Let_def split: option.splits list.splits)
next
  case (5 env details state_id ins ops outs w)
  then obtain ops' where "nested_init env details ops w = Ok (ops', w')" by (auto simp: result_simps)
  from "5.IH" [OF this] show ?case by simp
next
  case (9 env details def f ops w)
  then obtain f1 w1 ops1 where 1: "op_init env details (od_state_id def) f w = Ok (f1, w1)"
      "nested_init env details ops w1 = Ok (ops1, w3)"
    by (auto simp: result_simps)
  from "9.IH"(1) [OF 1(1)] "9.IH"(2) [OF 1(2)] show ?case by (simp add: Un_assoc)
qed (auto simp: result_simps)

text \<open>
  Initialising the operator of a task opens a channel for every stream the task announces
  as an exchange output, and for no others.
\<close>

theorem init_opens_outputs:
  assumes "op_init env details state_id (create_operator_function (od_spec (td_operator td))) w = Ok (f, w')"
  shows "served w' = served w \<union> set (exchange_outputs td)"
  using op_init_served(1) [OF assms] by (simp add: created_outputs exchange_outputs_def)

subsection \<open>Nested operators in order\<close>

text \<open>
  The reference: operators run one after the other over an environment of named streams.
  A missing stream, a second stream of the same name and an operator that does not return
  have no result.
\<close>

fun bind_outputs :: "(usize \<times> string) list \<Rightarrow> (usize \<times> 's) list \<Rightarrow> (string \<Rightarrow> 's option) \<Rightarrow> (string \<Rightarrow> 's option) option" where
  "bind_outputs specs [] m = Some m"
| "bind_outputs specs ((ordinal, s) # ss) m =
     (case ordinal_lookup specs ordinal of
        None \<Rightarrow> None
      | Some stream_id \<Rightarrow> if m stream_id = None then bind_outputs specs ss (m(stream_id \<mapsto> s)) else None)"

fun run_in_order ::
  "('b, 'c, 'db, 'sst) op_env \<Rightarrow> ('b, 'e, 'c, 'db) nested_operator list \<Rightarrow> (string \<Rightarrow> 'b sitem result fiber_stream option)
     \<Rightarrow> ('b, 'e, 'c) op_world
     \<Rightarrow> ((string \<Rightarrow> 'b sitem result fiber_stream option) \<times> ('b, 'e, 'c, 'db) nested_operator list \<times> ('b, 'e, 'c) op_world) option" where
  "run_in_order env [] m w = Some (m, [], w)"
| "run_in_order env (NestedOperator def f # ops) m w =
     (if \<exists>spec \<in> set (input_specs def). m (snd spec) = None then None
      else case op_run env f (map (\<lambda>(ordinal, stream_id). (ordinal, the (m stream_id))) (input_specs def)) w of
             RunReturns outputs f' w1 \<Rightarrow>
               Option.bind (bind_outputs (output_specs def) outputs m) (\<lambda>m1.
               map_option (\<lambda>(m2, ops', w2). (m2, NestedOperator def f' # ops', w2)) (run_in_order env ops m1 w1))
           | _ \<Rightarrow> None)"

text \<open>The store that holds the streams \<open>m\<close> of which \<open>used\<close> have been taken.\<close>

definition holds :: "(string \<Rightarrow> 's option) \<Rightarrow> string set \<Rightarrow> 's chan_store" where
  "holds m used = (\<lambda>i. if i \<in> used then Some (ChanStored None) else map_option (\<lambda>s. ChanStored (Some s)) (m i))"

lemma holds_empty: "chan_new = holds Map.empty {}"
  by (simp add: holds_def chan_new_def)

lemma chan_take_holds:
  "m i = Some s \<Longrightarrow> i \<notin> used \<Longrightarrow> chan_take i (holds m used) = (Took s, holds m (insert i used))"
  by (auto simp: chan_take_def holds_def fun_eq_iff)

lemma chan_insert_holds:
  "m i = None \<Longrightarrow> used \<subseteq> dom m \<Longrightarrow> chan_insert i s (holds m used) = Ok (holds (m(i \<mapsto> s)) used)"
  by (auto simp: chan_insert_def holds_def fun_eq_iff)

lemma take_streams_holds:
  "distinct (map snd specs) \<Longrightarrow> snd ` set specs \<inter> used = {} \<Longrightarrow> snd ` set specs \<subseteq> dom m \<Longrightarrow>
   take_streams specs (holds m used) =
     (Took (map (\<lambda>(ordinal, i). (ordinal, the (m i))) specs), holds m (used \<union> snd ` set specs))"
proof (induction specs arbitrary: used)
  case (Cons spec specs)
  obtain ordinal i where spec: "spec = (ordinal, i)" by fastforce
  with Cons.prems obtain s where "m i = Some s" "i \<notin> used" by auto
  moreover have "take_streams specs (holds m (insert i used)) =
      (Took (map (\<lambda>(ordinal, i). (ordinal, the (m i))) specs), holds m (insert i used \<union> snd ` set specs))"
    by (rule Cons.IH) (use Cons.prems spec in auto)
  ultimately show ?case by (simp add: spec chan_take_holds)
qed simp

lemma insert_outputs_holds:
  "bind_outputs specs ss m = Some m' \<Longrightarrow> used \<subseteq> dom m \<Longrightarrow>
   insert_outputs specs ss (holds m used) = Ok (holds m' used) \<and>
   insert_external specs ss (holds m used) = Ok (holds m' used) \<and> dom m \<subseteq> dom m'"
proof (induction specs ss m rule: bind_outputs.induct)
  case (2 specs ordinal s ss m)
  then obtain i where i: "ordinal_lookup specs ordinal = Some i" "m i = None" "bind_outputs specs ss (m(i \<mapsto> s)) = Some m'"
    by (auto split: option.splits if_splits)
  have u: "used \<subseteq> dom (m(i \<mapsto> s))" using "2.prems"(2) by auto
  have "dom m \<subseteq> dom (m(i \<mapsto> s))" by auto
  with "2.IH" [OF i(1,2,3) u] i(1) show ?case
    by (simp add: chan_insert_holds [OF i(2) "2.prems"(2)] del: dom_fun_upd fun_upd_apply) blast
qed simp

lemma run_operators_in_order:
  assumes "run_in_order env ops m w = Some (m', ops', w')" and "used \<subseteq> dom m"
    and "distinct (map snd (concat (map (\<lambda>op. input_specs (no_definition op)) ops)))"
    and "snd ` set (concat (map (\<lambda>op. input_specs (no_definition op)) ops)) \<inter> used = {}"
  shows "run_operators env ops (holds m used) w =
      RunReturns (holds m' (used \<union> snd ` set (concat (map (\<lambda>op. input_specs (no_definition op)) ops)))) ops' w' \<and> dom m \<subseteq> dom m'"
  using assms
proof (induction ops arbitrary: m w used ops')
  case (Cons op ops)
  obtain def f where op: "op = NestedOperator def f" by (cases op)
  let ?ins = "input_specs def" and ?rest = "concat (map (\<lambda>op. input_specs (no_definition op)) ops)"
  have "\<not> (\<exists>spec \<in> set ?ins. m (snd spec) = None)" using Cons.prems(1) op by (auto split: if_splits)
  moreover from this Cons.prems(1) op obtain outputs f' w1 where
    r: "op_run env f (map (\<lambda>(ordinal, i). (ordinal, the (m i))) ?ins) w = RunReturns outputs f' w1"
    by (auto simp del: not_ex split: run_outcome.splits if_splits)
  ultimately obtain m1 ops1 where
    1: "\<forall>spec \<in> set ?ins. m (snd spec) \<noteq> None"
      "op_run env f (map (\<lambda>(ordinal, i). (ordinal, the (m i))) ?ins) w = RunReturns outputs f' w1"
      "bind_outputs (output_specs def) outputs m = Some m1" "run_in_order env ops m1 w1 = Some (m', ops1, w')"
      "ops' = NestedOperator def f' # ops1"
    using Cons.prems(1) op by (auto split: if_splits simp: bind_eq_Some_conv)
  have ins: "distinct (map snd ?ins)" "snd ` set ?ins \<inter> used = {}" "snd ` set ?ins \<subseteq> dom m"
    using Cons.prems(3,4) op 1(1) by auto
  have u: "used \<union> snd ` set ?ins \<subseteq> dom m" using ins(3) Cons.prems(2) by blast
  have out: "insert_outputs (output_specs def) outputs (holds m (used \<union> snd ` set ?ins)) = Ok (holds m1 (used \<union> snd ` set ?ins))"
    "dom m \<subseteq> dom m1" using insert_outputs_holds [OF 1(3) u] by simp_all
  have "run_operators env ops (holds m1 (used \<union> snd ` set ?ins)) w1 =
      RunReturns (holds m' ((used \<union> snd ` set ?ins) \<union> snd ` set ?rest)) ops1 w' \<and> dom m1 \<subseteq> dom m'"
  proof (rule Cons.IH [OF 1(4)])
    show "used \<union> snd ` set ?ins \<subseteq> dom m1" using u out(2) by blast
    have "distinct (map snd ?ins @ map snd ?rest)" using Cons.prems(3) op by simp
    then show "distinct (map snd ?rest)" and "snd ` set ?rest \<inter> (used \<union> snd ` set ?ins) = {}"
      using Cons.prems(4) unfolding op distinct_append set_map by auto
  qed
  then show ?case using 1(2,5) out op by (simp add: take_streams_holds [OF ins] image_Un Un_assoc) blast
qed simp

text \<open>
  C13: operators that are listed after the producers of their inputs run in sequence.  If
  running them one after the other over named streams has a result, no stream is taken by two
  operators, and the outputs of the nested operator exist, then the concurrent run neither
  waits nor fails, and has exactly that result.
\<close>

theorem nested_runs_in_order:
  assumes "bind_outputs ins inputs Map.empty = Some m" and "run_in_order env ops m w = Some (m', ops', w')"
    and "distinct (map snd (concat (map (\<lambda>op. input_specs (no_definition op)) ops) @ outs))"
    and "snd ` set outs \<subseteq> dom m'"
  shows "op_run env (NestedFunction ins ops outs) inputs w =
    RunReturns (map (\<lambda>(ordinal, i). (ordinal, the (m' i))) outs) (NestedFunction ins ops' outs) w'"
proof -
  let ?used = "snd ` set (concat (map (\<lambda>op. input_specs (no_definition op)) ops))"
  have ext: "insert_external ins inputs chan_new = Ok (holds m {})"
    using insert_outputs_holds [OF assms(1), of "{}"] by (simp add: holds_empty)
  have "run_operators env ops (holds m {}) w = RunReturns (holds m' ({} \<union> ?used)) ops' w' \<and> dom m \<subseteq> dom m'"
    by (rule run_operators_in_order [OF assms(2)]) (use assms(3) in auto)
  moreover have "take_streams outs (holds m' ({} \<union> ?used)) =
      (Took (map (\<lambda>(ordinal, i). (ordinal, the (m' i))) outs), holds m' (({} \<union> ?used) \<union> snd ` set outs))"
    by (rule take_streams_holds) (use assms(3,4) in auto)
  ultimately show ?thesis using ext by simp
qed

text \<open>
  Listing a consumer before its producer makes the run fail: the producer finds the place
  of its output taken by the waiting consumer.
\<close>

lemma consumer_before_producer_fails:
  "\<exists>f w'. op_run env (NestedFunction []
      [NestedOperator (OperatorDefinition ''c'' ''c'' Identity [\<lparr>oi_stream_id = ''s'', oi_ordinal = 0\<rparr>] [\<lparr>oo_stream_id = ''t'', oo_ordinal = 0\<rparr>])
         IdentityFunction,
       NestedOperator (OperatorDefinition ''p'' ''p'' (Source [ItemMarker (Marker 1)] 1) [] [\<lparr>oo_stream_id = ''s'', oo_ordinal = 0\<rparr>])
         (SourceFunction (source_new [ItemMarker (Marker 1)] 1))]
      [(0, ''t'')]) [] w = RunFails (Internal ''Spot in store already taken'') f w'"
  by (simp add: input_specs_def output_specs_def chan_take_def chan_new_def chan_insert_def source_run_def source_new_def max_marker_def
      item_marker_def List.map_filter_def Let_def ordinal_lookup_def)

subsection \<open>A small instance\<close>

definition small_env :: "(nat, small_file, path \<times> pairs, unit) op_env" where
  "small_env =
     \<lparr>ev_rocks = small_rocks, ev_json = small_json, ev_remote = example_remote, ev_remote_disk = Dir [],
      ev_local_fs = prefixed_storage [], ev_sst_dir = [], ev_fuel = 0, ev_uuid = (\<lambda>k n. replicate k CHR ''u'' @ replicate n CHR ''v''),
      ev_row_count = (\<lambda>b. b), ev_count_batch = (\<lambda>n. n), ev_key_values = (\<lambda>_ _. Ok KeyOtherType),
      ev_counts_batch = (\<lambda>_. 0), ev_entries = (\<lambda>_. []), ev_merge = concat, ev_receive = (\<lambda>_. [])\<rparr>"

definition small_world :: "(nat, unit, small_file) op_world" where
  "small_world = \<lparr>ow_disk = Dir [], ow_exchange = store_new, ow_calls = 0\<rparr>"

definition small_generation :: generation_spec where
  "small_generation = \<lparr>gs_id = ''g'', gs_partitions = pr_unit, gs_start_conditions = []\<rparr>"

definition producer :: "(nat, unit) operator_definition" where
  "producer = OperatorDefinition ''p'' ''p'' (Source [ItemBatch 7, ItemMarker (Marker 1)] 1) [] [\<lparr>oo_stream_id = ''s'', oo_ordinal = 0\<rparr>]"

definition consumer :: "(nat, unit) operator_definition" where
  "consumer = OperatorDefinition ''c'' ''c'' (RemoteExchangeOutput ''t'' None) [\<lparr>oi_stream_id = ''s'', oi_ordinal = 0\<rparr>] []"

theorem init_opens_outputs_witness:
  "\<exists>f w'. op_init small_env (Some [small_generation], Some []) ''n''
      (create_operator_function (Nested [] [producer, consumer] []) :: (nat, unit, small_file, path \<times> pairs) operator_function) small_world = Ok (f, w') \<and>
    served w' = {''t''}"
proof -
  let ?td = "\<lparr>td_task_id = ''task'', td_operator = OperatorDefinition ''n'' ''n'' (Nested [] [producer, consumer] []) [] []\<rparr>"
  have "\<exists>f w'. op_init small_env (Some [small_generation], Some []) ''n''
      (create_operator_function (od_spec (td_operator ?td)) :: (nat, unit, small_file, path \<times> pairs) operator_function) small_world = Ok (f, w')"
    by (simp add: producer_def consumer_def remote_exchange_init_def remote_exchange_new_def store_create_def channel_create_def Let_def)
  then obtain f w' where i: "op_init small_env (Some [small_generation], Some []) ''n''
      (create_operator_function (od_spec (td_operator ?td)) :: (nat, unit, small_file, path \<times> pairs) operator_function) small_world = Ok (f, w')" by blast
  have "served small_world = {}" by (simp add: small_world_def store_new_def)
  with init_opens_outputs [OF i] have "served w' = {''t''}" by (simp add: exchange_outputs_def producer_def consumer_def)
  with i show ?thesis by auto
qed

definition relay :: "(nat, unit) operator_definition" where
  "relay = OperatorDefinition ''r'' ''r'' Identity [\<lparr>oi_stream_id = ''s'', oi_ordinal = 0\<rparr>] [\<lparr>oo_stream_id = ''t'', oo_ordinal = 0\<rparr>]"

theorem nested_runs_in_order_witness:
  "\<exists>f w. op_run small_env (NestedFunction [] [NestedOperator producer (SourceFunction (source_new [ItemBatch 7, ItemMarker (Marker 1)] 1)),
      NestedOperator relay IdentityFunction] [(3, ''t'')]) [] small_world =
    RunReturns [(3, single_fiber_stream [Ok (SBatch 7), Ok (SMarker (Marker 1))])] f w"
proof -
  let ?f = "SourceFunction (source_new [ItemBatch 7, ItemMarker (Marker 1)] 1) :: (nat, unit, small_file, path \<times> pairs) operator_function"
  let ?ops = "[NestedOperator producer ?f, NestedOperator relay IdentityFunction]"
  let ?rows = "single_fiber_stream [Ok (SBatch (7 :: nat)), Ok (SMarker (Marker 1))]"
  have "run_in_order small_env ?ops Map.empty small_world = Some ([''s'' \<mapsto> ?rows, ''t'' \<mapsto> ?rows], ?ops, small_world)"
    by (simp add: producer_def relay_def input_specs_def output_specs_def source_run_def source_new_def max_marker_def item_marker_def
      List.map_filter_def Let_def ordinal_lookup_def identity_run_def)
  from nested_runs_in_order [OF _ this, of "[]" "[]" "[(3, ''t'')]"] show ?thesis by (simp add: producer_def relay_def input_specs_def)
qed
end
