(* ===== verification/Task_Main.thy ===== *)
theory Task_Main
  imports Operators
begin

text \<open>
  \<open>src/streaming/task_main_3.rs\<close> and \<open>src/streaming/worker_process.rs\<close>: running the operator
  of a task, and the worker that holds the running tasks.

  A running task is the record of what its spawned future was given, together with the
  scheduling state and the observable the operator watches.  \<open>operator_main_loop\<close> is that
  future run to its end; it has fuel for its retry loop, and \<open>None\<close> also stands for an
  operator that never returns.  The theorems show that one round of the loop is always enough,
  that a task that connects a source to an exchange output delivers what the source has from
  the loaded checkpoint on, and that a worker keeps every task it has accepted.
\<close>

subsection \<open>The task loop\<close>

record running_task_state =
  rts_generations :: "generation_spec list"
  rts_input_locations :: "generation_input_detail list"

text \<open>\<open>handle_out_of_order_error\<close>: the checkpoint to go back to.\<close>

definition handle_out_of_order_error :: "('b, 'e, 'c, 'db) operator_function \<Rightarrow> usize result" where
  "handle_out_of_order_error f = op_last_checkpoint f"

fun main_loop_rounds ::
  "nat \<Rightarrow> ('b, 'c, 'db, 'sst) op_env \<Rightarrow> usize \<Rightarrow> ('b, 'e, 'c, 'db) operator_function \<Rightarrow> ('b, 'e, 'c) op_world
     \<Rightarrow> ('b, 'e, 'c) op_world result option" where
  "main_loop_rounds 0 env checkpoint f w = None"
| "main_loop_rounds (Suc fuel) env checkpoint f w =
     bind_run (op_load env checkpoint f w) (\<lambda>(f1, w1).
       case op_run env f1 [] w1 of
         RunPends _ _ \<Rightarrow> None
       | RunReturns outputs _ w2 \<Rightarrow>
           Some (if outputs = [] then Ok w2 else Err (Panic ''assertion failed: outputs.len() == 0''))
       | RunFails error f2 w2 \<Rightarrow>
           (case error of
              External (OutOfOrderGenerations _) \<Rightarrow>
                (case handle_out_of_order_error f2 of
                   Err e \<Rightarrow> Some (Err e)
                 | Ok checkpoint' \<Rightarrow> main_loop_rounds fuel env checkpoint' f2 w2)
            | External (OtherExternal _) \<Rightarrow> main_loop_rounds fuel env checkpoint f2 w2
            | _ \<Rightarrow> Some (Err error)))"

definition operator_main_loop ::
  "nat \<Rightarrow> ('b, 'c, 'db, 'sst) op_env \<Rightarrow> scheduling_details \<Rightarrow> string \<Rightarrow> usize \<Rightarrow> ('b, 'e, 'c, 'db) operator_function
     \<Rightarrow> ('b, 'e, 'c) op_world \<Rightarrow> ('b, 'e, 'c) op_world result option" where
  "operator_main_loop fuel env details state_id initial_checkpoint f w =
     bind_run (Some (op_init env details state_id f w)) (\<lambda>(f1, w1).
     main_loop_rounds fuel env initial_checkpoint f1 w1)"

subsection \<open>Running tasks\<close>

text \<open>\<open>rt_aborted\<close> says whether the handle of the spawned future was aborted.\<close>

record ('b, 'e, 'c, 'db) running_task =
  rt_function :: "('b, 'e, 'c, 'db) operator_function"
  rt_state_id :: string
  rt_initial_checkpoint :: usize
  rt_aborted :: bool
  rt_state :: running_task_state
  rt_scheduling_details :: scheduling_details

definition running_task_start ::
  "('b, 'e) operator_definition \<Rightarrow> usize \<Rightarrow> generation_input_detail list \<Rightarrow> generation_spec list
     \<Rightarrow> ('b, 'e, 'c, 'db) running_task result" where
  "running_task_start operator initial_checkpoint initial_input_locations generations =
     (if length (od_inputs operator) > 0 \<or> length (od_outputs operator) > 0
      then Err (Internal ''Task main doesn't support operators with inputs and outputs'')
      else Ok \<lparr>rt_function = create_operator_function (od_spec operator), rt_state_id = od_state_id operator,
               rt_initial_checkpoint = initial_checkpoint, rt_aborted = False,
               rt_state = \<lparr>rts_generations = generations, rts_input_locations = initial_input_locations\<rparr>,
               rt_scheduling_details = (Some generations, Some initial_input_locations)\<rparr>)"

definition update_scheduling_details ::
  "task_scheduling_details_update \<Rightarrow> ('b, 'e, 'c, 'db) running_task \<Rightarrow> ('b, 'e, 'c, 'db) running_task" where
  "update_scheduling_details details t =
     (let generation = tsu_generation details;
          input_details = tsu_input_details details;
          state = rt_state t;
          state1 = (case generation of
                      Some g \<Rightarrow> state\<lparr>rts_generations := rts_generations state @ [g]\<rparr>
                    | None \<Rightarrow> state);
          state2 = (case input_details of
                      Some ds \<Rightarrow> state1\<lparr>rts_input_locations := ds\<rparr>
                    | None \<Rightarrow> state1)
      in t\<lparr>rt_state := state2, rt_scheduling_details := (map_option (\<lambda>g. [g]) generation, input_details)\<rparr>)"

definition cancel_task :: "('b, 'e, 'c, 'db) running_task \<Rightarrow> ('b, 'e, 'c, 'db) running_task" where
  "cancel_task t = t\<lparr>rt_aborted := True\<rparr>"

subsection \<open>The worker\<close>

record initial_scheduling_details =
  isd_generations :: "generation_spec list"
  isd_input_locations :: "generation_input_detail list"

text \<open>\<open>wp_cancelled\<close> lists the tasks that were spawned and cancelled again.\<close>

record ('b, 'e, 'c, 'db) worker_process =
  wp_running_tasks :: "string \<Rightarrow> ('b, 'e, 'c, 'db) running_task option"
  wp_cancelled :: "('b, 'e, 'c, 'db) running_task list"

definition worker_new :: "('b, 'e, 'c, 'db) worker_process" where
  "worker_new = \<lparr>wp_running_tasks = Map.empty, wp_cancelled = []\<rparr>"

definition start_task_from ::
  "('b, 'e) task_definition2 \<Rightarrow> initial_scheduling_details \<Rightarrow> usize \<Rightarrow> ('b, 'e, 'c, 'db) worker_process
     \<Rightarrow> unit result \<times> ('b, 'e, 'c, 'db) worker_process" where
  "start_task_from td details checkpoint wp =
     (case running_task_start (td_operator td) checkpoint (isd_input_locations details) (isd_generations details) of
        Err e \<Rightarrow> (Err e, wp)
      | Ok running_task \<Rightarrow>
          (case wp_running_tasks wp (td_task_id td) of
             Some _ \<Rightarrow> (Err (Internal ''Task with ID is already running''),
               wp\<lparr>wp_cancelled := wp_cancelled wp @ [cancel_task running_task]\<rparr>)
           | None \<Rightarrow> (Ok (), wp\<lparr>wp_running_tasks := (wp_running_tasks wp)(td_task_id td \<mapsto> running_task)\<rparr>)))"

definition start_task ::
  "('b, 'e) task_definition2 \<Rightarrow> initial_scheduling_details \<Rightarrow> ('b, 'e, 'c, 'db) worker_process
     \<Rightarrow> unit result \<times> ('b, 'e, 'c, 'db) worker_process" where
  "start_task td details wp = start_task_from td details 0 wp"

definition update_input ::
  "string \<Rightarrow> task_scheduling_details_update \<Rightarrow> ('b, 'e, 'c, 'db) worker_process
     \<Rightarrow> unit result \<times> ('b, 'e, 'c, 'db) worker_process" where
  "update_input task_id update wp =
     (case wp_running_tasks wp task_id of
        None \<Rightarrow> (Err (Internal ''No running task found with ID''), wp)
      | Some running_task \<Rightarrow>
          (Ok (), wp\<lparr>wp_running_tasks :=
             (wp_running_tasks wp)(task_id \<mapsto> update_scheduling_details update running_task)\<rparr>))"

subsection \<open>One round is enough\<close>

lemma main_loop_round:
  "main_loop_rounds (Suc fuel) env checkpoint f w =
     bind_run (op_load env checkpoint f w) (\<lambda>(f1, w1).
       case op_run env f1 [] w1 of
         RunPends _ _ \<Rightarrow> None
       | RunReturns outputs _ w2 \<Rightarrow>
           Some (if outputs = [] then Ok w2 else Err (Panic ''assertion failed: outputs.len() == 0''))
       | RunFails error _ _ \<Rightarrow> Some (Err error))"
proof -
  have final: "(case error of
            External (OutOfOrderGenerations _) \<Rightarrow>
              (case handle_out_of_order_error f2 of Err e \<Rightarrow> Some (Err e) | Ok c \<Rightarrow> main_loop_rounds fuel env c f2 w2)
          | External (OtherExternal _) \<Rightarrow> main_loop_rounds fuel env checkpoint f2 w2
          | _ \<Rightarrow> Some (Err error)) = Some (Err error)" if "\<not> retryable error" for error f2 w2
    using that by (cases error) auto
  show ?thesis
    unfolding main_loop_rounds.simps
    by (intro arg_cong [where f = "bind_run _"] ext) (auto split: run_outcome.split dest!: op_run_fails_final(1) simp: final)
qed

text \<open>
  C39: the loop of a task never takes a second round.  No operator fails with an error that is
  retried, so with fuel for one round the outcome is that of any amount of fuel: the task
  ends with success or an error, or its operator never returns.
\<close>

theorem main_loop_one_round:
  "operator_main_loop (Suc fuel) env details state_id checkpoint f w = operator_main_loop 1 env details state_id checkpoint f w"
  by (simp add: operator_main_loop_def main_loop_round del: main_loop_rounds.simps)

subsection \<open>A source task\<close>

definition source_task :: "'b stream_item list \<Rightarrow> usize \<Rightarrow> string \<Rightarrow> 'e partitioning_spec option \<Rightarrow> ('b, 'e) operator_definition" where
  "source_task items n sid partitioning =
     OperatorDefinition ''nested'' ''nested'' (Nested []
       [OperatorDefinition ''source'' ''source'' (Source items n) [] [\<lparr>oo_stream_id = ''items'', oo_ordinal = 0\<rparr>],
        OperatorDefinition ''output'' ''output'' (RemoteExchangeOutput sid partitioning) [\<lparr>oi_stream_id = ''items'', oi_ordinal = 0\<rparr>] []]
       []) [] []"

text \<open>The exchange output on an open channel, run over the items of a stream.\<close>

lemma exchange_run_items:
  assumes "interleaves merge" and "list_all (\<lambda>i. \<forall>g. i \<noteq> SGeneration g) items"
    and "ref_data_channel f = Some (address, sender_new)" and "es_heap st ! address = fst channel_create" and "address < length (es_heap st)"
  obtains ch where "remote_exchange_run merge [(0, single_fiber_stream (map Ok items))] f st =
      Ok (f\<lparr>ref_data_channel := None\<rparr>, st\<lparr>es_heap := (es_heap st)[address := ch]\<rparr>)"
    and "cs_items ch = map item_of_sitem items"
    and "(reader_step ch ^^ (2 * length items + 1)) new_reader =
      \<lparr>rd_index = length items, rd_pc = Ended, rd_out = map item_of_sitem items\<rparr>"
proof -
  let ?xs = "map item_of_sitem items"
  obtain ch sender n where sent: "send_all (map Ok ?xs) = Ok (ch, sender)" "cs_items ch = ?xs"
    "snd_next_index sender = length ?xs" "cs_notification ch = Some n" "cs_status ch = StRunning"
    using send_all_ok [of ?xs] by blast
  have "exchange_write (map Ok items) (es_heap st ! address, sender_new) = Ok (ch, sender)"
    using sent(1) assms(4) by (simp add: exchange_write_sends [OF assms(2)] send_all_def channel_create_def comp_def)
  then have run: "remote_exchange_run merge [(0, single_fiber_stream (map Ok items))] f st =
      Ok (f\<lparr>ref_data_channel := None\<rparr>, st\<lparr>es_heap := (es_heap st)[address := sender_drop ch sender]\<rparr>)"
    using assms(3) by (simp add: remote_exchange_run_def combined_single [OF assms(1)])
  have "(reader_step (sender_drop ch sender) ^^ (2 * length ?xs + 1)) new_reader = \<lparr>rd_index = length ?xs, rd_pc = Ended, rd_out = ?xs\<rparr>"
    using read_cancelled [of "sender_drop ch sender" "snd_last_checkpoint sender" new_reader] sent(2,3)
    by (simp add: sender_drop_facts drop_status_def new_reader_def)
  with run sent(2) show thesis by (intro that [of "sender_drop ch sender"]) (simp_all add: sender_drop_facts)
qed

text \<open>The items a loaded source emits.\<close>

definition emitted :: "usize \<Rightarrow> 'b source_function \<Rightarrow> 'b stream_item list" where
  "emitted mm src = drop (sof_offset src) (sof_items src) @
     concat (map (\<lambda>iteration. map (renumber mm iteration) (sof_items src)) [sof_current_iteration src + 1..<sof_num_iterations src])"

lemma source_run_emitted:
  "max_marker (sof_items src) = Ok mm \<Longrightarrow>
   source_run [] src = Ok [(0, single_fiber_stream (map Ok (map sitem_of_stream_item (emitted mm src))))]"
  by (simp add: source_run_def emitted_def Let_def)

lemma item_of_sitem_of_stream_item: "item_of_sitem (sitem_of_stream_item i) = i"
  by (cases i) simp_all

lemma source_items_plain: "list_all (\<lambda>i. \<forall>g. i \<noteq> SGeneration g) (map sitem_of_stream_item is)"
proof -
  have "sitem_of_stream_item i \<noteq> SGeneration g" for i :: "'a stream_item" and g by (cases i) simp_all
  then show ?thesis by (simp add: list_all_iff)
qed

lemma source_load_items: "source_load cp src = Ok src' \<Longrightarrow> sof_items src' = sof_items src"
  by (auto simp: source_load_def result_simps split: if_splits)

lemma source_task_runs:
  fixes env :: "('b, 'c, 'db, 'sst) op_env" and w :: "('b, 'e, 'c) op_world"
  assumes "interleaves (ev_merge env)" and "source_load checkpoint (source_new items n) = Ok src" and "max_marker items = Ok mm"
  obtains w' ch where
    "operator_main_loop (Suc 0) env (Some (generation # generations), details) state_id checkpoint
      (create_operator_function (od_spec (source_task items n sid partitioning)) :: ('b, 'e, 'c, 'db) operator_function) w = Some (Ok w')"
    "es_channels (ow_exchange w') = (es_channels (ow_exchange w))(sid \<mapsto>
      \<lparr>os_channel = length (es_heap (ow_exchange w)), os_partitioning_details = map_option (\<lambda>p.
         \<lparr>cpd_partitioning_spec = p, cpd_partitions = gs_partitions generation\<rparr>) partitioning\<rparr>)"
    "es_heap (ow_exchange w') = es_heap (ow_exchange w) @ [ch]" "cs_items ch = emitted mm src"
    "(reader_step ch ^^ (2 * length (emitted mm src) + 1)) new_reader =
      \<lparr>rd_index = length (emitted mm src), rd_pc = Ended, rd_out = emitted mm src\<rparr>"
proof -
  define st where "st = ow_exchange w"
  define address where "address = length (es_heap st)"
  let ?pd = "map_option (\<lambda>p. \<lparr>cpd_partitioning_spec = p, cpd_partitions = gs_partitions generation\<rparr>) partitioning"
  let ?src = "OperatorDefinition ''source'' ''source'' (Source items n) [] [\<lparr>oo_stream_id = ''items'', oo_ordinal = 0\<rparr>] :: ('b, 'e) operator_definition"
  let ?out = "OperatorDefinition ''output'' ''output'' (RemoteExchangeOutput sid partitioning) [\<lparr>oi_stream_id = ''items'', oi_ordinal = 0\<rparr>] []
    :: ('b, 'e) operator_definition"
  let ?ex = "(remote_exchange_new sid partitioning)\<lparr>ref_data_channel := Some (address, sender_new)\<rparr>"
  let ?st = "st\<lparr>es_heap := es_heap st @ [fst channel_create],
      es_channels := (es_channels st)(sid \<mapsto> \<lparr>os_channel = address, os_partitioning_details = ?pd\<rparr>)\<rparr>"
  let ?f = "\<lambda>s. NestedFunction [] [NestedOperator ?src (SourceFunction s), NestedOperator ?out (RemoteExchangeFunction ?ex)] []
    :: ('b, 'e, 'c, 'db) operator_function"
  let ?sitems = "map sitem_of_stream_item (emitted mm src)"
  have init: "op_init env (Some (generation # generations), details) state_id
      (create_operator_function (od_spec (source_task items n sid partitioning))) w = Ok (?f (source_new items n), w\<lparr>ow_exchange := ?st\<rparr>)"
    by (simp add: source_task_def remote_exchange_init_def remote_exchange_new_def store_create_def channel_create_def
      address_def st_def Let_def)
  have load: "op_load env checkpoint (?f (source_new items n)) w1 = Some (Ok (?f src, w1))" for w1
    using assms(2) by simp
  have "sof_items src = items" using source_load_items [OF assms(2)] by (simp add: source_new_def)
  with assms(3) have srun: "source_run ([] :: (usize \<times> 'b sitem result fiber_stream) list) src = Ok [(0, single_fiber_stream (map Ok ?sitems))]"
    by (simp add: source_run_emitted del: map_map)
  have addr: "ref_data_channel ?ex = Some (address, sender_new)" "es_heap ?st ! address = fst channel_create" "address < length (es_heap ?st)"
    by (simp_all add: address_def)
  obtain ch where run: "remote_exchange_run (ev_merge env) [(0, single_fiber_stream (map Ok ?sitems))] ?ex ?st =
      Ok (?ex\<lparr>ref_data_channel := None\<rparr>, ?st\<lparr>es_heap := (es_heap ?st)[address := ch]\<rparr>)"
    and items: "cs_items ch = map item_of_sitem ?sitems"
    and read: "(reader_step ch ^^ (2 * length ?sitems + 1)) new_reader =
      \<lparr>rd_index = length ?sitems, rd_pc = Ended, rd_out = map item_of_sitem ?sitems\<rparr>"
    by (rule exchange_run_items [OF assms(1) source_items_plain addr])
  define w' where "w' = w\<lparr>ow_exchange := ?st\<lparr>es_heap := (es_heap ?st)[address := ch]\<rparr>\<rparr>"
  have "\<exists>f'. op_run env (?f src) [] (w\<lparr>ow_exchange := ?st\<rparr>) = RunReturns [] f' w'"
    using srun run
    by (simp add: input_specs_def output_specs_def chan_take_def chan_new_def chan_insert_def ordinal_lookup_def w'_def)
  then have loop: "operator_main_loop (Suc 0) env (Some (generation # generations), details) state_id checkpoint
      (create_operator_function (od_spec (source_task items n sid partitioning)) :: ('b, 'e, 'c, 'db) operator_function) w = Some (Ok w')"
    using init load by (auto simp: operator_main_loop_def main_loop_round simp del: main_loop_rounds.simps op_load.simps op_run.simps)
  have same: "map item_of_sitem ?sitems = emitted mm src" by (simp add: comp_def item_of_sitem_of_stream_item)
  show thesis
    by (rule that [OF loop]) (use items read same in \<open>simp_all add: w'_def address_def st_def del: map_map\<close>)
qed

subsection \<open>A worker keeps its tasks\<close>

datatype ('b, 'e) worker_request =
    StartTask "('b, 'e) task_definition2" initial_scheduling_details usize
  | UpdateInput string task_scheduling_details_update

fun worker_step :: "('b, 'e) worker_request \<Rightarrow> ('b, 'e, 'c, 'db) worker_process \<Rightarrow> ('b, 'e, 'c, 'db) worker_process" where
  "worker_step (StartTask td details checkpoint) wp = snd (start_task_from td details checkpoint wp)"
| "worker_step (UpdateInput task_id update) wp = snd (update_input task_id update wp)"

text \<open>A task goes on with what it was started with, and only learns of more generations.\<close>

definition continues :: "('b, 'e, 'c, 'db) running_task \<Rightarrow> ('b, 'e, 'c, 'db) running_task \<Rightarrow> bool" where
  "continues t t' \<longleftrightarrow>
     rt_function t' = rt_function t \<and> rt_state_id t' = rt_state_id t \<and> rt_initial_checkpoint t' = rt_initial_checkpoint t \<and>
     rt_aborted t' = rt_aborted t \<and> (\<exists>gs. rts_generations (rt_state t') = rts_generations (rt_state t) @ gs)"

lemma continues_refl: "continues t t"
  by (simp add: continues_def)

lemma continues_trans: "continues t t1 \<Longrightarrow> continues t1 t2 \<Longrightarrow> continues t t2"
  by (auto simp: continues_def)

lemma update_continues: "continues t (update_scheduling_details update t)"
  by (simp add: continues_def update_scheduling_details_def Let_def split: option.split)

lemma worker_step_continues:
  assumes "wp_running_tasks wp i = Some t"
  shows "\<exists>t'. wp_running_tasks (worker_step r wp) i = Some t' \<and> continues t t'"
  using assms continues_refl update_continues
  by (cases r) (auto simp: start_task_from_def update_input_def split: result.split option.split)

text \<open>
  C40: whatever requests a worker gets, a task it has accepted stays registered and goes on
  unaborted with its operator, state and checkpoint, and its list of generations only grows;
  a second task with the same identifier is turned away.
\<close>

theorem worker_keeps_tasks:
  assumes "wp_running_tasks wp i = Some t"
  shows "\<exists>t'. wp_running_tasks (fold worker_step requests wp) i = Some t' \<and> continues t t'"
  using assms
proof (induction requests arbitrary: wp t)
  case (Cons r requests)
  obtain t1 where t1: "wp_running_tasks (worker_step r wp) i = Some t1" "continues t t1"
    using worker_step_continues [OF Cons.prems] by blast
  from Cons.IH [OF t1(1)] continues_trans [OF t1(2)] show ?case by auto
qed (auto simp: continues_refl)

theorem worker_keeps_tasks_witness:
  "\<exists>t t'. wp_running_tasks (snd (start_task \<lparr>td_task_id = ''i'', td_operator = source_task [] 1 ''s'' None\<rparr>
        \<lparr>isd_generations = [], isd_input_locations = []\<rparr> worker_new)) ''i'' = Some (t :: (nat, unit, unit, unit) running_task) \<and>
    wp_running_tasks (fold worker_step
        [StartTask \<lparr>td_task_id = ''i'', td_operator = source_task [] 2 ''u'' None\<rparr> \<lparr>isd_generations = [], isd_input_locations = []\<rparr> 3,
         UpdateInput ''i'' \<lparr>tsu_generation = Some small_generation, tsu_input_details = None\<rparr>]
        (snd (start_task \<lparr>td_task_id = ''i'', td_operator = source_task [] 1 ''s'' None\<rparr>
          \<lparr>isd_generations = [], isd_input_locations = []\<rparr> worker_new))) ''i'' = Some t' \<and> continues t t'"
proof -
  let ?wp = "snd (start_task \<lparr>td_task_id = ''i'', td_operator = source_task [] 1 ''s'' None\<rparr>
          \<lparr>isd_generations = [], isd_input_locations = []\<rparr> worker_new) :: (nat, unit, unit, unit) worker_process"
  have "\<exists>t. wp_running_tasks ?wp ''i'' = Some t"
    by (simp add: start_task_def start_task_from_def running_task_start_def source_task_def worker_new_def)
  then obtain t where "wp_running_tasks ?wp ''i'' = Some t" by blast
  from worker_keeps_tasks [OF this] this show ?thesis by blast
qed

text \<open>
  An update with only a generation hides the input locations from the running operator: a
  remote stream that is pulled afterwards finds none.
\<close>

lemma update_hides_locations:
  "pull connect keys (rt_scheduling_details (update_scheduling_details \<lparr>tsu_generation = Some g, tsu_input_details = None\<rparr> t))
     (running_stream_new ids m) = Err (Internal ''No initial input_details were provided'')"
  by (simp add: pull_def update_scheduling_details_def Let_def running_stream_new_def)

end
