(* ===== verification/Coordinator.thy ===== *)
theory Coordinator
  imports Task_Main
begin

text \<open>
  \<open>src/streaming/coordinator.rs\<close>, \<open>src/python/py_utils.rs\<close>, \<open>src/python/remote_processor.rs\<close>
  and \<open>src/python/streaming_processor_service.rs\<close>: computing the scheduling details of a set
  of tasks, handing the tasks to the processors of a cluster, and scaling a task up.

  A cluster is the list of the processors Ray has created, a processor is its index in the
  list.  How the worker of the \<open>i\<close>-th processor starts, with the address it then listens on or
  an error, is the parameter \<open>boot\<close>.  A remote method call changes the service of the
  processor; calls arrive in the order they are made, and, as in the code, the caller does not
  see whether the call succeeded.  The flexbuffers encoding is the record \<open>plan_codec\<close>.
  Python exceptions are execution errors.

  The theorems show that a deployed set of tasks runs with every task on its own processor,
  that the scheduling details resolve every stream the tasks exchange to the processor that
  produces it, and that the ranges of a task that is scaled up tile the partitions.
\<close>

subsection \<open>Scheduling details\<close>

definition single_location :: "string \<Rightarrow> partition_range \<Rightarrow> generation_input_location" where
  "single_location address partitions =
     \<lparr>gil_address = address, gil_offset_range = (0, 2 ^ 32), gil_partitions = partitions\<rparr>"

definition schedule_with_constant_partitions ::
  "(('b, 'e) task_definition2 \<times> string) list \<Rightarrow> partition_range \<Rightarrow> initial_scheduling_details" where
  "schedule_with_constant_partitions assigned_tasks prange =
     \<lparr>isd_generations = [\<lparr>gs_id = ''initial_generation'', gs_partitions = prange, gs_start_conditions = []\<rparr>],
      isd_input_locations = concat (map (\<lambda>(task, address). map (\<lambda>stream_id.
        \<lparr>gid_stream_id = stream_id, gid_locations = [single_location address prange]\<rparr>) (exchange_outputs task)) assigned_tasks)\<rparr>"

definition schedule_without_partitions_inner ::
  "(('b, 'e) task_definition2 \<times> string) list \<Rightarrow> initial_scheduling_details" where
  "schedule_without_partitions_inner assigned_tasks =
     \<lparr>isd_generations = [\<lparr>gs_id = ''initial_generation'', gs_partitions = pr_empty, gs_start_conditions = []\<rparr>],
      isd_input_locations = concat (map (\<lambda>(task, address). map (\<lambda>stream_id.
        \<lparr>gid_stream_id = stream_id, gid_locations = [single_location address pr_empty]\<rparr>) (exchange_outputs task)) assigned_tasks)\<rparr>"

subsection \<open>The service of a processor\<close>

datatype 'w worker_process_state = Starting "'w result" df_error | Running 'w | Errored df_error

definition wps_new :: "'w result \<Rightarrow> 'w worker_process_state" where
  "wps_new future = Starting future (Internal ''Worker process is still starting'')"

fun expect_started :: "'w worker_process_state \<Rightarrow> 'w result" where
  "expect_started (Starting _ still_starting_error) = Err still_starting_error"
| "expect_started (Running worker_process) = Ok worker_process"
| "expect_started (Errored error) = Err error"

fun wait_for_startup :: "'w worker_process_state \<Rightarrow> 'w result \<times> 'w worker_process_state" where
  "wait_for_startup (Starting (Ok worker_process) _) = (Ok worker_process, Running worker_process)"
| "wait_for_startup (Starting (Err error) _) = (Err error, Errored error)"
| "wait_for_startup (Running worker_process) = (Ok worker_process, Running worker_process)"
| "wait_for_startup (Errored error) = (Err error, Errored error)"

text \<open>The worker together with the address its data exchange listens on.\<close>

type_synonym ('b, 'e, 'c, 'db) service = "(string \<times> ('b, 'e, 'c, 'db) worker_process) worker_process_state"

definition service_new :: "string result \<Rightarrow> ('b, 'e, 'c, 'db) service" where
  "service_new start = wps_new (map_result (\<lambda>address. (address, worker_new)) start)"

fun service_start_up :: "('b, 'e, 'c, 'db) service \<Rightarrow> unit result \<times> ('b, 'e, 'c, 'db) service" where
  "service_start_up svc =
     (case wait_for_startup svc of
        (Ok _, svc') \<Rightarrow> (Ok (), svc')
      | (Err e, svc') \<Rightarrow> (Err (Execution ''Worker process failed to start''), svc'))"

definition service_addr :: "('b, 'e, 'c, 'db) service \<Rightarrow> string result" where
  "service_addr svc =
     (case expect_started svc of
        Err e \<Rightarrow> Err (Execution ''Worker process is still starting'')
      | Ok (address, _) \<Rightarrow> Ok address)"

text \<open>\<open>pc_get_root\<close> reads the root of a buffer, the readers below turn a root into a value.\<close>

record ('b, 'e, 'y, 'z) plan_codec =
  pc_task_bytes :: "('b, 'e) task_definition2 \<Rightarrow> 'y option"
  pc_details_bytes :: "initial_scheduling_details \<Rightarrow> 'y option"
  pc_get_root :: "'y \<Rightarrow> 'z option"
  pc_read_task :: "'z \<Rightarrow> ('b, 'e) task_definition2 option"
  pc_read_details :: "'z \<Rightarrow> initial_scheduling_details option"

definition decode_plan ::
  "('b, 'e, 'y, 'z) plan_codec \<Rightarrow> 'y \<Rightarrow> 'y \<Rightarrow> (('b, 'e) task_definition2 \<times> initial_scheduling_details) result" where
  "decode_plan pc task_bytes details_bytes =
     bind_result (ok_or (pc_get_root pc task_bytes) (Execution ''Failed to parse task bytes'')) (\<lambda>reader.
     bind_result (ok_or (pc_read_task pc reader) (Execution ''Failed to deserialize task definition'')) (\<lambda>task_definition.
     bind_result (ok_or (pc_get_root pc details_bytes) (Execution ''Failed to parse scheduling details bytes'')) (\<lambda>reader.
     bind_result (ok_or (pc_read_details pc reader) (Execution ''Failed to deserialize task definition'')) (\<lambda>details.
     Ok (task_definition, details)))))"

definition service_start_task ::
  "('b, 'e, 'y, 'z) plan_codec \<Rightarrow> 'y \<Rightarrow> 'y \<Rightarrow> ('b, 'e, 'c, 'db) service \<Rightarrow> unit result \<times> ('b, 'e, 'c, 'db) service" where
  "service_start_task pc task_bytes details_bytes svc =
     (case expect_started svc of
        Err e \<Rightarrow> (Err (Execution ''Worker process is still starting''), svc)
      | Ok (address, worker_process) \<Rightarrow>
          (case decode_plan pc task_bytes details_bytes of
             Err e \<Rightarrow> (Err e, svc)
           | Ok (task_definition, details) \<Rightarrow>
               (case start_task task_definition details worker_process of
                  (r, worker_process') \<Rightarrow> (r, Running (address, worker_process')))))"

definition service_start_task_from ::
  "('b, 'e, 'y, 'z) plan_codec \<Rightarrow> 'y \<Rightarrow> 'y \<Rightarrow> usize \<Rightarrow> ('b, 'e, 'c, 'db) service \<Rightarrow> unit result \<times> ('b, 'e, 'c, 'db) service" where
  "service_start_task_from pc task_bytes details_bytes checkpoint svc =
     (case expect_started svc of
        Err e \<Rightarrow> (Err (Execution ''Worker process is still starting''), svc)
      | Ok (address, worker_process) \<Rightarrow>
          (case decode_plan pc task_bytes details_bytes of
             Err e \<Rightarrow> (Err e, svc)
           | Ok (task_definition, details) \<Rightarrow>
               (case start_task_from task_definition details checkpoint worker_process of
                  (r, worker_process') \<Rightarrow> (r, Running (address, worker_process')))))"

subsection \<open>Remote processors\<close>

type_synonym ('b, 'e, 'c, 'db) cluster = "('b, 'e, 'c, 'db) service list"

record remote_processor =
  rp_processor_object :: nat
  rp_addr :: string

definition init_remote :: "(nat \<Rightarrow> string result) \<Rightarrow> ('b, 'e, 'c, 'db) cluster \<Rightarrow> ('b, 'e, 'c, 'db) cluster" where
  "init_remote boot cl = cl @ [service_new (boot (length cl))]"

text \<open>\<open>Processor.start_up\<close> of \<open>py/entrypoint.py\<close>, called remotely.\<close>

definition start_up_remote :: "nat \<Rightarrow> ('b, 'e, 'c, 'db) cluster \<Rightarrow> string result \<times> ('b, 'e, 'c, 'db) cluster" where
  "start_up_remote i cl =
     (case service_start_up (cl ! i) of
        (Err e, svc) \<Rightarrow> (Err e, cl[i := svc])
      | (Ok _, svc) \<Rightarrow> (service_addr svc, cl[i := svc]))"

fun start_up_all :: "nat list \<Rightarrow> ('b, 'e, 'c, 'db) cluster \<Rightarrow> string result list \<times> ('b, 'e, 'c, 'db) cluster" where
  "start_up_all [] cl = ([], cl)"
| "start_up_all (i # is) cl =
     (case start_up_remote i cl of (r, cl1) \<Rightarrow> case start_up_all is cl1 of (rs, cl2) \<Rightarrow> (r # rs, cl2))"

definition rp_start ::
  "(nat \<Rightarrow> string result) \<Rightarrow> ('b, 'e, 'c, 'db) cluster \<Rightarrow> remote_processor result \<times> ('b, 'e, 'c, 'db) cluster" where
  "rp_start boot cl =
     (case start_up_remote (length cl) (init_remote boot cl) of
        (Err e, cl') \<Rightarrow> (Err e, cl')
      | (Ok addr, cl') \<Rightarrow> (Ok \<lparr>rp_processor_object = length cl, rp_addr = addr\<rparr>, cl'))"

definition start_many ::
  "(nat \<Rightarrow> string result) \<Rightarrow> usize \<Rightarrow> ('b, 'e, 'c, 'db) cluster \<Rightarrow> remote_processor list result \<times> ('b, 'e, 'c, 'db) cluster" where
  "start_many boot num_processors cl =
     (let processor_objects = [length cl..<length cl + num_processors]
      in case start_up_all processor_objects ((init_remote boot ^^ num_processors) cl) of
           (addrs, cl') \<Rightarrow>
             (case collect_results addrs of
                Err e \<Rightarrow> (Err e, cl')
              | Ok addrs \<Rightarrow>
                  (Ok (map (\<lambda>(processor_object, addr). \<lparr>rp_processor_object = processor_object, rp_addr = addr\<rparr>)
                     (zip processor_objects addrs)), cl')))"

definition encode_plan ::
  "('b, 'e, 'y, 'z) plan_codec \<Rightarrow> ('b, 'e) task_definition2 \<Rightarrow> initial_scheduling_details \<Rightarrow> ('y \<times> 'y) result" where
  "encode_plan pc td details =
     bind_result (ok_or (pc_task_bytes pc td) (Execution ''Failed to serialize TaskDefinition2'')) (\<lambda>task_bytes.
     bind_result (ok_or (pc_details_bytes pc details) (Execution ''Failed to serialize InitialSchedulingDetails'')) (\<lambda>detail_bytes.
     Ok (task_bytes, detail_bytes)))"

text \<open>\<open>Processor.update_plan\<close> and \<open>Processor.update_plan_with_checkpoint\<close> are called without waiting for the outcome.\<close>

definition update_plan ::
  "('b, 'e, 'y, 'z) plan_codec \<Rightarrow> remote_processor \<Rightarrow> ('b, 'e) task_definition2 \<Rightarrow> initial_scheduling_details
     \<Rightarrow> ('b, 'e, 'c, 'db) cluster \<Rightarrow> unit result \<times> ('b, 'e, 'c, 'db) cluster" where
  "update_plan pc processor td details cl =
     (case encode_plan pc td details of
        Err e \<Rightarrow> (Err e, cl)
      | Ok (task_bytes, detail_bytes) \<Rightarrow>
          (let i = rp_processor_object processor
           in (Ok (), cl[i := snd (service_start_task pc task_bytes detail_bytes (cl ! i))])))"

definition update_plan_with_checkpoint ::
  "('b, 'e, 'y, 'z) plan_codec \<Rightarrow> remote_processor \<Rightarrow> ('b, 'e) task_definition2 \<Rightarrow> initial_scheduling_details \<Rightarrow> usize
     \<Rightarrow> ('b, 'e, 'c, 'db) cluster \<Rightarrow> unit result \<times> ('b, 'e, 'c, 'db) cluster" where
  "update_plan_with_checkpoint pc processor td details checkpoint cl =
     (case encode_plan pc td details of
        Err e \<Rightarrow> (Err e, cl)
      | Ok (task_bytes, detail_bytes) \<Rightarrow>
          (let i = rp_processor_object processor
           in (Ok (), cl[i := snd (service_start_task_from pc task_bytes detail_bytes checkpoint (cl ! i))])))"

definition start_processor_and_run ::
  "('b, 'e, 'y, 'z) plan_codec \<Rightarrow> (nat \<Rightarrow> string result) \<Rightarrow> ('b, 'e) task_definition2 \<Rightarrow> initial_scheduling_details
     \<Rightarrow> ('b, 'e, 'c, 'db) cluster \<Rightarrow> remote_processor result \<times> ('b, 'e, 'c, 'db) cluster" where
  "start_processor_and_run pc boot td details cl =
     (case rp_start boot cl of
        (Err e, cl1) \<Rightarrow> (Err e, cl1)
      | (Ok processor, cl1) \<Rightarrow>
          (case update_plan pc processor td details cl1 of
             (Err e, cl2) \<Rightarrow> (Err e, cl2)
           | (Ok _, cl2) \<Rightarrow> (Ok processor, cl2)))"

subsection \<open>Deploying tasks\<close>

text \<open>The loop that starts the tasks in the background.\<close>

fun deploy ::
  "('b, 'e, 'y, 'z) plan_codec \<Rightarrow> initial_scheduling_details \<Rightarrow> (('b, 'e) task_definition2 \<times> remote_processor) list
     \<Rightarrow> ('b, 'e, 'c, 'db) cluster \<Rightarrow> unit result \<times> ('b, 'e, 'c, 'db) cluster" where
  "deploy pc details [] cl = (Ok (), cl)"
| "deploy pc details ((task, processor) # rest) cl =
     (case update_plan pc processor task details cl of
        (Err e, cl1) \<Rightarrow> (Err e, cl1)
      | (Ok _, cl1) \<Rightarrow> deploy pc details rest cl1)"

definition schedule_together ::
  "('b, 'e, 'y, 'z) plan_codec \<Rightarrow> (nat \<Rightarrow> string result) \<Rightarrow> ('b, 'e) task_definition2 list \<Rightarrow> ('b, 'e, 'c, 'db) cluster
     \<Rightarrow> (('b, 'e) task_definition2 \<times> string \<times> remote_processor) list result \<times> ('b, 'e, 'c, 'db) cluster" where
  "schedule_together pc boot tasks cl =
     (case start_many boot (length tasks) cl of
        (Err e, cl1) \<Rightarrow> (Err e, cl1)
      | (Ok processors, cl1) \<Rightarrow>
          (let assigned_tasks = zip tasks (map rp_addr processors);
               scheduling_details = schedule_without_partitions_inner assigned_tasks
           in case deploy pc scheduling_details (zip tasks processors) cl1 of
                (Err e, cl2) \<Rightarrow> (Err e, cl2)
              | (Ok _, cl2) \<Rightarrow>
                  (Ok (map (\<lambda>((task, addr), processor). (task, addr, processor)) (zip assigned_tasks processors)), cl2)))"

record ('b, 'e, 'c) active_coordinator =
  ac_remote_checkpoint_storage :: "'c state_storage"
  ac_tasks :: "(('b, 'e) task_definition2 \<times> (string \<times> remote_processor \<times> partition_range) list) list"

definition start_single_copies ::
  "('b, 'e, 'y, 'z) plan_codec \<Rightarrow> (nat \<Rightarrow> string result) \<Rightarrow> ('b, 'e) task_definition2 list \<Rightarrow> path
     \<Rightarrow> ('b, 'e, 'c, 'db) cluster \<Rightarrow> ('b, 'e, 'c) active_coordinator result \<times> ('b, 'e, 'c, 'db) cluster" where
  "start_single_copies pc boot tasks remote_checkpoint_dir cl =
     (case start_many boot (length tasks) cl of
        (Err e, cl1) \<Rightarrow> (Err e, cl1)
      | (Ok processors, cl1) \<Rightarrow>
          (let assigned_tasks = zip tasks (map rp_addr processors);
               scheduling_details = schedule_with_constant_partitions assigned_tasks pr_full
           in case deploy pc scheduling_details (zip tasks processors) cl1 of
                (Err e, cl2) \<Rightarrow> (Err e, cl2)
              | (Ok _, cl2) \<Rightarrow>
                  (Ok \<lparr>ac_remote_checkpoint_storage =
                         \<lparr>ss_storage = prefixed_storage remote_checkpoint_dir, ss_root_dir = [''state'']\<rparr>,
                       ac_tasks = map (\<lambda>((task, addr), processor). (task, [(addr, processor, pr_full)]))
                         (zip assigned_tasks processors)\<rparr>, cl2)))"

text \<open>\<open>stream_results\<close> tries to open the stream up to six times and passes on the batches.\<close>

fun result_batch :: "'b sitem result \<Rightarrow> 'b result option" where
  "result_batch (Err e) = Some (Err e)"
| "result_batch (Ok (SBatch batch)) = Some (Ok batch)"
| "result_batch _ = None"

definition stream_results ::
  "(nat \<Rightarrow> string \<Rightarrow> string \<Rightarrow> partition_range \<Rightarrow> 'b sitem result list result) \<Rightarrow> string \<Rightarrow> string \<Rightarrow> 'b result list result" where
  "stream_results create_stream address stream_id =
     map_result (List.map_filter result_batch)
       (fst (retry_future 5 (\<lambda>attempt. create_stream attempt stream_id address pr_empty) 0))"

definition collect_inner ::
  "(nat \<Rightarrow> string \<Rightarrow> string \<Rightarrow> partition_range \<Rightarrow> 'b sitem result list result) \<Rightarrow> string \<Rightarrow> string \<Rightarrow> 'b list result" where
  "collect_inner create_stream address stream_id = bind_result (stream_results create_stream address stream_id) collect_results"

definition stream_last_output ::
  "(nat \<Rightarrow> string \<Rightarrow> string \<Rightarrow> partition_range \<Rightarrow> 'b sitem result list result) \<Rightarrow> ('b, 'e, 'c) active_coordinator
     \<Rightarrow> 'b result list result" where
  "stream_last_output create_stream ac =
     (case rev (ac_tasks ac) of
        [] \<Rightarrow> Err (Execution ''No tasks assigned'')
      | (output_task, copies) # _ \<Rightarrow>
          (case copies of
             [(output_addr, _, _)] \<Rightarrow>
               (case rev (exchange_outputs output_task) of
                  [] \<Rightarrow> Err (Panic ''called unwrap on a None value'')
                | last_output # _ \<Rightarrow>
                    (case stream_results create_stream output_addr last_output of
                       Err e \<Rightarrow> Err (Execution ''Error streaming results'')
                     | Ok stream \<Rightarrow> Ok stream))
           | _ \<Rightarrow> Err (Execution ''Expected exactly one copy of the output task'')))"

subsection \<open>Scaling up\<close>

text \<open>
  The source writes \<open>2usize^32\<close>, which is exclusive or.  No sum or product below exceeds the
  cap, so the arithmetic does not wrap.
\<close>

definition new_partition_cap :: usize where
  "new_partition_cap = 2 XOR 32"

definition scale_range :: "usize \<Rightarrow> usize \<Rightarrow> usize \<Rightarrow> usize \<Rightarrow> partition_range" where
  "scale_range cap partition_size_floor remaining_size i =
     (let sz = partition_size_floor + (if i < remaining_size then 1 else 0);
          start = i * partition_size_floor + (if i < remaining_size then i else remaining_size)
      in pr_new start (start + sz) cap)"

definition scale_partitions :: "usize \<Rightarrow> partition_range list result" where
  "scale_partitions new_number =
     bind_result (usize_div new_partition_cap new_number) (\<lambda>partition_size_floor.
     bind_result (usize_rem new_partition_cap new_number) (\<lambda>remaining_size.
     Ok (map (scale_range new_partition_cap partition_size_floor remaining_size) [0..<new_number])))"

text \<open>\<open>str::parse::<usize>\<close>: an optional plus sign and decimal digits, within the range of the type.\<close>

fun parse_digits :: "nat \<Rightarrow> string \<Rightarrow> nat option" where
  "parse_digits n [] = Some n"
| "parse_digits n (c # cs) =
     (let d = of_char c in
      if 48 \<le> d \<and> d \<le> (57 :: nat) \<and> n * 10 + (d - 48) < usize_limit then parse_digits (n * 10 + (d - 48)) cs else None)"

definition parse_usize :: "string \<Rightarrow> usize option" where
  "parse_usize s =
     (case s of
        [] \<Rightarrow> None
      | c # cs \<Rightarrow> if c = CHR ''+'' then (if cs = [] then None else parse_digits 0 cs) else parse_digits 0 s)"

definition latest_checkpoint_of ::
  "'c json_lib \<Rightarrow> 'c state_storage \<Rightarrow> 'c node \<Rightarrow> string \<Rightarrow> partition_range \<Rightarrow> (partition_range \<times> usize) result" where
  "latest_checkpoint_of json storage disk task_state_id prange =
     bind_result (get_latest_operator_checkpoints json storage task_state_id prange disk) (\<lambda>(checkpoint_id, _).
     bind_result (ok_or (parse_usize checkpoint_id) (Internal ''Failed to parse checkpoint ID'')) (\<lambda>checkpoint_id.
     Ok (prange, checkpoint_id)))"

definition other_input_locations ::
  "string \<Rightarrow> (('b, 'e) task_definition2 \<times> (string \<times> remote_processor \<times> partition_range) list) list \<Rightarrow> generation_input_detail list" where
  "other_input_locations task_id tasks =
     concat (map (\<lambda>(task, copies). map (\<lambda>stream_id.
         \<lparr>gid_stream_id = stream_id, gid_locations = map (\<lambda>(addr, _, prange). single_location addr prange) copies\<rparr>)
         (exchange_outputs task)) (filter (\<lambda>(task, _). td_task_id task \<noteq> task_id) tasks))"

fun deploy_copies ::
  "('b, 'e, 'y, 'z) plan_codec \<Rightarrow> ('b, 'e) task_definition2 \<Rightarrow> generation_input_detail list
     \<Rightarrow> ((partition_range \<times> usize) \<times> remote_processor) list \<Rightarrow> ('b, 'e, 'c, 'db) cluster
     \<Rightarrow> unit result \<times> ('b, 'e, 'c, 'db) cluster" where
  "deploy_copies pc td input_locations [] cl = (Ok (), cl)"
| "deploy_copies pc td input_locations (((prange, checkpoint), processor) # rest) cl =
     (case update_plan_with_checkpoint pc processor td
         \<lparr>isd_generations = [\<lparr>gs_id = td_task_id td @ ''-'' @ rp_addr processor, gs_partitions = prange, gs_start_conditions = []\<rparr>],
          isd_input_locations = input_locations\<rparr> checkpoint cl of
        (Err e, cl1) \<Rightarrow> (Err e, cl1)
      | (Ok _, cl1) \<Rightarrow> deploy_copies pc td input_locations rest cl1)"

text \<open>The coordinator itself is not changed.\<close>

definition scale_up ::
  "('b, 'e, 'y, 'z) plan_codec \<Rightarrow> (nat \<Rightarrow> string result) \<Rightarrow> 'c json_lib \<Rightarrow> 'c node \<Rightarrow> ('b, 'e, 'c) active_coordinator
     \<Rightarrow> string \<Rightarrow> usize \<Rightarrow> ('b, 'e, 'c, 'db) cluster \<Rightarrow> unit result \<times> ('b, 'e, 'c, 'db) cluster" where
  "scale_up pc boot json disk ac task_id new_number cl =
     (case find (\<lambda>(task, _). td_task_id task = task_id) (ac_tasks ac) of
        None \<Rightarrow> (Err (Execution ''Task with ID not found''), cl)
      | Some (task_def, copies) \<Rightarrow>
          (case scale_partitions new_number of
             Err e \<Rightarrow> (Err e, cl)
           | Ok partitions \<Rightarrow>
               (case used_state_ids task_def of
                  [task_state_id] \<Rightarrow>
                    (case collect_results (map (latest_checkpoint_of json (ac_remote_checkpoint_storage ac) disk task_state_id) partitions) of
                       Err e \<Rightarrow> (Err e, cl)
                     | Ok partitions \<Rightarrow>
                         (case start_many boot new_number cl of
                            (Err e, cl1) \<Rightarrow> (Err e, cl1)
                          | (Ok processors, cl1) \<Rightarrow>
                              deploy_copies pc task_def (other_input_locations task_id (ac_tasks ac)) (zip partitions processors) cl1))
                | _ \<Rightarrow> (Err (Execution ''Scaling up is only supported for tasks with a single state ID''), cl))))"

subsection \<open>Resolving scheduled inputs\<close>

lemma without_is_constant: "schedule_without_partitions_inner assigned = schedule_with_constant_partitions assigned pr_empty"
  by (simp add: schedule_without_partitions_inner_def schedule_with_constant_partitions_def)

text \<open>A range as the scheduler hands it out: an empty one is the canonical one.\<close>

definition canonical :: "partition_range \<Rightarrow> bool" where
  "canonical p \<longleftrightarrow> p = pr_empty \<or> range_ok p \<and> \<not> pr_is_empty p"

lemma canonical_full: "canonical pr_full"
  by (simp add: canonical_def pr_full_value range_ok_def range_defs usize_limit_def)

lemma single_location_resolves:
  assumes "canonical p" and "checkpoint < 2 ^ 32"
  shows "get_addresses_for_stream p checkpoint \<lparr>gid_stream_id = sid, gid_locations = [single_location addr p]\<rparr> = Ok [(sid, addr, p)]"
  using assms
  by (auto simp: canonical_def get_addresses_for_stream_def single_location_def location_active_def match_location_def
    pr_intersection_def pr_is_empty_def pr_empty_def pr_size_def usize_sub_def usize_sum_def usize_add_def range_ok_def Let_def
    List.map_filter_def)

lemma find_scheduled:
  assumes "\<exists>(task, addr) \<in> set assigned. sid \<in> set (exchange_outputs task)"
  shows "\<exists>task addr. (task, addr) \<in> set assigned \<and> sid \<in> set (exchange_outputs task) \<and>
    find (\<lambda>d. gid_stream_id d = sid) (isd_input_locations (schedule_with_constant_partitions assigned p)) =
      Some \<lparr>gid_stream_id = sid, gid_locations = [single_location addr p]\<rparr>"
proof -
  let ?locs = "isd_input_locations (schedule_with_constant_partitions assigned p)"
  have locs: "d \<in> set ?locs \<longleftrightarrow> (\<exists>task addr s. (task, addr) \<in> set assigned \<and> s \<in> set (exchange_outputs task) \<and>
      d = \<lparr>gid_stream_id = s, gid_locations = [single_location addr p]\<rparr>)" for d
    by (auto simp: schedule_with_constant_partitions_def image_iff Bex_def split_beta)
  obtain d where d: "find (\<lambda>d. gid_stream_id d = sid) ?locs = Some d"
  proof (cases "find (\<lambda>d. gid_stream_id d = sid) ?locs")
    case None
    obtain task addr where "(task, addr) \<in> set assigned" "sid \<in> set (exchange_outputs task)" using assms by auto
    then have "\<lparr>gid_stream_id = sid, gid_locations = [single_location addr p]\<rparr> \<in> set ?locs" unfolding locs by blast
    with None show thesis by (auto simp: find_None_iff)
  qed (rule that)
  then have "d \<in> set ?locs" "gid_stream_id d = sid" using find_Some_split [OF d] by auto
  with locs [of d] obtain task addr where "(task, addr) \<in> set assigned" "sid \<in> set (exchange_outputs task)"
    "d = \<lparr>gid_stream_id = sid, gid_locations = [single_location addr p]\<rparr>" by auto
  with d show ?thesis by blast
qed

text \<open>
  C15: the scheduling details connect the tasks.  With the details computed for tasks and the
  addresses they are assigned to, a reader finds a current generation at any marker, and for
  any streams the tasks produce and any checkpoint below 2 to the 32 it resolves each stream
  to one address, with the whole range of the generation, and a task assigned to that address
  produces the stream.
\<close>

theorem scheduled_inputs_resolve:
  assumes "canonical p" and "checkpoint < 2 ^ 32"
    and "\<forall>sid \<in> set sids. \<exists>(task, addr) \<in> set assigned. sid \<in> set (exchange_outputs task)"
    and "details = schedule_with_constant_partitions assigned p"
  shows "\<exists>generation addr_of. find_current_generation sids (isd_generations details) marker = Ok generation \<and>
    get_addresses (gs_partitions generation) checkpoint sids (isd_input_locations details) = Ok (map (\<lambda>sid. (sid, addr_of sid, p)) sids) \<and>
    (\<forall>sid \<in> set sids. \<exists>task. (task, addr_of sid) \<in> set assigned \<and> sid \<in> set (exchange_outputs task))"
proof -
  let ?g = "\<lparr>gs_id = ''initial_generation'', gs_partitions = p, gs_start_conditions = []\<rparr>"
  have gen: "find_current_generation sids (isd_generations details) marker = Ok ?g"
    by (simp add: assms(4) schedule_with_constant_partitions_def find_current_generation_def generation_valid_def)
  have "\<forall>sid \<in> set sids. \<exists>addr. (\<exists>task. (task, addr) \<in> set assigned \<and> sid \<in> set (exchange_outputs task)) \<and>
      find (\<lambda>d. gid_stream_id d = sid) (isd_input_locations details) = Some \<lparr>gid_stream_id = sid, gid_locations = [single_location addr p]\<rparr>"
    using find_scheduled [of assigned _ p] assms(3,4) by blast
  then obtain addr_of where addr_of: "\<And>sid. sid \<in> set sids \<Longrightarrow> (\<exists>task. (task, addr_of sid) \<in> set assigned \<and> sid \<in> set (exchange_outputs task)) \<and>
      find (\<lambda>d. gid_stream_id d = sid) (isd_input_locations details) =
        Some \<lparr>gid_stream_id = sid, gid_locations = [single_location (addr_of sid) p]\<rparr>" by metis
  have "get_addresses p checkpoint sids (isd_input_locations details) = Ok (map (\<lambda>sid. (sid, addr_of sid, p)) sids)"
    unfolding get_addresses_Ok_iff
    by (rule exI [of _ "map (\<lambda>sid. \<lparr>gid_stream_id = sid, gid_locations = [single_location (addr_of sid) p]\<rparr>) sids"],
        rule exI [of _ "map (\<lambda>sid. [(sid, addr_of sid, p)]) sids"])
      (simp add: addr_of single_location_resolves [OF assms(1,2)])
  with gen addr_of show ?thesis by (intro exI [of _ ?g] exI [of _ addr_of]) auto
qed

subsection \<open>Deployment\<close>

text \<open>
  The tasks to be deployed and all scheduling details come back as they were written.  Of other
  tasks nothing is asked: expressions with user-defined functions are not written at all.
\<close>

definition plan_codec_ok :: "('b, 'e, 'y, 'z) plan_codec \<Rightarrow> ('b, 'e) task_definition2 set \<Rightarrow> bool" where
  "plan_codec_ok pc tasks \<longleftrightarrow>
     (\<forall>td \<in> tasks. \<exists>y z. pc_task_bytes pc td = Some y \<and> pc_get_root pc y = Some z \<and> pc_read_task pc z = Some td) \<and>
     (\<forall>d. \<exists>y z. pc_details_bytes pc d = Some y \<and> pc_get_root pc y = Some z \<and> pc_read_details pc z = Some d)"

lemma plan_round_trip:
  assumes "plan_codec_ok pc tasks" and "td \<in> tasks"
  obtains tb db where "encode_plan pc td d = Ok (tb, db)" "decode_plan pc tb db = Ok (td, d)"
proof -
  obtain tb z where "pc_task_bytes pc td = Some tb" "pc_get_root pc tb = Some z" "pc_read_task pc z = Some td"
    using assms unfolding plan_codec_ok_def by blast
  moreover obtain db z' where "pc_details_bytes pc d = Some db" "pc_get_root pc db = Some z'" "pc_read_details pc z' = Some d"
    using assms unfolding plan_codec_ok_def by blast
  ultimately show thesis by (intro that [of tb db]) (simp_all add: encode_plan_def decode_plan_def)
qed

lemma update_plan_round_trip:
  assumes "plan_codec_ok pc tasks" and "cl ! i = Running (addr, wp)" and "rp_processor_object processor = i" and "td \<in> tasks"
  shows "update_plan pc processor td details cl = (Ok (), cl[i := Running (addr, snd (start_task td details wp))])"
proof -
  obtain tb db where "encode_plan pc td details = Ok (tb, db)" "decode_plan pc tb db = Ok (td, details)"
    by (rule plan_round_trip [OF assms(1,4)])
  with assms(2,3) show ?thesis
    by (simp add: update_plan_def service_start_task_def Let_def split: prod.split)
qed

lemma init_remotes: "(init_remote boot ^^ n) cl = cl @ map (\<lambda>i. service_new (boot i)) [length cl..<length cl + n]"
proof (induction n)
  case (Suc n)
  have "(init_remote boot ^^ Suc n) cl = init_remote boot (cl @ map (\<lambda>i. service_new (boot i)) [length cl..<length cl + n])"
    using Suc by simp
  also have "\<dots> = cl @ map (\<lambda>i. service_new (boot i)) [length cl..<length cl + Suc n]" by (simp add: init_remote_def)
  finally show ?case .
qed simp

definition booted :: "string \<Rightarrow> ('b, 'e, 'c, 'db) service" where
  "booted addr = Running (addr, worker_new)"

lemma start_up_fresh:
  assumes "cl ! i = service_new (Ok addr)" and "i < length cl"
  shows "start_up_remote i cl = (Ok addr, cl[i := booted addr])"
  using assms by (simp add: start_up_remote_def service_new_def wps_new_def service_addr_def booted_def)

lemma start_up_all_fresh:
  assumes "\<And>i. i \<in> set [length cl..<length cl + n] \<Longrightarrow> boot i = Ok (addr i)"
  shows "start_up_all [length cl..<length cl + n] (cl @ map (\<lambda>i. service_new (boot i)) [length cl..<length cl + n]) =
    (map (\<lambda>i. Ok (addr i)) [length cl..<length cl + n], cl @ map (\<lambda>i. booted (addr i)) [length cl..<length cl + n])"
  using assms
proof (induction n arbitrary: cl)
  case (Suc n)
  let ?k = "length cl" and ?rest = "map (\<lambda>i. service_new (boot i)) [Suc (length cl)..<length cl + Suc n]"
  have upt: "[?k..<?k + Suc n] = ?k # [Suc ?k..<?k + Suc n]" by (simp add: upt_conv_Cons del: upt_Suc)
  have "boot ?k = Ok (addr ?k)" by (rule Suc.prems) auto
  then have "start_up_remote ?k (cl @ service_new (boot ?k) # rest) = (Ok (addr ?k), (cl @ [booted (addr ?k)]) @ rest)" for rest
    using start_up_fresh [of "cl @ service_new (boot ?k) # rest" ?k "addr ?k"] by simp
  moreover have "start_up_all [Suc ?k..<?k + Suc n] ((cl @ [booted (addr ?k)]) @ ?rest) =
      (map (\<lambda>i. Ok (addr i)) [Suc ?k..<?k + Suc n], (cl @ [booted (addr ?k)]) @ map (\<lambda>i. booted (addr i)) [Suc ?k..<?k + Suc n])"
    using Suc.IH [of "cl @ [booted (addr ?k)]"] Suc.prems by (simp del: upt_Suc)
  ultimately show ?case unfolding upt list.map start_up_all.simps by (simp del: upt_Suc append_assoc)
qed simp

lemma start_many_fresh:
  assumes "\<And>i. length cl \<le> i \<Longrightarrow> i < length cl + n \<Longrightarrow> boot i = Ok (addr i)"
  shows "start_many boot n cl =
    (Ok (map (\<lambda>i. \<lparr>rp_processor_object = i, rp_addr = addr i\<rparr>) [length cl..<length cl + n]),
     cl @ map (\<lambda>i. booted (addr i)) [length cl..<length cl + n])"
proof -
  have "collect_results (map (\<lambda>i. Ok (addr i)) is) = Ok (map addr is)" for "is" by simp
  moreover have "zip is (map addr is) = map (\<lambda>i. (i, addr i)) is" for "is" by (induction "is") auto
  ultimately show ?thesis
    using start_up_all_fresh [of cl n boot addr] assms by (simp add: start_many_def init_remotes Let_def comp_def)
qed

definition running_service :: "initial_scheduling_details \<Rightarrow> ('b, 'e) task_definition2 \<Rightarrow> string \<Rightarrow> ('b, 'e, 'c, 'db) service" where
  "running_service details td addr = Running (addr, snd (start_task td details worker_new))"

lemma deploy_fresh:
  assumes "plan_codec_ok pc all" and "set tasks \<subseteq> all"
  shows "deploy pc details (zip tasks (map (\<lambda>i. \<lparr>rp_processor_object = i, rp_addr = addr i\<rparr>) [length cl..<length cl + length tasks]))
      (cl @ map (\<lambda>i. booted (addr i)) [length cl..<length cl + length tasks]) =
    (Ok (), cl @ map (\<lambda>(td, i). running_service details td (addr i)) (zip tasks [length cl..<length cl + length tasks]))"
  using assms(2)
proof (induction tasks arbitrary: cl)
  case (Cons td tasks)
  let ?k = "length cl"
  have upt: "[?k..<?k + length (td # tasks)] = ?k # [Suc ?k..<Suc ?k + length tasks]" by (simp add: upt_conv_Cons del: upt_Suc)
  have "update_plan pc \<lparr>rp_processor_object = ?k, rp_addr = addr ?k\<rparr> td details (cl @ booted (addr ?k) # rest) =
      (Ok (), (cl @ [running_service details td (addr ?k)]) @ rest)" for rest
    using update_plan_round_trip [OF assms(1), of "cl @ booted (addr ?k) # rest" ?k] Cons.prems
    by (simp add: booted_def running_service_def)
  with Cons.prems Cons.IH [of "cl @ [running_service details td (addr ?k)]"] show ?case unfolding upt by (simp del: upt_Suc)
qed simp

text \<open>
  C14: starting single copies runs every task on a processor of its own.  When the new workers
  start, the tasks can be written and read back and have no open inputs or outputs, the processors that existed are
  unchanged, and the \<open>i\<close>-th new processor runs the \<open>i\<close>-th task, and no other, from checkpoint 0
  with the details that the scheduler computed for all the tasks over the full range; the
  coordinator records the task with that processor, its address and the full range.
\<close>

theorem single_copies_run:
  fixes pc :: "('b, 'e, 'y, 'z) plan_codec" and cl :: "('b, 'e, 'c, 'db) cluster"
  assumes "plan_codec_ok pc (set tasks)"
    and "\<And>i. length cl \<le> i \<Longrightarrow> i < length cl + length tasks \<Longrightarrow> boot i = Ok (addr i)"
    and "\<forall>td \<in> set tasks. od_inputs (td_operator td) = [] \<and> od_outputs (td_operator td) = []"
    and "details = schedule_with_constant_partitions (zip tasks (map addr [length cl..<length cl + length tasks])) pr_full"
  shows "\<exists>ac cl'. start_single_copies pc boot tasks dir cl = (Ok ac, cl') \<and> length cl' = length cl + length tasks \<and>
    take (length cl) cl' = cl \<and> length (ac_tasks ac) = length tasks \<and>
    (\<forall>i < length tasks.
       ac_tasks ac ! i = (tasks ! i, [(addr (length cl + i),
         \<lparr>rp_processor_object = length cl + i, rp_addr = addr (length cl + i)\<rparr>, pr_full)]) \<and>
       (\<exists>wp t. cl' ! (length cl + i) = Running (addr (length cl + i), wp) \<and>
         wp_running_tasks wp = [td_task_id (tasks ! i) \<mapsto> t] \<and> wp_cancelled wp = [] \<and> \<not> rt_aborted t \<and>
         rt_function t = create_operator_function (od_spec (td_operator (tasks ! i))) \<and> rt_initial_checkpoint t = 0 \<and>
         rt_scheduling_details t = (Some (isd_generations details), Some (isd_input_locations details))))"
proof -
  let ?n = "length tasks" and ?is = "[length cl..<length cl + length tasks]"
  let ?ps = "map (\<lambda>i. \<lparr>rp_processor_object = i, rp_addr = addr i\<rparr>) ?is"
  let ?cl = "cl @ map (\<lambda>(td, i). running_service details td (addr i)) (zip tasks ?is)"
  let ?ac = "\<lparr>ac_remote_checkpoint_storage = \<lparr>ss_storage = prefixed_storage dir, ss_root_dir = [''state'']\<rparr>,
      ac_tasks = map (\<lambda>((task, addr), processor). (task, [(addr, processor, pr_full)])) (zip (zip tasks (map addr ?is)) ?ps)\<rparr>"
  have started: "start_many boot ?n cl = (Ok ?ps, cl @ map (\<lambda>i. booted (addr i)) ?is)"
    by (rule start_many_fresh) (rule assms(2))
  have details: "schedule_with_constant_partitions (zip tasks (map rp_addr ?ps)) pr_full = details"
    by (simp add: assms(4) comp_def)
  have "start_single_copies pc boot tasks dir cl = (Ok ?ac, ?cl)"
    unfolding start_single_copies_def started prod.case result.case Let_def details deploy_fresh [OF assms(1) subset_refl]
    by (simp add: comp_def)
  moreover have "\<exists>wp t. running_service details (tasks ! i) a = (Running (a, wp) :: ('b, 'e, 'c, 'db) service) \<and>
         wp_running_tasks wp = [td_task_id (tasks ! i) \<mapsto> t] \<and> wp_cancelled wp = [] \<and> \<not> rt_aborted t \<and>
         rt_function t = create_operator_function (od_spec (td_operator (tasks ! i))) \<and> rt_initial_checkpoint t = 0 \<and>
         rt_scheduling_details t = (Some (isd_generations details), Some (isd_input_locations details))" if "i < ?n" for i a
    using assms(3) that
    by (simp add: running_service_def start_task_def start_task_from_def running_task_start_def worker_new_def)
      (rule exI, rule conjI, rule refl, simp)
  ultimately show ?thesis by (intro exI [of _ ?ac] exI [of _ ?cl]) (simp add: nth_append)
qed

subsection \<open>Ranges of a scaled task\<close>

lemma scale_steps_tile:
  assumes "\<And>i. i < n \<Longrightarrow> start i < start (Suc i)"
  shows "tiles (start 0) (start n) (map (\<lambda>i. (start i, start (Suc i))) [0..<n])"
  using assms
proof (induction n)
  case (Suc n)
  then show ?case by (auto intro!: tile_intros)
qed simp

definition scaled_ranges :: "usize \<Rightarrow> partition_range list" where
  "scaled_ranges n = map (scale_range new_partition_cap (new_partition_cap div n) (new_partition_cap mod n)) [0..<n]"

lemma scale_partitions_eq: "0 < n \<Longrightarrow> scale_partitions n = Ok (scaled_ranges n)"
  by (simp add: scale_partitions_def scaled_ranges_def usize_div_def usize_rem_def)

lemma scaled_cover:
  assumes "0 < n" and "n \<le> new_partition_cap"
  shows "range_cover (scaled_ranges n) new_partition_cap"
proof
  let ?cap = new_partition_cap and ?q = "new_partition_cap div n" and ?r = "new_partition_cap mod n"
  define start where "start i = i * ?q + min i ?r" for i
  have "0 < ?q" using assms by (simp add: div_greater_zero_iff)
  then have "start i < start (Suc i)" for i by (auto simp: start_def min_def)
  then have "tiles (start 0) (start n) (map (\<lambda>i. (start i, start (Suc i))) [0..<n])" by (rule scale_steps_tile)
  moreover have "start n = ?cap"
    using mod_less_divisor [OF assms(1), of ?cap] by (simp add: start_def min_def)
  moreover have "range_bounds (scale_range ?cap ?q ?r i) = (start i, start (Suc i))" for i
    by (auto simp: range_bounds_def scale_range_def pr_new_def start_def Let_def min_def)
  ultimately show "tiles 0 ?cap (map range_bounds (scaled_ranges n))"
    by (simp add: scaled_ranges_def start_def comp_def)
  show "0 < ?cap" using assms by simp
  show "pr_partitions r = ?cap" if "r \<in> set (scaled_ranges n)" for r
    using that by (auto simp: scaled_ranges_def scale_range_def pr_new_def Let_def)
qed

interpretation full_range: range_cover "[pr_full]" new_partition_cap
  by unfold_locales (simp_all add: pr_full_def pr_new_def range_bounds_def new_partition_cap_def)

text \<open>
  C16: the ranges of the copies of a scaled task partition the work.  For at least one copy and
  at most as many as there are partitions, the ranges tile the partitions in order, their sizes
  differ by at most one, and every hash is in the range of exactly one copy.
\<close>

theorem scale_up_ranges:
  assumes "0 < n" and "n \<le> new_partition_cap"
  shows "\<exists>rs. scale_partitions n = Ok rs \<and> length rs = n \<and> tiles 0 new_partition_cap (map range_bounds rs) \<and>
    (\<forall>r \<in> set rs. pr_partitions r = new_partition_cap \<and>
       pr_end r - pr_start r \<in> {new_partition_cap div n, new_partition_cap div n + 1}) \<and>
    (\<forall>hash. length (filter (\<lambda>r. contains_hash r hash = Ok True) rs) = 1)"
proof -
  note cover = scaled_cover [OF assms]
  have "pr_end r - pr_start r \<in> {new_partition_cap div n, new_partition_cap div n + 1}" if "r \<in> set (scaled_ranges n)" for r
    using that by (auto simp: scaled_ranges_def scale_range_def pr_new_def Let_def)
  moreover have "length (scaled_ranges n) = n" by (simp add: scaled_ranges_def)
  ultimately show ?thesis
    using range_cover.tiling [OF cover] range_cover.same_np [OF cover] range_cover.hash_in_one_range [OF cover]
    by (intro exI [of _ "scaled_ranges n"]) (simp add: scale_partitions_eq [OF assms(1)])
qed

theorem scale_up_ranges_witness:
  "\<exists>rs. scale_partitions 3 = Ok rs \<and> length rs = 3 \<and> tiles 0 34 (map range_bounds rs)"
  using scale_up_ranges [of 3] by (auto simp: new_partition_cap_def)

subsection \<open>Checkpoint numbers\<close>

lemma parse_digits_append: "parse_digits n (xs @ ys) = Option.bind (parse_digits n xs) (\<lambda>m. parse_digits m ys)"
  by (induction n xs rule: parse_digits.induct) (auto simp: Let_def)

lemma parse_digits_show: "n < usize_limit \<Longrightarrow> parse_digits 0 (show_usize n) = Some n"
proof (induction n rule: show_usize.induct)
  case (1 n)
  show ?case
  proof (cases "n < 10")
    case True
    with 1(2) show ?thesis by (subst show_usize.simps) (simp add: Let_def)
  next
    case False
    have "n div 10 < usize_limit" using 1(2) by linarith
    with 1(1) False have "parse_digits 0 (show_usize (n div 10)) = Some (n div 10)" by simp
    moreover have "n div 10 * 10 + n mod 10 = n" by simp
    ultimately show ?thesis
      using False 1(2) by (subst show_usize.simps) (simp add: parse_digits_append Let_def)
  qed
qed

lemma show_usize_head: "\<exists>c cs. show_usize n = c # cs \<and> c \<noteq> CHR ''+''"
proof (induction n rule: show_usize.induct)
  case (1 n)
  have digit: "char_of (48 + k) \<noteq> CHR ''+''" if "k < 10" for k :: nat
  proof
    assume "char_of (48 + k) = CHR ''+''"
    then have "of_char (char_of (48 + k)) = (43 :: nat)" by simp
    with that show False by simp
  qed
  show ?case using 1 digit [of n] by (cases "n < 10") (auto simp: show_usize.simps [of n])
qed

lemma parse_show_usize: "n < usize_limit \<Longrightarrow> parse_usize (show_usize n) = Some n"
  using parse_digits_show [of n] show_usize_head [of n] by (auto simp: parse_usize_def)

text \<open>
  The state of a counting operator is kept under its state identifier with a suffix, while
  \<open>scale_up\<close> looks for the identifier itself.  Where no index exists under that name scaling
  up fails, before any processor is started.
\<close>

lemma suffix_other_index: "get_latest_json_path st (sid @ ''-count-star'') \<noteq> get_latest_json_path st sid"
  by (simp add: get_latest_json_path_def)

lemma scale_up_without_index:
  assumes "find (\<lambda>(task, _). td_task_id task = task_id) (ac_tasks ac) = Some (task_def, copies)"
    and "used_state_ids task_def = [sid]" and "0 < n"
    and "fs_read_file (ss_storage (ac_remote_checkpoint_storage ac)) (get_latest_json_path (ac_remote_checkpoint_storage ac) sid) disk = Err e"
  shows "scale_up pc boot json disk ac task_id n cl = (Err (Internal ''No viable checkpoints found''), cl)"
proof -
  have "latest_checkpoint_of json (ac_remote_checkpoint_storage ac) disk sid p = Err (Internal ''No viable checkpoints found'')" for p
    by (simp add: latest_checkpoint_of_def get_latest_operator_checkpoints_def read_latest_json_def assms(4))
  moreover have "scaled_ranges n \<noteq> []" using assms(3) by (simp add: scaled_ranges_def)
  then obtain r rs where "scaled_ranges n = r # rs" by (cases "scaled_ranges n") auto
  ultimately show ?thesis using assms(1,2) by (simp add: scale_up_def scale_partitions_eq [OF assms(3)])
qed

subsection \<open>An instance\<close>

datatype small_plan = TaskPlan "(nat list, unit) task_definition2" | DetailsPlan initial_scheduling_details

definition plain_plan_codec :: "(nat list, unit, small_plan, small_plan) plan_codec" where
  "plain_plan_codec = \<lparr>pc_task_bytes = Some \<circ> TaskPlan, pc_details_bytes = Some \<circ> DetailsPlan, pc_get_root = Some,
     pc_read_task = (\<lambda>p. case p of TaskPlan td \<Rightarrow> Some td | _ \<Rightarrow> None),
     pc_read_details = (\<lambda>p. case p of DetailsPlan d \<Rightarrow> Some d | _ \<Rightarrow> None)\<rparr>"

lemma plain_plan_codec_ok: "plan_codec_ok plain_plan_codec tasks"
  by (simp add: plan_codec_ok_def plain_plan_codec_def)

definition small_source :: "(nat list, unit) task_definition2" where
  "small_source = \<lparr>td_task_id = ''source'', td_operator = source_task [ItemBatch [1, 2, 3], ItemMarker (Marker 1)] 1 ''rows'' (Some \<lparr>expressions = [()]\<rparr>)\<rparr>"

definition small_sink :: "(nat list, unit) task_definition2" where
  "small_sink = \<lparr>td_task_id = ''sink'', td_operator = OperatorDefinition ''nested'' ''nested'' (Nested []
     [OperatorDefinition ''input'' ''input'' (RemoteExchangeInput [''rows'']) [] [\<lparr>oo_stream_id = ''items'', oo_ordinal = 0\<rparr>],
      OperatorDefinition ''output'' ''output'' (RemoteExchangeOutput ''out'' None) [\<lparr>oi_stream_id = ''items'', oi_ordinal = 0\<rparr>] []] []) [] []\<rparr>"

lemma small_outputs: "exchange_outputs small_source = [''rows'']" "exchange_outputs small_sink = [''out'']"
  "exchange_inputs small_sink = [''rows'']"
  by (simp_all add: exchange_outputs_def exchange_inputs_def small_source_def small_sink_def source_task_def)

theorem scheduled_inputs_resolve_witness:
  "\<exists>(generation :: generation_spec) addr_of.
    get_addresses (gs_partitions generation) 5 (exchange_inputs small_sink)
      (isd_input_locations (schedule_with_constant_partitions [(small_source, ''a''), (small_sink, ''b'')] pr_full)) =
      Ok (map (\<lambda>sid. (sid, addr_of sid, pr_full)) (exchange_inputs small_sink)) \<and> addr_of ''rows'' = ''a''"
proof -
  let ?d = "schedule_with_constant_partitions [(small_source, ''a''), (small_sink, ''b'')] pr_full"
  have "\<forall>sid \<in> set (exchange_inputs small_sink). \<exists>(task, addr) \<in> set [(small_source, ''a''), (small_sink, ''b'')]. sid \<in> set (exchange_outputs task)"
    by (simp add: small_outputs)
  moreover have "(5 :: nat) < 2 ^ 32" by simp
  ultimately have "\<exists>generation addr_of. find_current_generation (exchange_inputs small_sink) (isd_generations ?d) 0 = Ok generation \<and>
      get_addresses (gs_partitions generation) 5 (exchange_inputs small_sink) (isd_input_locations ?d) =
        Ok (map (\<lambda>sid. (sid, addr_of sid, pr_full)) (exchange_inputs small_sink)) \<and>
      (\<forall>sid \<in> set (exchange_inputs small_sink). \<exists>task. (task, addr_of sid) \<in> set [(small_source, ''a''), (small_sink, ''b'')] \<and>
        sid \<in> set (exchange_outputs task))"
    by (intro scheduled_inputs_resolve [OF canonical_full]) (assumption | rule refl)+
  then
  obtain generation :: generation_spec and addr_of where
    resolved: "get_addresses (gs_partitions generation) 5 (exchange_inputs small_sink) (isd_input_locations ?d) =
      Ok (map (\<lambda>sid. (sid, addr_of sid, pr_full)) (exchange_inputs small_sink))"
    and produced: "\<forall>sid \<in> set (exchange_inputs small_sink). \<exists>task. (task, addr_of sid) \<in> set [(small_source, ''a''), (small_sink, ''b'')] \<and>
      sid \<in> set (exchange_outputs task)" by (elim exE conjE) (rule that)
  from produced have "addr_of ''rows'' = ''a''" by (auto simp: small_outputs)
  with resolved show ?thesis by blast
qed

theorem single_copies_run_witness:
  "\<exists>ac cl' wp t. start_single_copies plain_plan_codec (\<lambda>i. Ok (show_usize i)) [small_source, small_sink] []
      ([] :: (nat list, unit, unit, unit) cluster) = (Ok ac, cl') \<and>
    length cl' = 2 \<and> cl' ! 1 = Running (show_usize 1, wp) \<and> wp_running_tasks wp = [''sink'' \<mapsto> t] \<and> rt_initial_checkpoint t = 0"
proof -
  have tasks: "\<forall>td \<in> set [small_source, small_sink]. od_inputs (td_operator td) = [] \<and> od_outputs (td_operator td) = []"
    by (simp add: small_source_def small_sink_def source_task_def)
  have id: "td_task_id small_sink = ''sink''" by (simp add: small_sink_def)
  from single_copies_run [OF plain_plan_codec_ok refl tasks refl, where cl = "[] :: (nat list, unit, unit, unit) cluster"
      and addr = show_usize and dir = "[]"]
  show ?thesis
    by (elim exE conjE) (drule spec [of _ 1], auto simp: id)
qed

end
