(* ===== verification/Batch_Streams.thy ===== *)
theory Batch_Streams
  imports Action_Stream
begin

text \<open>
  The streams of the batch engine: \<open>max_rows_stream\<close> and \<open>CombinedRecordBatchStream\<close> of
  \<open>src/util.rs\<close>, \<open>src/max_rows.rs\<close>, \<open>src/isolator.rs\<close>, \<open>src/pre_fetch.rs\<close> and the reader of
  \<open>src/stage_reader.rs\<close>.

  A stream that is consumed to its end is the list of its items.  The combined stream is
  modelled poll by poll over scripts of answers, since its point is which of its entries a
  poll visits; the random start of a poll is an argument.  Slicing a batch is a parameter.

  The theorems show that limiting the rows of batches loses nothing and keeps the limit, that
  one poll of a combined stream visits every entry exactly once unless it returns an item, so
  that no wake-up is lost, that polling a combined stream ends with an interleaving of its
  entries, and that the isolators of groups that partition the partitions of a plan together
  yield exactly its partitions.
\<close>

subsection \<open>Limiting the rows of a batch\<close>

record 'b batch_lib =
  bl_num_rows :: "'b \<Rightarrow> usize"
  bl_slice :: "'b \<Rightarrow> usize \<Rightarrow> usize \<Rightarrow> 'b"

text \<open>
  The inner loop.  With a limit of zero it never ends; \<open>fuel\<close> bounds its rounds and \<open>None\<close> is
  a loop that is still running.
\<close>

fun max_rows_slices :: "nat \<Rightarrow> 'b batch_lib \<Rightarrow> 'b \<Rightarrow> usize \<Rightarrow> usize \<Rightarrow> usize \<Rightarrow> 'b list option" where
  "max_rows_slices 0 lib batch max_rows offset rows_remaining = None"
| "max_rows_slices (Suc fuel) lib batch max_rows offset rows_remaining =
     (if rows_remaining > max_rows
      then map_option (Cons (bl_slice lib batch offset max_rows))
             (max_rows_slices fuel lib batch max_rows (offset + max_rows) (rows_remaining - max_rows))
      else Some [bl_slice lib batch offset rows_remaining])"

definition max_rows_item :: "nat \<Rightarrow> 'b batch_lib \<Rightarrow> usize \<Rightarrow> 'b result \<Rightarrow> 'b result list option" where
  "max_rows_item fuel lib max_rows batch_res =
     (case batch_res of
        Ok batch \<Rightarrow>
          if bl_num_rows lib batch > max_rows
          then map_option (map Ok) (max_rows_slices fuel lib batch max_rows 0 (bl_num_rows lib batch))
          else Some [Ok batch]
      | Err e \<Rightarrow> Some [Err e])"

fun max_rows_stream :: "nat \<Rightarrow> 'b batch_lib \<Rightarrow> 'b result list \<Rightarrow> usize \<Rightarrow> 'b result list option" where
  "max_rows_stream fuel lib [] max_rows = Some []"
| "max_rows_stream fuel lib (batch_res # in_stream) max_rows =
     Option.bind (max_rows_item fuel lib max_rows batch_res) (\<lambda>items.
     map_option (append items) (max_rows_stream fuel lib in_stream max_rows))"

subsection \<open>Execution plans\<close>

text \<open>
  What the plans below use of an execution plan: its partition count and its execution, given
  the partition group of the session configuration.
\<close>

record 'b exec_plan =
  ep_partition_count :: usize
  ep_execute :: "usize \<Rightarrow> usize list option \<Rightarrow> 'b result list result"

record 'b max_rows_exec =
  mre_input :: "'b exec_plan"
  mre_max_rows :: usize

definition max_rows_execute ::
  "nat \<Rightarrow> 'b batch_lib \<Rightarrow> 'b max_rows_exec \<Rightarrow> usize \<Rightarrow> usize list option \<Rightarrow> 'b result list option result" where
  "max_rows_execute fuel lib plan part pgroup =
     map_result (\<lambda>stream. max_rows_stream fuel lib stream (mre_max_rows plan)) (ep_execute (mre_input plan) part pgroup)"

record 'b partition_isolator_exec =
  pie_input :: "'b exec_plan"
  pie_partition_count :: usize

definition isolator_execute :: "'b partition_isolator_exec \<Rightarrow> usize \<Rightarrow> usize list option \<Rightarrow> 'b result list result" where
  "isolator_execute plan part pgroup =
     bind_result (ok_or pgroup (Internal ''PartitionGroup not set in session config'')) (\<lambda>partition_group.
     if part > pie_partition_count plan then Err (Internal ''Invalid partition for PartitionIsolatorExec'')
     else if part < length partition_group then ep_execute (pie_input plan) (partition_group ! part) (Some partition_group)
     else Ok [])"

text \<open>The node advertises \<open>partition_count\<close> partitions.\<close>

definition isolator_plan :: "'b partition_isolator_exec \<Rightarrow> 'b exec_plan" where
  "isolator_plan plan = \<lparr>ep_partition_count = pie_partition_count plan, ep_execute = isolator_execute plan\<rparr>"

subsection \<open>Prefetching\<close>

text \<open>
  \<open>PrefetchExec::execute\<close>.  The task that consumes the input and the stream that drains the channel take turns; a turn
  of the task is enabled while the channel has room, a turn of the stream while it is not
  empty.  The schedule tells whose turn it is.
\<close>

record 'b prefetch =
  pf_input :: "'b result list"
  pf_channel :: "'b result list"
  pf_out :: "'b result list"

definition prefetch_turn :: "usize \<Rightarrow> bool \<Rightarrow> 'b prefetch \<Rightarrow> 'b prefetch" where
  "prefetch_turn buf_size producer s =
     (if producer
      then case pf_input s of
             batch # rest \<Rightarrow>
               if length (pf_channel s) < buf_size
               then s\<lparr>pf_input := rest, pf_channel := pf_channel s @ [batch]\<rparr> else s
           | [] \<Rightarrow> s
      else case pf_channel s of
             batch # rest \<Rightarrow> s\<lparr>pf_channel := rest, pf_out := pf_out s @ [batch]\<rparr>
           | [] \<Rightarrow> s)"

definition prefetch_run :: "usize \<Rightarrow> bool list \<Rightarrow> 'b result list \<Rightarrow> 'b prefetch" where
  "prefetch_run buf_size schedule input =
     fold (prefetch_turn buf_size) schedule \<lparr>pf_input = input, pf_channel = [], pf_out = []\<rparr>"

subsection \<open>The combined stream\<close>

definition swap_remove :: "nat \<Rightarrow> 'a list \<Rightarrow> 'a list" where
  "swap_remove i xs = butlast (xs[i := last xs])"

text \<open>Where the loop goes on after an entry was removed and \<open>n\<close> entries are left.\<close>

definition next_index :: "nat \<Rightarrow> nat \<Rightarrow> nat \<Rightarrow> nat" where
  "next_index start idx n =
     (if idx = n then 0 else if idx < start \<and> start \<le> n then (idx + 1) mod n else idx)"

text \<open>
  The loop of \<open>poll_next\<close>: an item that is returned, or falling through.  An index outside of the
  entries would be a panic.
\<close>

fun combined_loop :: "nat \<Rightarrow> nat \<Rightarrow> nat \<Rightarrow> 'a script list \<Rightarrow> ('a option result) \<times> 'a script list" where
  "combined_loop 0 start idx entries = (Ok None, entries)"
| "combined_loop (Suc k) start idx entries =
     (if idx < length entries
      then case poll_script (entries ! idx) of
             (Ready (Some val), rest) \<Rightarrow> (Ok (Some val), entries[idx := rest])
           | (Ready None, rest) \<Rightarrow>
               (let entries' = swap_remove idx (entries[idx := rest])
                in combined_loop k start (next_index start idx (length entries')) entries')
           | (Pending, rest) \<Rightarrow> combined_loop k start ((idx + 1) mod length entries) (entries[idx := rest])
      else (Err (Panic ''called unwrap on a None value''), entries))"

definition combined_poll_next :: "nat \<Rightarrow> 'a script list \<Rightarrow> 'a option poll result \<times> 'a script list" where
  "combined_poll_next start entries =
     (case combined_loop (length entries) start start entries of
        (Err e, entries') \<Rightarrow> (Err e, entries')
      | (Ok (Some val), entries') \<Rightarrow> (Ok (Ready (Some val)), entries')
      | (Ok None, entries') \<Rightarrow> if entries' = [] then (Ok (Ready None), entries') else (Ok Pending, entries'))"

text \<open>
  A consumer that polls to the end, with a bound on the number of polls.  \<open>rnd\<close> gives the
  random start of a poll, which \<open>thread_rng_n\<close> keeps below its argument, and is zero for zero.
\<close>

fun combined_run :: "(nat \<Rightarrow> nat \<Rightarrow> nat) \<Rightarrow> nat \<Rightarrow> 'a script list \<Rightarrow> 'a list \<times> bool" where
  "combined_run rnd 0 entries = ([], False)"
| "combined_run rnd (Suc fuel) entries =
     (case combined_poll_next (rnd fuel (length entries)) entries of
        (Err e, _) \<Rightarrow> ([], False)
      | (Ok Pending, entries') \<Rightarrow> combined_run rnd fuel entries'
      | (Ok (Ready None), _) \<Rightarrow> ([], True)
      | (Ok (Ready (Some v)), entries') \<Rightarrow> (case combined_run rnd fuel entries' of (out, ended) \<Rightarrow> (v # out, ended)))"

subsection \<open>Reading a stage\<close>

text \<open>
  \<open>DFRayStageReaderExec::execute\<close>: \<open>do_get\<close> opens the partition at a client, \<open>merge\<close> stands for the
  combined stream run to its end.
\<close>

definition stage_reader_stream ::
  "('client \<Rightarrow> usize \<Rightarrow> 'b result list option) \<Rightarrow> ('b result list list \<Rightarrow> 'b result list) \<Rightarrow> 'client list \<Rightarrow> usize \<Rightarrow> 'b result list" where
  "stage_reader_stream do_get merge clients part =
     (let opened = map (\<lambda>client. do_get client part) clients;
          streams = List.map_filter (\<lambda>s. s) opened;
          errors = map (\<lambda>_. Err (Internal ''Error getting flight stream'')) (filter (\<lambda>s. s = None) opened)
      in if None \<in> set opened then errors else merge streams)"

definition stage_reader_execute ::
  "('client \<Rightarrow> usize \<Rightarrow> 'b result list option) \<Rightarrow> ('b result list list \<Rightarrow> 'b result list)
     \<Rightarrow> (usize \<times> usize \<Rightarrow> 'client list option) option \<Rightarrow> usize \<Rightarrow> usize \<Rightarrow> 'b result list result" where
  "stage_reader_execute do_get merge service_clients stage_id part =
     bind_result (ok_or service_clients (Internal ''Flight Client not in context'')) (\<lambda>client_map.
     bind_result (ok_or (client_map (stage_id, part)) (Internal ''No flight clients found'')) (\<lambda>clients.
     Ok (stage_reader_stream do_get merge clients part)))"

subsection \<open>The rows of limited batches\<close>

definition slices_rows :: "'b batch_lib \<Rightarrow> ('b \<Rightarrow> 'r list) \<Rightarrow> bool" where
  "slices_rows lib rows \<longleftrightarrow> (\<forall>b. bl_num_rows lib b = length (rows b)) \<and>
     (\<forall>b offset len. offset + len \<le> length (rows b) \<longrightarrow> rows (bl_slice lib b offset len) = take len (drop offset (rows b)))"

text \<open>What a consumer sees: the rows of the batches, and the errors where they occur.\<close>

definition events_of :: "('b \<Rightarrow> 'r list) \<Rightarrow> 'b result \<Rightarrow> (df_error + 'r) list" where
  "events_of rows r = (case r of Ok b \<Rightarrow> map Inr (rows b) | Err e \<Rightarrow> [Inl e])"

lemma max_rows_slices_rows:
  assumes "slices_rows lib rows" and "0 < max_rows"
  shows "offset + remaining = length (rows b) \<Longrightarrow> remaining < fuel \<Longrightarrow>
    \<exists>bs. max_rows_slices fuel lib b max_rows offset remaining = Some bs \<and>
      concat (map rows bs) = drop offset (rows b) \<and> (\<forall>b' \<in> set bs. length (rows b') \<le> max_rows)"
proof (induction fuel arbitrary: offset remaining)
  case (Suc fuel)
  have slice: "rows (bl_slice lib b offset len) = take len (drop offset (rows b))" if "len \<le> remaining" for len
    using assms(1) Suc.prems(1) that by (simp add: slices_rows_def)
  show ?case
  proof (cases "remaining > max_rows")
    case True
    with Suc.prems assms(2) have "offset + max_rows + (remaining - max_rows) = length (rows b)" "remaining - max_rows < fuel" by auto
    from Suc.IH [OF this] obtain bs where
      "max_rows_slices fuel lib b max_rows (offset + max_rows) (remaining - max_rows) = Some bs"
      "concat (map rows bs) = drop (offset + max_rows) (rows b)" "\<forall>b' \<in> set bs. length (rows b') \<le> max_rows" by blast
    moreover have "take max_rows (drop offset (rows b)) @ drop (offset + max_rows) (rows b) = drop offset (rows b)"
      by (metis append_take_drop_id drop_drop add.commute)
    ultimately show ?thesis using True slice [of max_rows] by simp
  next
    case False
    then show ?thesis using slice [of remaining] Suc.prems(1) by simp
  qed
qed simp

lemma max_rows_item_rows:
  assumes "slices_rows lib rows" and "0 < max_rows" and "\<forall>b. r = Ok b \<longrightarrow> bl_num_rows lib b < fuel"
  shows "\<exists>items. max_rows_item fuel lib max_rows r = Some items \<and> concat (map (events_of rows) items) = events_of rows r \<and>
    (\<forall>b. Ok b \<in> set items \<longrightarrow> length (rows b) \<le> max_rows)"
proof (cases r)
  case (Ok b)
  have n: "bl_num_rows lib b = length (rows b)" using assms(1) by (simp add: slices_rows_def)
  show ?thesis
  proof (cases "bl_num_rows lib b > max_rows")
    case True
    obtain bs where "max_rows_slices fuel lib b max_rows 0 (bl_num_rows lib b) = Some bs" "concat (map rows bs) = rows b"
      "\<forall>b' \<in> set bs. length (rows b') \<le> max_rows"
      using max_rows_slices_rows [OF assms(1,2), of 0 "bl_num_rows lib b" b fuel] n assms(3) Ok by auto
    moreover have "concat (map (\<lambda>b. map Inr (rows b)) bs) = map Inr (concat (map rows bs))" by (simp add: map_concat comp_def)
    ultimately show ?thesis using True Ok by (auto simp: max_rows_item_def events_of_def comp_def)
  qed (use Ok n in \<open>auto simp: max_rows_item_def\<close>)
qed (auto simp: max_rows_item_def events_of_def)

text \<open>
  C35: limiting the rows keeps the stream.  For a positive limit the loop ends, no batch that
  comes out has more rows than the limit, and the rows and errors come out as they went in.
\<close>

theorem max_rows_stream_rows:
  assumes "slices_rows lib rows" and "0 < max_rows" and "\<forall>b. Ok b \<in> set in_stream \<longrightarrow> bl_num_rows lib b < fuel"
  shows "\<exists>out. max_rows_stream fuel lib in_stream max_rows = Some out \<and>
    concat (map (events_of rows) out) = concat (map (events_of rows) in_stream) \<and>
    (\<forall>b. Ok b \<in> set out \<longrightarrow> length (rows b) \<le> max_rows)"
  using assms(3)
proof (induction in_stream)
  case (Cons r rs)
  then obtain out where "max_rows_stream fuel lib rs max_rows = Some out"
    "concat (map (events_of rows) out) = concat (map (events_of rows) rs)" "\<forall>b. Ok b \<in> set out \<longrightarrow> length (rows b) \<le> max_rows"
    by auto
  moreover obtain items where "max_rows_item fuel lib max_rows r = Some items" "concat (map (events_of rows) items) = events_of rows r"
    "\<forall>b. Ok b \<in> set items \<longrightarrow> length (rows b) \<le> max_rows"
    using max_rows_item_rows [OF assms(1,2), of r fuel] Cons.prems by auto
  ultimately show ?case by auto
qed simp

definition list_batches :: "nat list batch_lib" where
  "list_batches = \<lparr>bl_num_rows = length, bl_slice = (\<lambda>b offset len. take len (drop offset b))\<rparr>"

theorem max_rows_stream_rows_witness:
  "\<exists>out. max_rows_stream 9 list_batches [Ok [1, 2, 3, 4, 5, 6, 7, 8], Err (Execution ''e''), Ok [9]] 3 = Some out \<and>
    concat (map (events_of (\<lambda>b. b)) out) = map Inr [1, 2, 3, 4, 5, 6, 7, 8] @ Inl (Execution ''e'') # [Inr 9]"
proof -
  have "slices_rows list_batches (\<lambda>b. b)" by (simp add: slices_rows_def list_batches_def)
  moreover have "\<forall>b. Ok b \<in> set [Ok [1, 2, 3, 4, 5, 6, 7, 8 :: nat], Err (Execution ''e''), Ok [9]] \<longrightarrow> bl_num_rows list_batches b < 9"
    by (auto simp: list_batches_def)
  ultimately have "\<exists>out. max_rows_stream 9 list_batches [Ok [1, 2, 3, 4, 5, 6, 7, 8], Err (Execution ''e''), Ok [9]] 3 = Some out \<and>
    concat (map (events_of (\<lambda>b. b)) out) =
      concat (map (events_of (\<lambda>b. b)) [Ok [1, 2, 3, 4, 5, 6, 7, 8], Err (Execution ''e''), Ok [9]]) \<and>
    (\<forall>b. Ok b \<in> set out \<longrightarrow> length b \<le> 3)"
    by (intro max_rows_stream_rows) simp_all
  then show ?thesis by (auto simp: events_of_def)
qed

text \<open>With a limit of zero the loop does not end.\<close>

lemma max_rows_zero: "0 < remaining \<Longrightarrow> max_rows_slices fuel lib b 0 offset remaining = None"
  by (induction fuel arbitrary: offset) auto

subsection \<open>One pass over the entries\<close>

lemma length_swap_remove [simp]: "length (swap_remove i xs) = length xs - 1"
  by (simp add: swap_remove_def)

lemma swap_remove_append:
  "swap_remove (length P) (P @ u # U) = (if U = [] then P else P @ last U # butlast U)"
  by (simp add: swap_remove_def butlast_append list_update_append)

lemma mset_rotate: "U \<noteq> [] \<Longrightarrow> mset (last U # butlast U) = mset U"
  by (cases U rule: rev_cases) auto

definition quiet :: "'a script \<Rightarrow> bool" where
  "quiet e \<longleftrightarrow> fst (poll_script e) \<in> {Pending, Ready None}"

definition pend :: "'a script multiset \<Rightarrow> 'a script multiset" where
  "pend M = image_mset (\<lambda>e. snd (poll_script e)) (filter_mset (\<lambda>e. fst (poll_script e) = Pending) M)"

text \<open>
  The outcome of visiting the entries \<open>T\<close>, each at most once, with \<open>D\<close> the entries that are left of
  the ones visited before.
\<close>

fun pass :: "'a script multiset \<Rightarrow> 'a script multiset \<Rightarrow> 'a option result \<Rightarrow> 'a script list \<Rightarrow> bool" where
  "pass D T (Ok None) E \<longleftrightarrow> (\<forall>e \<in># T. quiet e) \<and> mset E = D + pend T"
| "pass D T (Ok (Some v)) E \<longleftrightarrow>
     (\<exists>Ta u rest Tb. T = Ta + add_mset u Tb \<and> (\<forall>e \<in># Ta. quiet e) \<and> poll_script u = (Ready (Some v), rest) \<and>
        mset E = D + pend Ta + add_mset rest Tb)"
| "pass D T (Err e) E \<longleftrightarrow> False"

lemma pass_itemI:
  assumes "T = Ta + add_mset u Tb" and "\<forall>e \<in># Ta. quiet e" and "poll_script u = (Ready (Some v), rest)"
    and "mset E = D + pend Ta + add_mset rest Tb"
  shows "pass D T (Ok (Some v)) E"
  unfolding pass.simps using assms by blast

lemma pend_simps [simp]:
  "poll_script u = (Pending, rest) \<Longrightarrow> pend (add_mset u T) = add_mset rest (pend T)"
  "poll_script u = (Ready x, rest) \<Longrightarrow> pend (add_mset u T) = pend T" "pend {#} = {#}"
  by (simp_all add: pend_def)

lemma pass_quiet:
  assumes "quiet u" and "pend {#u#} = D'" and "pass (D' + D) T r E"
  shows "pass D (add_mset u T) r E"
proof (cases r)
  case (Ok x)
  have pend: "pend (add_mset u M) = D' + pend M" for M using assms(2) by (auto simp: pend_def)
  show ?thesis
  proof (cases x)
    case None
    with Ok assms show ?thesis by (simp add: pend ac_simps)
  next
    case (Some v)
    with Ok assms(3) obtain Ta w rest Tb where w: "T = Ta + add_mset w Tb" "\<forall>e \<in># Ta. quiet e"
      "poll_script w = (Ready (Some v), rest)" "mset E = D' + D + pend Ta + add_mset rest Tb" by auto
    have "pass D (add_mset u T) (Ok (Some v)) E"
      by (rule pass_itemI [OF _ _ w(3), where Ta = "add_mset u Ta" and Tb = Tb]) (use w assms(1) in \<open>simp_all add: pend ac_simps\<close>)
    with Ok Some show ?thesis by simp
  qed
qed (use assms(3) in simp)

lemma pass_pending: "poll_script u = (Pending, rest) \<Longrightarrow> pass (add_mset rest D) T r E \<Longrightarrow> pass D (add_mset u T) r E"
  by (rule pass_quiet [where D' = "{#rest#}"]) (simp_all add: quiet_def)

lemma pass_finished: "poll_script u = (Ready None, rest) \<Longrightarrow> pass D T r E \<Longrightarrow> pass D (add_mset u T) r E"
  by (rule pass_quiet [where D' = "{#}"]) (simp_all add: quiet_def)

lemma pass_item: "poll_script u = (Ready (Some v), rest) \<Longrightarrow> mset E = D + add_mset rest T \<Longrightarrow> pass D (add_mset u T) (Ok (Some v)) E"
  by (rule pass_itemI [where Ta = "{#}"]) simp_all

declare pass.simps [simp del]

lemma loop_finished:
  "idx < length entries \<Longrightarrow> poll_script (entries ! idx) = (Ready None, rest) \<Longrightarrow>
   combined_loop (Suc k) start idx entries =
     combined_loop k start (next_index start idx (length (swap_remove idx (entries[idx := rest])))) (swap_remove idx (entries[idx := rest]))"
  by (simp add: Let_def del: length_swap_remove)

lemma loop_pending:
  "idx < length entries \<Longrightarrow> poll_script (entries ! idx) = (Pending, rest) \<Longrightarrow>
   combined_loop (Suc k) start idx entries = combined_loop k start (Suc idx mod length entries) (entries[idx := rest])"
  by simp

lemma loop_item:
  "idx < length entries \<Longrightarrow> poll_script (entries ! idx) = (Ready (Some v), rest) \<Longrightarrow>
   combined_loop (Suc k) start idx entries = (Ok (Some v), entries[idx := rest])"
  by simp

declare combined_loop.simps(2) [simp del]

text \<open>After the index has wrapped: \<open>Q\<close> and \<open>R\<close> have been visited, \<open>U\<close> has not.\<close>

lemma loop_wrapped:
  assumes "R \<noteq> [] \<Longrightarrow> length Q + length U = start" and "R = [] \<Longrightarrow> length Q + length U \<le> start" and "U \<noteq> [] \<Longrightarrow> idx = length Q"
    and "combined_loop (length U) start idx (Q @ U @ R) = (r, E)"
  shows "pass (mset Q + mset R) (mset U) r E"
  using assms
proof (induction "length U" arbitrary: Q U R idx)
  case (Suc k)
  then obtain u U' where U: "U = u # U'" by (cases U) auto
  obtain p rest where poll: "poll_script u = (p, rest)" by fastforce
  have idx: "idx = length Q" "(Q @ U @ R) ! idx = u" "(Q @ U @ R)[idx := rest] = Q @ rest # U' @ R" "idx < length (Q @ U @ R)"
    using Suc.prems(3) by (simp_all add: U)
  show ?case
  proof (cases p)
    case Pending
    have "combined_loop (length U') start (Suc idx mod length (Q @ U @ R)) ((Q @ [rest]) @ U' @ R) = (r, E)"
      using Suc.prems(4) loop_pending [OF idx(4), of rest "length U'" start] poll Pending idx(2,3) by (simp add: U)
    moreover have "Suc idx mod length (Q @ U @ R) = length (Q @ [rest])" if "U' \<noteq> []" using that idx(1) by (cases U') (simp_all add: U)
    ultimately have "pass (mset (Q @ [rest]) + mset R) (mset U') r E"
      using Suc.hyps(2) Suc.prems(1,2) by (intro Suc.hyps(1)) (simp_all add: U)
    then show ?thesis using poll Pending by (simp add: U pass_pending)
  next
    case (Ready x)
    show ?thesis
    proof (cases x)
      case (Some v)
      then have "r = Ok (Some v)" "E = Q @ rest # U' @ R"
        using Suc.prems(4) loop_item [OF idx(4), of v rest "length U'" start] poll Ready idx(2,3) by (simp_all add: U)
      moreover from this(2) have "pass (mset Q + mset R) (add_mset u (mset U')) (Ok (Some v)) E"
        using poll Ready Some by (intro pass_item) simp_all
      ultimately show ?thesis by (simp add: U)
    next
      case None
      note rm = swap_remove_append [of Q rest "U' @ R"]
      define E1 where "E1 = swap_remove idx ((Q @ U @ R)[idx := rest])"
      define i1 where "i1 = next_index start idx (length E1)"
      have loop: "combined_loop (length U') start i1 E1 = (r, E)"
        using Suc.prems(4) loop_finished [OF idx(4), of rest "length U'" start] poll Ready None idx(2) by (simp add: E1_def i1_def U)
      have len: "length E1 = length Q + length U' + length R" by (simp add: E1_def U)
      have "pass (mset Q + mset R) (mset U') r E"
      proof (cases "R = []")
        case True
        define U1 where "U1 = (if U' = [] then [] else last U' # butlast U')"
        have "E1 = Q @ U1 @ []" using True rm unfolding E1_def idx(1) idx(3) [unfolded idx(1)] U1_def by simp
        moreover have "i1 = length Q" if "U1 \<noteq> []"
          using that Suc.prems(2) True unfolding i1_def next_index_def U1_def by (auto simp: idx(1) len U split: if_splits)
        ultimately have "pass (mset Q + mset []) (mset U1) r E"
          using loop Suc.hyps(2) Suc.prems(2) True by (intro Suc.hyps(1) [where U = U1 and R = "[]" and Q = Q and idx = i1]) (auto simp: U U1_def split: if_splits)
        moreover have "mset U1 = mset U'" by (simp add: U1_def mset_rotate del: mset.simps)
        ultimately show ?thesis using True by simp
      next
        case False
        then have E1: "E1 = (Q @ [last R]) @ U' @ butlast R"
          using rm unfolding E1_def idx(1) idx(3) [unfolded idx(1)] by (simp add: butlast_append)
        have start: "start = length Q + Suc (length U')" using Suc.prems(1) False by (simp add: U)
        have "i1 = Suc (length Q)" if "U' \<noteq> []"
          using that False start unfolding i1_def next_index_def by (cases U'; cases R) (auto simp: idx(1) len)
        with loop E1 have "pass (mset (Q @ [last R]) + mset (butlast R)) (mset U') r E"
          using Suc.hyps(2) start by (intro Suc.hyps(1) [where U = U' and R = "butlast R" and Q = "Q @ [last R]" and idx = i1]) (auto simp: U)
        moreover have "mset (Q @ [last R]) + mset (butlast R) = mset Q + mset R"
          using mset_rotate [OF False] by simp
        ultimately show ?thesis by (simp only:)
      qed
      then show ?thesis using poll Ready None by (simp add: U pass_finished)
    qed
  qed
qed (auto simp: pass.simps)

text \<open>Before it has wrapped: \<open>P\<close> lies below the start, \<open>Q\<close> has been visited, \<open>U\<close> and \<open>P\<close> have not.\<close>

lemma loop_unwrapped:
  assumes "length P = start" and "U \<noteq> [] \<Longrightarrow> idx = start + length Q" and "U = [] \<Longrightarrow> idx = 0"
    and "combined_loop (length U + start) start idx (P @ Q @ U) = (r, E)"
  shows "pass (mset Q) (mset U + mset P) r E"
  using assms
proof (induction "length U" arbitrary: Q U idx)
  case 0
  then show ?case using loop_wrapped [of Q "[]" P start 0 r E] by simp
next
  case (Suc k)
  then obtain u U' where U: "U = u # U'" by (cases U) auto
  obtain p rest where poll: "poll_script u = (p, rest)" by fastforce
  have idx: "idx = length (P @ Q)" "(P @ Q @ U) ! idx = u" "(P @ Q @ U)[idx := rest] = (P @ Q) @ rest # U'" "idx < length (P @ Q @ U)"
    using Suc.prems(1,2) by (simp_all add: U nth_append list_update_append)
  show ?case
  proof (cases p)
    case Pending
    have "combined_loop (length U' + start) start (Suc idx mod length (P @ Q @ U)) (P @ (Q @ [rest]) @ U') = (r, E)"
      using Suc.prems(4) loop_pending [OF idx(4), of rest "length U' + start" start] poll Pending idx(2,3) by (simp add: U)
    moreover have "Suc idx mod length (P @ Q @ U) = start + length (Q @ [rest])" if "U' \<noteq> []"
      using that idx(1) Suc.prems(1) by (cases U') (simp_all add: U)
    moreover have "Suc idx mod length (P @ Q @ U) = 0" if "U' = []" using that idx(1) by (simp add: U)
    ultimately have "pass (mset (Q @ [rest])) (mset U' + mset P) r E"
      using Suc.hyps(2) Suc.prems(1) by (intro Suc.hyps(1)) (simp_all add: U)
    then show ?thesis using poll Pending by (simp add: U pass_pending)
  next
    case (Ready x)
    show ?thesis
    proof (cases x)
      case (Some v)
      then have "r = Ok (Some v)" "E = (P @ Q) @ rest # U'"
        using Suc.prems(4) loop_item [OF idx(4), of v rest "length U' + start" start] poll Ready idx(2,3) by (simp_all add: U)
      moreover from this(2) have "pass (mset Q) (add_mset u (mset U' + mset P)) (Ok (Some v)) E"
        using poll Ready Some by (intro pass_item) simp_all
      ultimately show ?thesis by (simp add: U)
    next
      case None
      define U1 where "U1 = (if U' = [] then [] else last U' # butlast U')"
      define E1 where "E1 = swap_remove idx ((P @ Q @ U)[idx := rest])"
      define i1 where "i1 = next_index start idx (length E1)"
      have loop: "combined_loop (length U' + start) start i1 E1 = (r, E)"
        using Suc.prems(4) loop_finished [OF idx(4), of rest "length U' + start" start] poll Ready None idx(2) by (simp add: E1_def i1_def U)
      have len: "length E1 = length P + length Q + length U'" by (simp add: E1_def U)
      have "E1 = P @ Q @ U1" using swap_remove_append [of "P @ Q" rest U'] unfolding E1_def idx(1) idx(3) [unfolded idx(1)] U1_def by simp
      moreover have "i1 = start + length Q" if "U1 \<noteq> []" using that Suc.prems(1) unfolding i1_def next_index_def U1_def by (auto simp: idx(1) len split: if_splits)
      moreover have "i1 = 0" if "U1 = []" using that unfolding i1_def next_index_def U1_def by (auto simp: idx(1) len split: if_splits)
      moreover have "length U1 = length U'" by (simp add: U1_def)
      ultimately have "pass (mset Q) (mset U1 + mset P) r E"
        using loop Suc.hyps(2) Suc.prems(1) by (intro Suc.hyps(1) [where U = U1 and Q = Q and idx = i1]) (simp_all add: U)
      moreover have "mset U1 = mset U'" by (simp add: U1_def mset_rotate del: mset.simps)
      ultimately show ?thesis using poll Ready None by (simp add: U pass_finished)
    qed
  qed
qed

lemma combined_pass:
  assumes "start < length entries \<or> entries = [] \<and> start = 0"
  shows "\<exists>r E. combined_loop (length entries) start start entries = (Ok r, E) \<and> pass {#} (mset entries) (Ok r) E"
proof -
  obtain r E where loop: "combined_loop (length entries) start start entries = (r, E)" by fastforce
  have "pass (mset []) (mset (drop start entries) + mset (take start entries)) r E"
    by (rule loop_unwrapped [where idx = start]) (use assms loop in auto)
  moreover have "mset (drop start entries) + mset (take start entries) = mset entries"
    by (metis append_take_drop_id mset_append union_commute)
  ultimately have "pass {#} (mset entries) r E" by simp
  then show ?thesis using loop by (cases r) (auto simp: pass.simps)
qed

text \<open>
  No wake-up of a combined stream is lost.  A poll with any start never panics.  When it
  answers that it is pending, every entry was polled in it, exactly once; the entries that are
  left are the ones that answered that they are pending, so all of them will wake the task.
  It answers that the stream has ended exactly when all entries have.
\<close>

theorem combined_poll_visits_all:
  assumes "start < length entries \<or> entries = [] \<and> start = 0"
  shows "\<exists>answer entries'. combined_poll_next start entries = (Ok answer, entries') \<and>
    (answer = Pending \<longrightarrow> entries' \<noteq> [] \<and> (\<forall>e \<in> set entries. fst (poll_script e) \<in> {Pending, Ready None}) \<and>
      mset entries' = image_mset (\<lambda>e. snd (poll_script e)) (filter_mset (\<lambda>e. fst (poll_script e) = Pending) (mset entries))) \<and>
    (answer = Ready None \<longleftrightarrow> (\<forall>e \<in> set entries. fst (poll_script e) = Ready None))"
proof -
  obtain r E where loop: "combined_loop (length entries) start start entries = (Ok r, E)" and pass: "pass {#} (mset entries) (Ok r) E"
    using combined_pass [OF assms] by blast
  show ?thesis
  proof (cases r)
    case (Some v)
    with pass obtain Ta u rest Tb where u: "mset entries = Ta + add_mset u Tb" "poll_script u = (Ready (Some v), rest)"
      by (auto simp: pass.simps)
    from arg_cong [OF u(1), of set_mset] have "u \<in> set entries" by simp
    with u(2) Some loop show ?thesis by (force simp: combined_poll_next_def)
  next
    case None
    with pass have quiet: "\<forall>e \<in> set entries. quiet e" "mset E = pend (mset entries)" by (simp_all add: pass.simps)
    have "E = [] \<longleftrightarrow> (\<forall>e \<in> set entries. fst (poll_script e) = Ready None)"
    proof -
      have "E = [] \<longleftrightarrow> pend (mset entries) = {#}" using quiet(2) by (metis mset_zero_iff)
      also have "\<dots> \<longleftrightarrow> (\<forall>e \<in> set entries. fst (poll_script e) \<noteq> Pending)" by (auto simp: pend_def filter_mset_eq_conv)
      finally show ?thesis using quiet(1) by (auto simp: quiet_def)
    qed
    with None loop quiet show ?thesis by (auto simp: combined_poll_next_def quiet_def pend_def)
  qed
qed

theorem combined_poll_visits_all_witness:
  "\<exists>answer entries'. combined_poll_next 2 [[], [Pending, Ready (7 :: nat)], [Pending], []] = (Ok answer, entries') \<and>
    answer \<noteq> Ready None"
proof -
  have "2 < length [[], [Pending, Ready (7 :: nat)], [Pending], []] \<or> [[], [Pending, Ready (7 :: nat)], [Pending], []] = [] \<and> (2 :: nat) = 0"
    by simp
  from combined_poll_visits_all [OF this] show ?thesis by fastforce
qed

subsection \<open>The items of a combined stream\<close>

inductive interleaved :: "'a list multiset \<Rightarrow> 'a list \<Rightarrow> bool" where
  interleaved_Nil: "\<forall>xs \<in># M. xs = [] \<Longrightarrow> interleaved M []"
| interleaved_Cons: "interleaved (add_mset xs M) ys \<Longrightarrow> interleaved (add_mset (x # xs) M) (x # ys)"

lemma interleaved_add_Nil: "interleaved M ys \<Longrightarrow> interleaved (add_mset [] M) ys"
proof (induction rule: interleaved.induct)
  case (interleaved_Cons xs M ys x)
  then have "interleaved (add_mset xs (add_mset [] M)) ys" by (simp add: add_mset_commute)
  then have "interleaved (add_mset (x # xs) (add_mset [] M)) (x # ys)" by (rule interleaved.interleaved_Cons)
  then show ?case by (simp add: add_mset_commute)
qed (simp add: interleaved.interleaved_Nil)

lemma interleaved_mset: "interleaved M ys \<Longrightarrow> mset ys = (\<Sum>xs \<in># M. mset xs)"
  by (induction rule: interleaved.induct) auto

fun script_items :: "'a script \<Rightarrow> 'a list" where
  "script_items [] = []"
| "script_items (Pending # rest) = script_items rest"
| "script_items (Ready x # rest) = x # script_items rest"

lemma poll_script_items:
  "poll_script e = (Pending, rest) \<Longrightarrow> script_items e = script_items rest \<and> length rest < length e"
  "poll_script e = (Ready None, rest) \<Longrightarrow> script_items e = []"
  "poll_script e = (Ready (Some v), rest) \<Longrightarrow> script_items e = v # script_items rest \<and> length rest < length e"
  by (cases e rule: poll_script.cases; simp)+

lemma interleaved_pend:
  assumes "\<forall>e \<in># T. quiet e" and "interleaved (image_mset script_items (pend T) + M) ys"
  shows "interleaved (image_mset script_items T + M) ys"
  using assms
proof (induction T arbitrary: M)
  case (add e T)
  obtain p rest where poll: "poll_script e = (p, rest)" by fastforce
  show ?case
  proof (cases "p = Pending")
    case True
    then have "interleaved (image_mset script_items (pend T) + add_mset (script_items e) M) ys"
      using add.prems(2) poll poll_script_items(1) [of e rest] by simp
    with add.IH [of "add_mset (script_items e) M"] add.prems(1) show ?thesis by simp
  next
    case False
    then have p: "p = Ready None" using add.prems(1) poll by (auto simp: quiet_def)
    then have "interleaved (image_mset script_items T + M) ys" using add.IH [of M] add.prems poll by simp
    then show ?thesis using interleaved_add_Nil poll p poll_script_items(2) [of e rest] by simp
  qed
qed simp

definition script_work :: "'a script multiset \<Rightarrow> nat" where
  "script_work M = (\<Sum>e \<in># M. length e)"

lemma script_work_simps [simp]:
  "script_work {#} = 0" "script_work (add_mset e M) = length e + script_work M" "script_work (M + N) = script_work M + script_work N"
  by (simp_all add: script_work_def)

lemma pend_work: "script_work (pend T) \<le> script_work T" "pend T \<noteq> {#} \<Longrightarrow> script_work (pend T) < script_work T"
proof (induction T)
  case (add e T)
  {
    case 1
    then show ?case using add.IH(1) poll_script_items(1) [of e] by (cases "poll_script e"; cases "fst (poll_script e)") auto
  next
    case 2
    then show ?case using add.IH poll_script_items(1) [of e] by (cases "poll_script e"; cases "fst (poll_script e)") force+
  }
qed auto

text \<open>
  C32: a combined stream is an interleaving of its entries.  Whatever starts are drawn and
  however often entries are pending, polling ends, within one poll more than the entries have
  answers to give, and what came out is every item of every entry, each entry in its order.
\<close>

theorem combined_run_interleaves:
  assumes "\<And>k n. 0 < n \<Longrightarrow> rnd k n < n" and "\<And>k. rnd k 0 = 0" and "script_work (mset entries) < fuel"
  shows "\<exists>out. combined_run rnd fuel entries = (out, True) \<and> interleaved (image_mset script_items (mset entries)) out"
  using assms(3)
proof (induction fuel arbitrary: entries)
  case (Suc fuel)
  let ?start = "rnd fuel (length entries)"
  have start: "?start < length entries \<or> entries = [] \<and> ?start = 0" using assms(1,2) by (cases entries) auto
  obtain r E where loop: "combined_loop (length entries) ?start ?start entries = (Ok r, E)" and pass: "pass {#} (mset entries) (Ok r) E"
    using combined_pass [OF start] by blast
  show ?case
  proof (cases r)
    case (Some v)
    with pass obtain Ta u rest Tb where u: "mset entries = Ta + add_mset u Tb" "\<forall>e \<in># Ta. quiet e" "poll_script u = (Ready (Some v), rest)"
      "mset E = pend Ta + add_mset rest Tb" by (auto simp: pass.simps)
    have "script_work (mset E) < script_work (mset entries)"
      using pend_work(1) [of Ta] poll_script_items(3) [OF u(3)] by (simp add: u(1,4))
    with Suc.IH [of E] Suc.prems obtain out where out: "combined_run rnd fuel E = (out, True)" "interleaved (image_mset script_items (mset E)) out" by auto
    from out(2) have "interleaved (image_mset script_items Ta + add_mset (script_items rest) (image_mset script_items Tb)) out"
      using interleaved_pend [OF u(2), of "add_mset (script_items rest) (image_mset script_items Tb)" out] by (simp add: u(4))
    then have "interleaved (image_mset script_items (mset entries)) (v # out)"
      using interleaved_Cons [of "script_items rest" "image_mset script_items Ta + image_mset script_items Tb" out v]
        poll_script_items(3) [OF u(3)] by (simp add: u(1))
    with out(1) loop Some show ?thesis by (simp add: combined_poll_next_def)
  next
    case None
    with pass have quiet: "\<forall>e \<in># mset entries. quiet e" "mset E = pend (mset entries)" by (simp_all add: pass.simps)
    show ?thesis
    proof (cases "E = []")
      case True
      with quiet have "interleaved (image_mset script_items (mset entries)) []"
        using interleaved_pend [OF quiet(1), of "{#}" "[]"] by (simp add: interleaved_Nil)
      with True loop None show ?thesis by (simp add: combined_poll_next_def)
    next
      case False
      then have "pend (mset entries) \<noteq> {#}" using quiet(2) by (metis mset_zero_iff)
      then have "script_work (mset E) < script_work (mset entries)" using pend_work(2) [of "mset entries"] quiet(2) by simp
      with Suc.IH [of E] Suc.prems obtain out where "combined_run rnd fuel E = (out, True)" "interleaved (image_mset script_items (mset E)) out" by auto
      moreover from this(2) have "interleaved (image_mset script_items (mset entries)) out"
        using interleaved_pend [OF quiet(1), of "{#}" out] by (simp add: quiet(2))
      ultimately show ?thesis using False loop None by (simp add: combined_poll_next_def)
    qed
  qed
qed simp

theorem combined_run_interleaves_witness:
  "\<exists>out. combined_run (\<lambda>k n. if n = 0 then 0 else k mod n) 9 [[Ready 1, Pending, Ready (2 :: nat)], [], [Pending, Ready 3]] = (out, True) \<and> mset out = {#1, 2, 3#}"
proof -
  let ?es = "[[Ready 1, Pending, Ready (2 :: nat)], [], [Pending, Ready 3]]"
  obtain out where out: "combined_run (\<lambda>k n. if n = 0 then 0 else k mod n) 9 ?es = (out, True)" "interleaved (image_mset script_items (mset ?es)) out"
    using combined_run_interleaves [of "\<lambda>k n. if n = 0 then 0 else k mod n" ?es 9] by auto
  from interleaved_mset [OF out(2)] have "mset out = {#1, 2, 3#}" by simp
  with out(1) show ?thesis by blast
qed

subsection \<open>Prefetching and isolation\<close>

lemma prefetch_keeps_order:
  "pf_out (prefetch_run n schedule input) @ pf_channel (prefetch_run n schedule input) @ pf_input (prefetch_run n schedule input) = input \<and>
   length (pf_channel (prefetch_run n schedule input)) \<le> n"
proof -
  have "pf_out (fold (prefetch_turn n) schedule s) @ pf_channel (fold (prefetch_turn n) schedule s) @ pf_input (fold (prefetch_turn n) schedule s) =
      pf_out s @ pf_channel s @ pf_input s \<and> length (pf_channel (fold (prefetch_turn n) schedule s)) \<le> n" if "length (pf_channel s) \<le> n" for s
    using that
  proof (induction schedule arbitrary: s)
    case (Cons producer schedule)
    have "pf_out (prefetch_turn n producer s) @ pf_channel (prefetch_turn n producer s) @ pf_input (prefetch_turn n producer s) =
        pf_out s @ pf_channel s @ pf_input s" "length (pf_channel (prefetch_turn n producer s)) \<le> n"
      using Cons.prems by (auto simp: prefetch_turn_def split: list.split)
    with Cons.IH [of "prefetch_turn n producer s"] show ?case by simp
  qed simp
  from this [of "\<lparr>pf_input = input, pf_channel = [], pf_out = []\<rparr>"] show ?thesis by (simp add: prefetch_run_def)
qed

text \<open>
  An isolator yields the partitions of its group, and nothing for the partitions it has beyond
  them, among which is one more than it advertises.
\<close>

lemma isolator_partitions:
  assumes "length pgroup \<le> n"
  shows "map (\<lambda>part. isolator_execute \<lparr>pie_input = plan, pie_partition_count = n\<rparr> part (Some pgroup)) [0..<n + 1] =
    map (\<lambda>i. ep_execute plan i (Some pgroup)) pgroup @ replicate (n + 1 - length pgroup) (Ok [])"
  by (rule nth_equalityI) (use assms in \<open>auto simp: isolator_execute_def nth_append\<close>)

end
