(* ===== verification/Batch_Plans.thy ===== *)
theory Batch_Plans
  imports Prelude
begin

text \<open>
  The plans of the batch engine: the optimizer rule of \<open>src/physical.rs\<close> that marks the stages,
  the codec of \<open>src/codec.rs\<close> for the nodes of this crate, the traversals of plans and the object
  stores of \<open>src/util.rs\<close>, and the handler of \<open>src/processor_service.rs\<close> that serves the
  partitions of a plan.

  A plan is a tree of nodes; nodes the code does not look at are \<open>OtherNode\<close>.  The traversals
  \<open>transform_up\<close> and \<open>transform_down\<close> of the plan library visit children before, respectively
  after, their parent and siblings from left to right.  Messages of the codec are their fields
  as protobuf writes them: a number or flag that is zero is not written, a reader skips fields
  it does not know and rejects one of another wire type.  Connecting to an address and executing
  a plan are parameters.

  The theorems show that the optimizer numbers the stages so that every stage only reads from
  stages with smaller numbers, and otherwise leaves the plan alone; that the codec returns the
  nodes it was given, except prefetch nodes, which come back as isolators; and that a handler
  has a client for every address of every partition of every stage its plan reads.
\<close>

subsection \<open>Plans\<close>

record url =
  url_text :: string
  url_scheme :: string
  url_host :: "string option"

datatype exec_node =
    RepartitionExec
  | SortExec
  | NestedLoopJoinExec
  | DFRayStageExec usize
  | DFRayStageReaderExec string usize usize
  | PartitionIsolatorExec usize
  | MaxRowsExec usize
  | PrefetchExec usize
  | ParquetExec url bool
  | CsvExec url
  | NdJsonExec url
  | AvroExec url
  | ArrowExec url
  | OtherNode string

datatype plan = Node (node_of: exec_node) (children: "plan list")

text \<open>\<open>TreeNode::transform_up\<close> with a closure that has the state \<open>'s\<close>.\<close>

fun transform_up :: "(plan \<Rightarrow> 's \<Rightarrow> plan \<times> 's) \<Rightarrow> plan \<Rightarrow> 's \<Rightarrow> plan \<times> 's"
  and transform_up_list :: "(plan \<Rightarrow> 's \<Rightarrow> plan \<times> 's) \<Rightarrow> plan list \<Rightarrow> 's \<Rightarrow> plan list \<times> 's" where
  "transform_up f (Node n ps) s = (case transform_up_list f ps s of (ps', s') \<Rightarrow> f (Node n ps') s')"
| "transform_up_list f [] s = ([], s)"
| "transform_up_list f (p # ps) s =
     (case transform_up f p s of (p', s1) \<Rightarrow> case transform_up_list f ps s1 of (ps', s2) \<Rightarrow> (p' # ps', s2))"

text \<open>\<open>TreeNode::transform_down\<close> for closures that leave the nodes alone and may fail.\<close>

fun visit_down :: "(plan \<Rightarrow> 's \<Rightarrow> 's result) \<Rightarrow> plan \<Rightarrow> 's \<Rightarrow> 's result"
  and visit_down_list :: "(plan \<Rightarrow> 's \<Rightarrow> 's result) \<Rightarrow> plan list \<Rightarrow> 's \<Rightarrow> 's result" where
  "visit_down f (Node n ps) s = bind_result (f (Node n ps) s) (visit_down_list f ps)"
| "visit_down_list f [] s = Ok s"
| "visit_down_list f (p # ps) s = bind_result (visit_down f p s) (visit_down_list f ps)"

subsection \<open>Marking the stages\<close>

definition breaks_stage :: "exec_node \<Rightarrow> bool" where
  "breaks_stage n \<longleftrightarrow> n = RepartitionExec \<or> n = SortExec \<or> n = NestedLoopJoinExec"

definition stage_up :: "plan \<Rightarrow> usize \<Rightarrow> plan \<times> usize" where
  "stage_up p stage_counter =
     (if breaks_stage (node_of p) then (Node (DFRayStageExec stage_counter) [p], stage_counter + 1)
      else (p, stage_counter))"

definition optimize :: "plan \<Rightarrow> plan" where
  "optimize p = (case transform_up stage_up p 0 of (p', stage_counter) \<Rightarrow> Node (DFRayStageExec stage_counter) [p'])"

subsection \<open>Traversals\<close>

definition input_stage_ids :: "plan \<Rightarrow> usize list result" where
  "input_stage_ids p =
     visit_down (\<lambda>q ids. Ok (case node_of q of DFRayStageReaderExec _ _ stage_id \<Rightarrow> ids @ [stage_id] | _ \<Rightarrow> ids)) p []"

definition fix_scan :: "plan \<Rightarrow> unit \<Rightarrow> plan \<times> unit" where
  "fix_scan q s = (case q of Node (ParquetExec u _) ps \<Rightarrow> (Node (ParquetExec u True) ps, s) | _ \<Rightarrow> (q, s))"

definition fix_plan :: "plan \<Rightarrow> plan" where
  "fix_plan p = fst (transform_up fix_scan p ())"

datatype object_store = AmazonS3 string | GoogleCloudStorage string | HttpStore string | LocalFileSystem

text \<open>The registry of the session context, in the order of the registrations.\<close>

type_synonym store_registry = "(string \<times> object_store) list"

definition starts_with :: "string \<Rightarrow> string \<Rightarrow> bool" where
  "starts_with text pre = (take (length pre) text = pre)"

definition maybe_register_object_store :: "url \<Rightarrow> store_registry \<Rightarrow> store_registry result" where
  "maybe_register_object_store u ctx =
     bind_result
       (if starts_with (url_text u) ''s3://''
        then bind_result (ok_or (url_host u) (Internal ''missing bucket name in s3:// url'')) (\<lambda>bucket.
             Ok (''s3://'' @ bucket, AmazonS3 bucket))
        else if starts_with (url_text u) ''gs://'' \<or> starts_with (url_text u) ''gcs://''
        then bind_result (ok_or (url_host u) (Internal ''missing bucket name in gs:// url'')) (\<lambda>bucket.
             Ok (''gs://'' @ bucket, GoogleCloudStorage bucket))
        else if starts_with (url_text u) ''http://'' \<or> starts_with (url_text u) ''https://''
        then bind_result (ok_or (url_host u) (Internal ''missing host name in url'')) (\<lambda>host.
             Ok (url_scheme u @ ''://'' @ host, HttpStore (url_scheme u @ ''://'' @ host)))
        else Ok (''file://'', LocalFileSystem))
       (\<lambda>store. Ok (ctx @ [store]))"

fun scan_url :: "exec_node \<Rightarrow> url option" where
  "scan_url (ParquetExec u _) = Some u"
| "scan_url (CsvExec u) = Some u"
| "scan_url (NdJsonExec u) = Some u"
| "scan_url (AvroExec u) = Some u"
| "scan_url (ArrowExec u) = Some u"
| "scan_url _ = None"

definition register_children :: "plan \<Rightarrow> store_registry \<Rightarrow> store_registry result" where
  "register_children p ctx =
     fold_result (\<lambda>ctx input. case scan_url (node_of input) of Some u \<Rightarrow> maybe_register_object_store u ctx | None \<Rightarrow> Ok ctx)
       ctx (children p)"

definition register_object_store_for_paths_in_plan :: "plan \<Rightarrow> store_registry \<Rightarrow> store_registry result" where
  "register_object_store_for_paths_in_plan p ctx = visit_down register_children p ctx"

subsection \<open>The codec\<close>

datatype wire = Varint nat | Fixed32 nat | Len string

type_synonym message = "(nat \<times> wire) list"

text \<open>The messages of \<open>src/proto/generated/protobuf.rs\<close>, written and read by their field attributes.\<close>

record stage_reader_node =
  srn_schema :: "string option"
  srn_partitioning :: "string option"
  srn_stage_id :: u64

record prefetch_node =
  pfn_dummy :: nat
  pfn_buf_size :: u64

record isolator_node =
  pin_dummy :: nat
  pin_partition_count :: u64

definition put_varint :: "nat \<Rightarrow> u64 \<Rightarrow> message" where
  "put_varint tag v = (if v = 0 then [] else [(tag, Varint v)])"

definition put_fixed32 :: "nat \<Rightarrow> nat \<Rightarrow> message" where
  "put_fixed32 tag v = (if v = 0 then [] else [(tag, Fixed32 v)])"

definition put_message :: "nat \<Rightarrow> string option \<Rightarrow> message" where
  "put_message tag v = (case v of None \<Rightarrow> [] | Some m \<Rightarrow> [(tag, Len m)])"

definition encode_reader :: "stage_reader_node \<Rightarrow> message" where
  "encode_reader n = put_message 1 (srn_schema n) @ put_message 2 (srn_partitioning n) @ put_varint 3 (srn_stage_id n)"

definition encode_max_rows :: "u64 \<Rightarrow> message" where
  "encode_max_rows max_rows = put_varint 1 max_rows"

definition encode_prefetch :: "prefetch_node \<Rightarrow> message" where
  "encode_prefetch n = put_varint 1 (pfn_dummy n) @ put_varint 2 (pfn_buf_size n)"

definition encode_isolator :: "isolator_node \<Rightarrow> message" where
  "encode_isolator n = put_fixed32 1 (pin_dummy n) @ put_varint 2 (pin_partition_count n)"

fun decode_reader :: "message \<Rightarrow> stage_reader_node \<Rightarrow> stage_reader_node option" where
  "decode_reader [] n = Some n"
| "decode_reader ((tag, v) # m) n =
     (if tag = 1 then case v of Len s \<Rightarrow> decode_reader m (n\<lparr>srn_schema := Some s\<rparr>) | _ \<Rightarrow> None
      else if tag = 2 then case v of Len s \<Rightarrow> decode_reader m (n\<lparr>srn_partitioning := Some s\<rparr>) | _ \<Rightarrow> None
      else if tag = 3 then case v of Varint i \<Rightarrow> decode_reader m (n\<lparr>srn_stage_id := i\<rparr>) | _ \<Rightarrow> None
      else decode_reader m n)"

fun decode_max_rows :: "message \<Rightarrow> u64 \<Rightarrow> u64 option" where
  "decode_max_rows [] n = Some n"
| "decode_max_rows ((tag, v) # m) n =
     (if tag = 1 then case v of Varint i \<Rightarrow> decode_max_rows m i | _ \<Rightarrow> None else decode_max_rows m n)"

fun decode_prefetch :: "message \<Rightarrow> prefetch_node \<Rightarrow> prefetch_node option" where
  "decode_prefetch [] n = Some n"
| "decode_prefetch ((tag, v) # m) n =
     (if tag = 1 then case v of Varint i \<Rightarrow> decode_prefetch m (n\<lparr>pfn_dummy := i mod 2 ^ 32\<rparr>) | _ \<Rightarrow> None
      else if tag = 2 then case v of Varint i \<Rightarrow> decode_prefetch m (n\<lparr>pfn_buf_size := i\<rparr>) | _ \<Rightarrow> None
      else decode_prefetch m n)"

fun decode_isolator :: "message \<Rightarrow> isolator_node \<Rightarrow> isolator_node option" where
  "decode_isolator [] n = Some n"
| "decode_isolator ((tag, v) # m) n =
     (if tag = 1 then case v of Fixed32 i \<Rightarrow> decode_isolator m (n\<lparr>pin_dummy := i\<rparr>) | _ \<Rightarrow> None
      else if tag = 2 then case v of Varint i \<Rightarrow> decode_isolator m (n\<lparr>pin_partition_count := i\<rparr>) | _ \<Rightarrow> None
      else decode_isolator m n)"

text \<open>
  Schemas and partitionings of a reader are opaque texts; \<open>partitions\<close> writes the partition count
  of a reader, \<open>parse_partitions\<close> reads the partitioning for a schema.
\<close>

definition try_encode :: "(usize \<Rightarrow> string) \<Rightarrow> plan \<Rightarrow> message result" where
  "try_encode serialize_partitioning p =
     (case node_of p of
        DFRayStageReaderExec schema partition_count stage_id \<Rightarrow>
          Ok (encode_reader \<lparr>srn_schema = Some schema, srn_partitioning = Some (serialize_partitioning partition_count), srn_stage_id = stage_id\<rparr>)
      | PartitionIsolatorExec partition_count \<Rightarrow> Ok (encode_isolator \<lparr>pin_dummy = 0, pin_partition_count = partition_count\<rparr>)
      | MaxRowsExec max_rows \<Rightarrow> Ok (encode_max_rows max_rows)
      | PrefetchExec buf_size \<Rightarrow> Ok (encode_prefetch \<lparr>pfn_dummy = 0, pfn_buf_size = buf_size\<rparr>)
      | _ \<Rightarrow> Err (Internal ''Not supported''))"

definition decode_stage_reader :: "(string \<Rightarrow> usize result) \<Rightarrow> stage_reader_node \<Rightarrow> plan result" where
  "decode_stage_reader parse_partitioning node =
     bind_result (ok_or (srn_schema node) (Internal ''missing schema in proto'')) (\<lambda>schema.
     bind_result (ok_or (srn_partitioning node) (Internal ''missing partitioning in proto'')) (\<lambda>text.
     bind_result (parse_partitioning text) (\<lambda>part.
     Ok (Node (DFRayStageReaderExec schema part (srn_stage_id node)) []))))"

definition prefetch_new :: "plan \<Rightarrow> usize \<Rightarrow> plan result" where
  "prefetch_new input buf_size =
     (if length (children input) \<noteq> 1 then Err (Panic ''PrefetchExec must have exactly one input'')
      else Ok (Node (PrefetchExec buf_size) [input]))"

definition try_decode :: "(string \<Rightarrow> usize result) \<Rightarrow> message \<Rightarrow> plan list \<Rightarrow> plan result" where
  "try_decode parse_partitioning buf inputs =
     (case decode_isolator buf \<lparr>pin_dummy = 0, pin_partition_count = 0\<rparr> of
        Some node \<Rightarrow>
          (case inputs of
             [input] \<Rightarrow> Ok (Node (PartitionIsolatorExec (pin_partition_count node)) [input])
           | _ \<Rightarrow> Err (Internal ''PartitionIsolatorExec requires one input''))
      | None \<Rightarrow>
     (case decode_reader buf \<lparr>srn_schema = None, srn_partitioning = None, srn_stage_id = 0\<rparr> of
        Some node \<Rightarrow> decode_stage_reader parse_partitioning node
      | None \<Rightarrow>
     (case decode_max_rows buf 0 of
        Some max_rows \<Rightarrow>
          (case inputs of
             [input] \<Rightarrow> Ok (Node (MaxRowsExec max_rows) [input])
           | _ \<Rightarrow> Err (Internal ''MaxRowsExec requires one input''))
      | None \<Rightarrow>
     (case decode_prefetch buf \<lparr>pfn_dummy = 0, pfn_buf_size = 0\<rparr> of
        Some node \<Rightarrow>
          (case inputs of
             [input] \<Rightarrow> prefetch_new input (pfn_buf_size node)
           | _ \<Rightarrow> Err (Internal ''MaxRowsExec requires one input''))
      | None \<Rightarrow> Err (Internal ''Should not reach this point'')))))"

subsection \<open>The handler\<close>

text \<open>
  \<open>stage_addrs\<close> lists, for a stage, its partitions with their addresses in the order the map is
  iterated.  The clients made so far are shared between partitions.
\<close>

type_synonym 'client client_cache = "string \<Rightarrow> 'client option"

fun clients_for ::
  "(string \<Rightarrow> 'client result) \<Rightarrow> string list \<Rightarrow> 'client client_cache \<Rightarrow> ('client list \<times> 'client client_cache) result" where
  "clients_for make_client [] cache = Ok ([], cache)"
| "clients_for make_client (addr # addrs) cache =
     bind_result
       (case cache addr of
          Some client \<Rightarrow> Ok (client, cache)
        | None \<Rightarrow> map_result (\<lambda>client. (client, cache(addr \<mapsto> client))) (make_client addr)) (\<lambda>(client, cache1).
     bind_result (clients_for make_client addrs cache1) (\<lambda>(clients, cache2).
     Ok (client # clients, cache2)))"

type_synonym 'client service_clients = "usize \<times> usize \<Rightarrow> 'client list option"

fun add_partitions ::
  "(string \<Rightarrow> 'client result) \<Rightarrow> usize \<Rightarrow> (usize \<times> string list) list \<Rightarrow> 'client service_clients \<times> 'client client_cache
     \<Rightarrow> ('client service_clients \<times> 'client client_cache) result" where
  "add_partitions make_client stage_id [] s = Ok s"
| "add_partitions make_client stage_id ((part, addrs) # rest) (client_map, cache) =
     bind_result (clients_for make_client addrs cache) (\<lambda>(clients, cache1).
     add_partitions make_client stage_id rest (client_map((stage_id, part) \<mapsto> clients), cache1))"

fun add_stages ::
  "(string \<Rightarrow> 'client result) \<Rightarrow> (usize \<Rightarrow> (usize \<times> string list) list option) \<Rightarrow> usize list
     \<Rightarrow> 'client service_clients \<times> 'client client_cache \<Rightarrow> ('client service_clients \<times> 'client client_cache) result" where
  "add_stages make_client stage_addrs [] s = Ok s"
| "add_stages make_client stage_addrs (stage_id # ids) s =
     bind_result (ok_or (stage_addrs stage_id) (Internal ''Cannot find stage addr'')) (\<lambda>partition_addrs.
     bind_result (add_partitions make_client stage_id partition_addrs s) (add_stages make_client stage_addrs ids))"

record 'client session =
  se_clients :: "'client service_clients"
  se_partition_group :: "usize list"
  se_stores :: store_registry

definition configure_ctx ::
  "(string \<Rightarrow> 'client result) \<Rightarrow> (usize \<Rightarrow> (usize \<times> string list) list option) \<Rightarrow> plan \<Rightarrow> usize list \<Rightarrow> 'client session result" where
  "configure_ctx make_client stage_addrs p partition_group =
     bind_result (input_stage_ids p) (\<lambda>stage_ids_i_need.
     bind_result (add_stages make_client stage_addrs stage_ids_i_need (Map.empty, Map.empty)) (\<lambda>(client_map, _).
     bind_result (register_object_store_for_paths_in_plan p []) (\<lambda>stores.
     Ok \<lparr>se_clients = client_map, se_partition_group = partition_group, se_stores = stores\<rparr>)))"

record 'client handler_inner =
  hi_plan :: plan
  hi_ctx :: "'client session"

definition inner_new ::
  "(string \<Rightarrow> 'client result) \<Rightarrow> (usize \<Rightarrow> (usize \<times> string list) list option) \<Rightarrow> plan \<Rightarrow> usize list \<Rightarrow> 'client handler_inner result" where
  "inner_new make_client stage_addrs p partition_group =
     map_result (\<lambda>ctx. \<lparr>hi_plan = p, hi_ctx = ctx\<rparr>) (configure_ctx make_client stage_addrs p partition_group)"

definition handler_update_plan ::
  "(string \<Rightarrow> 'client result) \<Rightarrow> (usize \<Rightarrow> (usize \<times> string list) list option) \<Rightarrow> plan \<Rightarrow> usize list \<Rightarrow> 'client handler_inner option
     \<Rightarrow> unit result \<times> 'client handler_inner option" where
  "handler_update_plan make_client stage_addrs p partition_group inner =
     (case inner_new make_client stage_addrs p partition_group of
        Err e \<Rightarrow> (Err e, inner)
      | Ok new \<Rightarrow> (Ok (), Some new))"

datatype flight_status = StatusInternal string | StatusUnimplemented string

definition make_stream :: "('client handler_inner \<Rightarrow> usize \<Rightarrow> 's result) \<Rightarrow> 'client handler_inner \<Rightarrow> usize \<Rightarrow> flight_status + 's" where
  "make_stream execute inner part =
     (case execute inner part of
        Err e \<Rightarrow> Inl (StatusInternal ''Could not get partition stream from plan'')
      | Ok stream \<Rightarrow> Inr stream)"

text \<open>\<open>extract_ticket\<close> is the reader of a ticket: its partition, if it can be read.\<close>

definition handler_get_stream ::
  "('client handler_inner \<Rightarrow> usize \<Rightarrow> 's result) \<Rightarrow> ('ticket \<Rightarrow> usize option) \<Rightarrow> 'client handler_inner option \<Rightarrow> 'ticket
     \<Rightarrow> flight_status + 's" where
  "handler_get_stream execute extract_ticket inner ticket =
     (case extract_ticket ticket of
        None \<Rightarrow> Inl (StatusInternal ''Unexpected error extracting ticket'')
      | Some part \<Rightarrow>
          (case inner of
             None \<Rightarrow> Inl (StatusInternal ''No inner found'')
           | Some i \<Rightarrow> make_stream execute i part))"

subsection \<open>The stages of an optimized plan\<close>

text \<open>The stage numbers of a plan bottom up, and the plan without the stage nodes.\<close>

fun stages :: "plan \<Rightarrow> usize list" where
  "stages (Node n ps) = concat (map stages ps) @ (case n of DFRayStageExec i \<Rightarrow> [i] | _ \<Rightarrow> [])"

fun erase_stages :: "plan \<Rightarrow> plan" where
  "erase_stages (Node n ps) =
     (case (n, map erase_stages ps) of (DFRayStageExec _, [p]) \<Rightarrow> p | (_, ps') \<Rightarrow> Node n ps')"

fun stage_breaks :: "plan \<Rightarrow> nat" where
  "stage_breaks (Node n ps) = sum_list (map stage_breaks ps) + (if breaks_stage n then 1 else 0)"

text \<open>Nodes that end a stage stand directly below a stage node, and stages read from smaller ones.\<close>

fun staged :: "plan \<Rightarrow> bool" where
  "staged (Node n ps) \<longleftrightarrow> (\<forall>p \<in> set ps. staged p) \<and>
     (\<forall>p \<in> set ps. breaks_stage (node_of p) \<longrightarrow> (\<exists>i. n = DFRayStageExec i)) \<and>
     (\<forall>i p. n = DFRayStageExec i \<longrightarrow> p \<in> set ps \<longrightarrow> (\<forall>j \<in> set (stages p). j < i))"

lemma breaks_not_stage: "breaks_stage n \<Longrightarrow> (case n of DFRayStageExec i \<Rightarrow> [i] | _ \<Rightarrow> []) = []"
  by (auto simp: breaks_stage_def)

lemma erase_other: "\<forall>i. n \<noteq> DFRayStageExec i \<Longrightarrow> erase_stages (Node n ps) = Node n (map erase_stages ps)"
  by (cases n) simp_all

definition numbered :: "usize \<Rightarrow> plan \<Rightarrow> plan \<Rightarrow> usize \<Rightarrow> bool" where
  "numbered c p p' c' \<longleftrightarrow> c' = c + stage_breaks p \<and> stages p' = [c..<c'] \<and> erase_stages p' = p \<and> staged p' \<and> \<not> breaks_stage (node_of p')"

lemma stage_up_list_numbers:
  assumes "\<And>p c p' c'. p \<in> set ps \<Longrightarrow> transform_up stage_up p c = (p', c') \<Longrightarrow> numbered c p p' c'"
    and "transform_up_list stage_up ps c = (ps', c')"
  shows "c' = c + sum_list (map stage_breaks ps) \<and> concat (map stages ps') = [c..<c'] \<and> map erase_stages ps' = ps \<and>
     (\<forall>p \<in> set ps'. staged p \<and> \<not> breaks_stage (node_of p))"
  using assms
proof (induction ps arbitrary: c ps' c')
  case (Cons p ps)
  obtain p1 c1 where p1: "transform_up stage_up p c = (p1, c1)" by fastforce
  obtain ps2 c2 where ps2: "transform_up_list stage_up ps c1 = (ps2, c2)" by fastforce
  have IH1: "numbered c p p1 c1" by (rule Cons.prems(1) [OF _ p1]) simp
  have IH2: "c2 = c1 + sum_list (map stage_breaks ps) \<and> concat (map stages ps2) = [c1..<c2] \<and> map erase_stages ps2 = ps \<and>
     (\<forall>p \<in> set ps2. staged p \<and> \<not> breaks_stage (node_of p))"
    by (rule Cons.IH [OF _ ps2]) (use Cons.prems(1) in auto)
  have "[c..<c1] @ [c1..<c2] = [c..<c2]" using IH1 IH2 upt_add_eq_append [of c c1 "c2 - c1"] by (simp add: numbered_def)
  with IH1 IH2 Cons.prems(2) p1 ps2 show ?case by (auto simp: numbered_def)
qed simp

lemma stage_up_numbers: "stages p = [] \<Longrightarrow> transform_up stage_up p c = (p', c') \<Longrightarrow> numbered c p p' c'"
proof (induction p arbitrary: c p' c')
  case (Node n ps)
  obtain ps1 c1 where list: "transform_up_list stage_up ps c = (ps1, c1)" by fastforce
  have plain: "\<forall>p \<in> set ps. stages p = []" "\<forall>i. n \<noteq> DFRayStageExec i" using Node.prems(1) by auto
  have IH: "c1 = c + sum_list (map stage_breaks ps)" "concat (map stages ps1) = [c..<c1]"
    "map erase_stages ps1 = ps" "\<forall>p \<in> set ps1. staged p \<and> \<not> breaks_stage (node_of p)"
    using stage_up_list_numbers [OF Node.IH list] plain(1) by blast+
  have inner: "stages (Node n ps1) = [c..<c1]" "erase_stages (Node n ps1) = Node n ps" "staged (Node n ps1)"
    using IH plain(2) by (auto simp: erase_other split: exec_node.split)
  show ?case
  proof (cases "breaks_stage n")
    case True
    then have "p' = Node (DFRayStageExec c1) [Node n ps1]" "c' = Suc c1" using Node.prems(2) list by (simp_all add: stage_up_def [of "Node n ps1"])
    moreover have "stages (Node (DFRayStageExec c1) [Node n ps1]) = [c..<Suc c1]" using inner(1) IH(1) by simp
    moreover have "erase_stages (Node (DFRayStageExec c1) [Node n ps1]) = Node n ps" using inner(2) by simp
    moreover have "staged (Node (DFRayStageExec c1) [Node n ps1])" using inner(1,3) by (simp del: stages.simps)
    ultimately show ?thesis using True IH(1) by (simp add: numbered_def breaks_stage_def)
  next
    case False
    then have "p' = Node n ps1" "c' = c1" using Node.prems(2) list by (simp_all add: stage_up_def [of "Node n ps1"])
    then show ?thesis using False inner IH(1) by (simp add: numbered_def)
  qed
qed

text \<open>
  C34: the optimizer cuts a plan into numbered stages and leaves it alone otherwise.  For a plan
  without stage nodes the stages of the result are numbered from zero without gaps, one for each
  node that ends a stage and one at the root; every such node stands directly below a stage
  node; within a stage all stages have smaller numbers; and without the stage nodes the result
  is the plan.
\<close>

theorem optimize_stages:
  assumes "stages p = []"
  shows "stages (optimize p) = [0..<stage_breaks p + 1] \<and> erase_stages (optimize p) = p \<and> staged (optimize p)"
proof -
  obtain p' c where up: "transform_up stage_up p 0 = (p', c)" by fastforce
  from stage_up_numbers [OF assms up] show ?thesis by (auto simp: numbered_def optimize_def up)
qed

theorem optimize_stages_witness:
  "stages (optimize (Node SortExec [Node (OtherNode ''join'') [Node RepartitionExec [], Node RepartitionExec []]])) = [0, 1, 2, 3]"
proof -
  have "stages (Node SortExec [Node (OtherNode ''join'') [Node RepartitionExec [], Node RepartitionExec []]]) = []" by simp
  from optimize_stages [OF this] show ?thesis by (simp add: breaks_stage_def upt_rec)
qed

subsection \<open>Nodes through the codec\<close>

definition codec_supports :: "plan \<Rightarrow> bool" where
  "codec_supports p = (case p of
     Node (DFRayStageReaderExec _ _ _) [] \<Rightarrow> True
   | Node (PartitionIsolatorExec _) [_] \<Rightarrow> True
   | Node (MaxRowsExec max_rows) [_] \<Rightarrow> 0 < max_rows
   | _ \<Rightarrow> False)"

lemmas message_defs = encode_reader_def encode_max_rows_def encode_prefetch_def encode_isolator_def put_varint_def put_fixed32_def put_message_def

text \<open>
  Readers, isolators and limits of rows survive the codec.  If partitionings are read as they
  are written, encoding such a node and decoding it with its inputs gives the node.
\<close>

theorem codec_round_trip:
  assumes "\<And>n. parse_partitioning (serialize_partitioning n) = Ok n" and "codec_supports p"
  shows "\<exists>m. try_encode serialize_partitioning p = Ok m \<and> try_decode parse_partitioning m (children p) = Ok p"
proof -
  obtain n ps where p: "p = Node n ps" by (cases p)
  show ?thesis
  proof (cases n)
    case (DFRayStageReaderExec schema parts i)
    with assms p show ?thesis
      by (cases ps) (auto simp: codec_supports_def try_encode_def try_decode_def decode_stage_reader_def message_defs)
  next
    case (PartitionIsolatorExec k)
    with assms(2) p obtain q where "ps = [q]" by (auto simp: codec_supports_def split: list.splits)
    with PartitionIsolatorExec p show ?thesis by (auto simp: try_encode_def try_decode_def message_defs)
  next
    case (MaxRowsExec k)
    with assms(2) p obtain q where "ps = [q]" "0 < k" by (auto simp: codec_supports_def split: list.splits)
    with MaxRowsExec p show ?thesis by (auto simp: try_encode_def try_decode_def message_defs)
  qed (use assms(2) p in \<open>auto simp: codec_supports_def\<close>)
qed

theorem codec_round_trip_witness:
  "\<exists>m. try_encode (\<lambda>n. replicate n CHR ''p'') (Node (MaxRowsExec 10) [Node (DFRayStageReaderExec ''schema'' 2 1) []]) = Ok m \<and>
    try_decode (\<lambda>s. Ok (length s)) m [Node (DFRayStageReaderExec ''schema'' 2 1) []] =
      Ok (Node (MaxRowsExec 10) [Node (DFRayStageReaderExec ''schema'' 2 1) []])"
proof -
  have "codec_supports (Node (MaxRowsExec 10) [Node (DFRayStageReaderExec ''schema'' 2 1) []])" by (simp add: codec_supports_def)
  from codec_round_trip [where serialize_partitioning = "\<lambda>n. replicate n CHR ''p''" and parse_partitioning = "\<lambda>s. Ok (length s)", OF _ this]
  show ?thesis by simp
qed

text \<open>
  A prefetch node does not survive.  Its first field is zero and is not written, so its message can
  be read as that of an isolator, which the decoder tries first.  A limit of zero rows has an
  empty message and becomes an isolator too.
\<close>

lemma prefetch_decoded_as_isolator:
  "\<exists>m. try_encode serialize_partitioning (Node (PrefetchExec n) [p]) = Ok m \<and>
    try_decode parse_partitioning m [p] = Ok (Node (PartitionIsolatorExec n) [p])"
  by (auto simp: try_encode_def try_decode_def message_defs)

lemma max_rows_zero_decoded_as_isolator:
  "\<exists>m. try_encode serialize_partitioning (Node (MaxRowsExec 0) [p]) = Ok m \<and>
    try_decode parse_partitioning m [p] = Ok (Node (PartitionIsolatorExec 0) [p])"
  by (auto simp: try_encode_def try_decode_def message_defs)

subsection \<open>The clients of a handler\<close>

lemma clients_for_all:
  assumes "\<forall>addr \<in> set addrs. make_client addr = Ok (client addr)" and "\<And>addr c. cache addr = Some c \<Longrightarrow> c = client addr"
  shows "\<exists>cache'. clients_for make_client addrs cache = Ok (map client addrs, cache') \<and> (\<forall>addr c. cache' addr = Some c \<longrightarrow> c = client addr)"
  using assms
proof (induction addrs arbitrary: cache)
  case (Cons addr addrs)
  show ?case
  proof (cases "cache addr")
    case None
    have "\<exists>cache'. clients_for make_client addrs (cache(addr \<mapsto> client addr)) = Ok (map client addrs, cache') \<and>
        (\<forall>addr c. cache' addr = Some c \<longrightarrow> c = client addr)"
      by (rule Cons.IH) (use Cons.prems in \<open>auto split: if_splits\<close>)
    then obtain cache' where "clients_for make_client addrs (cache(addr \<mapsto> client addr)) = Ok (map client addrs, cache')"
      "\<forall>addr c. cache' addr = Some c \<longrightarrow> c = client addr" by blast
    moreover have "make_client addr = Ok (client addr)" using Cons.prems(1) by simp
    ultimately show ?thesis using None by (simp del: fun_upd_apply)
  next
    case (Some c)
    have "\<exists>cache'. clients_for make_client addrs cache = Ok (map client addrs, cache') \<and> (\<forall>addr c. cache' addr = Some c \<longrightarrow> c = client addr)"
      by (rule Cons.IH) (use Cons.prems in auto)
    then obtain cache' where "clients_for make_client addrs cache = Ok (map client addrs, cache')"
      "\<forall>addr c. cache' addr = Some c \<longrightarrow> c = client addr" by blast
    moreover have "c = client addr" by (rule Cons.prems(2)) (rule Some)
    ultimately show ?thesis using Some by simp
  qed
qed simp

definition partition_clients :: "(string \<Rightarrow> 'client) \<Rightarrow> usize \<Rightarrow> (usize \<times> string list) list \<Rightarrow> 'client service_clients \<Rightarrow> 'client service_clients" where
  "partition_clients client stage_id parts m = fold (\<lambda>(part, addrs) m. m((stage_id, part) \<mapsto> map client addrs)) parts m"

lemma add_partitions_all:
  assumes "\<forall>(part, addrs) \<in> set parts. \<forall>addr \<in> set addrs. make_client addr = Ok (client addr)" and "\<And>addr c. cache addr = Some c \<Longrightarrow> c = client addr"
  shows "\<exists>cache'. add_partitions make_client stage_id parts (m, cache) = Ok (partition_clients client stage_id parts m, cache') \<and>
    (\<forall>addr c. cache' addr = Some c \<longrightarrow> c = client addr)"
  using assms
proof (induction parts arbitrary: m cache)
  case (Cons pa parts)
  obtain part addrs where pa: "pa = (part, addrs)" by fastforce
  obtain cache1 where cache1: "clients_for make_client addrs cache = Ok (map client addrs, cache1)"
    "\<forall>addr c. cache1 addr = Some c \<longrightarrow> c = client addr"
    using clients_for_all [of addrs make_client client cache] Cons.prems by (auto simp: pa)
  from Cons.IH [of cache1 "m((stage_id, part) \<mapsto> map client addrs)"] cache1 Cons.prems(1) show ?case
    by (simp add: pa partition_clients_def del: fun_upd_apply)
qed (simp add: partition_clients_def)

lemma partition_clients_lookup:
  assumes "distinct (map fst parts)"
  shows "partition_clients client stage_id parts m (sid, part) =
    (if sid = stage_id \<and> part \<in> fst ` set parts then map_option (map client) (map_of parts part) else m (sid, part))"
  using assms
proof (induction parts arbitrary: m)
  case (Cons pa parts)
  then show ?case by (cases pa) (auto simp: partition_clients_def)
qed (simp add: partition_clients_def)

lemma add_stages_all:
  assumes "\<forall>i \<in> set ids. \<forall>parts. stage_addrs i = Some parts \<longrightarrow>
      (\<forall>(part, addrs) \<in> set parts. \<forall>addr \<in> set addrs. make_client addr = Ok (client addr))"
    and "\<And>addr c. cache addr = Some c \<Longrightarrow> c = client addr"
    and "\<forall>i \<in> set ids. stage_addrs i \<noteq> None" and "\<And>i parts. stage_addrs i = Some parts \<Longrightarrow> distinct (map fst parts)"
  shows "\<exists>m' cache'. add_stages make_client stage_addrs ids (m, cache) = Ok (m', cache') \<and>
    (\<forall>i part. m' (i, part) = (case stage_addrs i of
        Some parts \<Rightarrow> if i \<in> set ids \<and> part \<in> fst ` set parts then map_option (map client) (map_of parts part) else m (i, part)
      | None \<Rightarrow> m (i, part)))"
  using assms(1-3)
proof (induction ids arbitrary: m cache)
  case (Cons sid ids)
  obtain parts where parts: "stage_addrs sid = Some parts" using Cons.prems(3) by auto
  obtain cache1 where cache1: "add_partitions make_client sid parts (m, cache) = Ok (partition_clients client sid parts m, cache1)"
    "\<forall>addr c. cache1 addr = Some c \<longrightarrow> c = client addr"
    using add_partitions_all [of parts make_client client cache sid m] Cons.prems(1,2) parts by auto
  from Cons.IH [of cache1 "partition_clients client sid parts m"] cache1 Cons.prems(1,3) parts obtain m' cache' where
    "add_stages make_client stage_addrs (sid # ids) (m, cache) = Ok (m', cache')"
    "\<forall>i part. m' (i, part) = (case stage_addrs i of
        Some parts' \<Rightarrow> if i \<in> set ids \<and> part \<in> fst ` set parts' then map_option (map client) (map_of parts' part)
          else partition_clients client sid parts m (i, part)
      | None \<Rightarrow> partition_clients client sid parts m (i, part))" by auto
  then show ?case
    using parts by (intro exI [of _ m'] exI [of _ cache'])
      (auto simp: partition_clients_lookup [OF assms(4) [OF parts]] split: option.split)
qed (auto split: option.split)

text \<open>The stages that the readers of a plan read from, parents before children.\<close>

fun reader_stages :: "plan \<Rightarrow> usize list" where
  "reader_stages (Node n ps) = (case n of DFRayStageReaderExec _ _ stage_id \<Rightarrow> [stage_id] | _ \<Rightarrow> []) @ concat (map reader_stages ps)"

lemma visit_down_list_collects:
  assumes "\<And>p s. p \<in> set ps \<Longrightarrow> visit_down f p s = Ok (s @ g p)"
  shows "visit_down_list f ps s = Ok (s @ concat (map g ps))"
  using assms by (induction ps arbitrary: s) simp_all

lemma visit_reader_stages:
  "visit_down (\<lambda>q ids. Ok (case node_of q of DFRayStageReaderExec _ _ stage_id \<Rightarrow> ids @ [stage_id] | _ \<Rightarrow> ids)) p ids =
     Ok (ids @ reader_stages p)"
proof (induction p arbitrary: ids)
  case (Node n ps)
  note collect = visit_down_list_collects [where f = "\<lambda>q ids. Ok (case node_of q of DFRayStageReaderExec _ _ stage_id \<Rightarrow> ids @ [stage_id] | _ \<Rightarrow> ids)"
    and g = reader_stages and ps = ps, OF Node.IH]
  show ?case by (cases n) (simp_all add: collect)
qed

lemma input_stage_ids_all: "input_stage_ids p = Ok (reader_stages p)"
  by (simp add: input_stage_ids_def visit_reader_stages)

lemma handler_clients:
  assumes "\<forall>i \<in> set (reader_stages p). \<forall>parts. stage_addrs i = Some parts \<longrightarrow>
      (\<forall>(part, addrs) \<in> set parts. \<forall>addr \<in> set addrs. make_client addr = Ok (client addr))"
    and "\<forall>i \<in> set (reader_stages p). stage_addrs i \<noteq> None"
    and "\<forall>i parts. stage_addrs i = Some parts \<longrightarrow> distinct (map fst parts)"
    and "register_object_store_for_paths_in_plan p [] = Ok stores"
  shows "\<exists>inner. handler_update_plan make_client stage_addrs p partition_group old = (Ok (), Some inner) \<and>
    hi_plan inner = p \<and> se_partition_group (hi_ctx inner) = partition_group \<and>
    (\<forall>i parts part addrs. i \<in> set (reader_stages p) \<and> stage_addrs i = Some parts \<and> (part, addrs) \<in> set parts \<longrightarrow>
      se_clients (hi_ctx inner) (i, part) = Some (map client addrs))"
proof -
  obtain m cache where m: "add_stages make_client stage_addrs (reader_stages p) (Map.empty, Map.empty) = Ok (m, cache)"
    "\<forall>i part. m (i, part) = (case stage_addrs i of
        Some parts \<Rightarrow> if i \<in> set (reader_stages p) \<and> part \<in> fst ` set parts then map_option (map client) (map_of parts part) else None
      | None \<Rightarrow> None)"
    using add_stages_all [OF assms(1) _ assms(2), of Map.empty Map.empty] assms(3) by auto
  have "m (i, part) = Some (map client addrs)"
    if "i \<in> set (reader_stages p)" "stage_addrs i = Some parts" "(part, addrs) \<in> set parts" for i parts part addrs
  proof -
    have "map_of parts part = Some addrs" using that(2,3) assms(3) by simp
    moreover have "part \<in> fst ` set parts" using that(3) by force
    ultimately show ?thesis using m(2) that(1,2) by simp
  qed
  with m(1) assms(4) show ?thesis
    by (simp add: handler_update_plan_def inner_new_def configure_ctx_def input_stage_ids_all)
qed

text \<open>
  C33: a handler with a new plan has a client for every address it reads from.  If the addresses
  it reads from can be reached, the addresses of all stages the plan reads are known and its object stores can be
  registered, then updating the plan succeeds, replaces the plan, and for every partition of
  every stage the plan reads the session has the clients of the addresses of that partition, in
  order, whatever plan was served before.
\<close>

theorem update_plan_clients:
  assumes "\<forall>i \<in> set (reader_stages p). \<forall>parts. stage_addrs i = Some parts \<longrightarrow>
      (\<forall>(part, addrs) \<in> set parts. \<forall>addr \<in> set addrs. make_client addr = Ok (client addr))"
    and "\<forall>i \<in> set (reader_stages p). stage_addrs i \<noteq> None"
    and "\<forall>i parts. stage_addrs i = Some parts \<longrightarrow> distinct (map fst parts)"
    and "register_object_store_for_paths_in_plan p [] = Ok stores"
  shows "\<exists>inner. handler_update_plan make_client stage_addrs p partition_group old = (Ok (), Some inner) \<and>
    hi_plan inner = p \<and> se_partition_group (hi_ctx inner) = partition_group \<and>
    (\<forall>i parts part addrs. i \<in> set (reader_stages p) \<and> stage_addrs i = Some parts \<and> (part, addrs) \<in> set parts \<longrightarrow>
      se_clients (hi_ctx inner) (i, part) = Some (map client addrs))"
  by (rule handler_clients [OF assms])

theorem update_plan_clients_witness:
  "\<exists>inner. handler_update_plan Ok (\<lambda>i. if i = 1 then Some [(0, [''a'', ''b'']), (1, [''a''])] else None)
     (Node SortExec [Node (DFRayStageReaderExec ''schema'' 2 1) []]) [0] None = (Ok (), Some inner) \<and>
   se_clients (hi_ctx inner) (1, 0) = Some [''a'', ''b''] \<and> se_clients (hi_ctx inner) (1, 1) = Some [''a'']"
proof -
  let ?addrs = "\<lambda>i :: usize. if i = 1 then Some [(0 :: usize, [''a'', ''b'']), (1, [''a''])] else None"
  let ?plan = "Node SortExec [Node (DFRayStageReaderExec ''schema'' 2 1) []]"
  have "register_object_store_for_paths_in_plan ?plan [] = Ok []"
    by (simp add: register_object_store_for_paths_in_plan_def register_children_def)
  moreover have "\<forall>i \<in> set (reader_stages ?plan). ?addrs i \<noteq> None" by simp
  moreover have "\<forall>i parts. ?addrs i = Some parts \<longrightarrow> distinct (map fst parts)" by auto
  ultimately obtain inner where inner: "handler_update_plan Ok ?addrs ?plan [0] None = (Ok (), Some inner)"
    "\<forall>i parts part addrs. i \<in> set (reader_stages ?plan) \<and> ?addrs i = Some parts \<and> (part, addrs) \<in> set parts \<longrightarrow>
      se_clients (hi_ctx inner) (i, part) = Some (map id addrs)"
    using update_plan_clients [of ?plan ?addrs Ok id "[]" "[0]" None] by auto
  have "se_clients (hi_ctx inner) (1, 0) = Some [''a'', ''b'']" "se_clients (hi_ctx inner) (1, 1) = Some [''a'']"
    using inner(2) by force+
  with inner(1) show ?thesis by blast
qed

text \<open>A plan that cannot be installed leaves the handler with the plan it had.\<close>

lemma update_plan_error: "handler_update_plan make_client stage_addrs p partition_group old = (Err e, inner) \<Longrightarrow> inner = old"
  by (auto simp: handler_update_plan_def split: result.splits)

lemma get_stream_without_plan: "\<exists>e. handler_get_stream execute extract_ticket None ticket = Inl e"
  by (auto simp: handler_get_stream_def split: option.splits)

subsection \<open>Scans\<close>

fun pushes_filters :: "plan \<Rightarrow> bool" where
  "pushes_filters (Node n ps) = ((case n of ParquetExec _ pushdown \<Rightarrow> pushdown | _ \<Rightarrow> True) \<and> list_all pushes_filters ps)"

text \<open>After \<open>fix_plan\<close> every parquet scan pushes its filters down.\<close>

lemma transform_up_list_invariant:
  assumes "\<And>p s. p \<in> set ps \<Longrightarrow> I (fst (transform_up f p s))"
  shows "list_all I (fst (transform_up_list f ps s))"
  using assms
proof (induction ps arbitrary: s)
  case (Cons p ps)
  obtain p1 s1 where p1: "transform_up f p s = (p1, s1)" by fastforce
  obtain ps2 s2 where ps2: "transform_up_list f ps s1 = (ps2, s2)" by fastforce
  have "I p1" using Cons.prems [of p s] p1 by simp
  moreover have "list_all I ps2" using Cons.IH [of s1] Cons.prems ps2 by simp
  ultimately show ?case using p1 ps2 by simp
qed simp

lemma fix_plan_pushes_filters: "pushes_filters (fix_plan p)"
proof -
  have "pushes_filters (fst (transform_up fix_scan p s))" for s
  proof (induction p arbitrary: s)
    case (Node n ps)
    obtain ps1 s1 where ps1: "transform_up_list fix_scan ps s = (ps1, s1)" by (cases "transform_up_list fix_scan ps s") 
    have "list_all pushes_filters ps1" using transform_up_list_invariant [where I = pushes_filters and ps = ps, OF Node.IH, of s] ps1 by simp
    with ps1 show ?case by (cases n) (simp_all add: fix_scan_def [of "Node n ps1" for n])
  qed
  then show ?thesis by (simp add: fix_plan_def)
qed

text \<open>
  The stores are looked for among the children of the nodes, so the store of a plan that is a
  single scan is not registered.
\<close>

lemma single_scan_not_registered: "register_object_store_for_paths_in_plan (Node n []) ctx = Ok ctx"
  by (simp add: register_object_store_for_paths_in_plan_def register_children_def)

end
