(* ===== verification/Processor_Pool.thy ===== *)
theory Processor_Pool
  imports Prelude
begin

text \<open>
  The pool of processors of \<open>datafusion_ray/core.py\<close> with the names of \<open>datafusion_ray/friendly.py\<close>.

  A method that may raise is a function from the state to an outcome and the state after it:
  changes made before an exception stay.  A Python set is a list without repetitions, a dict an
  association list in insertion order.  An object reference of Ray is the processor it belongs to.
  What the code does not determine is in the record \<open>pool_env\<close>: the element that \<open>set.pop\<close>
  removes, the animal that is drawn, the order in which awaited tasks are found to be done, and
  how the remote processors answer.  \<open>asyncio.wait\<close> rejects an empty collection.

  The theorems show that the pool never has more processors than allowed and never hands a
  processor out twice, whatever calls are made and however they end, and that acquiring
  processors gives as many different ones as asked for, with their addresses, as long as the
  maximum allows.
\<close>

subsection \<open>Methods that may raise\<close>

datatype py_error =
    KeyError
  | IndexError
  | ValueError string
  | NotImplementedError string
  | AttributeError string
  | AssertionError
  | PyException string

datatype 'a outcome = Raise py_error | Return 'a

type_synonym ('s, 'a) py = "'s \<Rightarrow> 'a outcome \<times> 's"

definition py_return :: "'a \<Rightarrow> ('s, 'a) py" where
  "py_return x s = (Return x, s)"

definition py_raise :: "py_error \<Rightarrow> ('s, 'a) py" where
  "py_raise e s = (Raise e, s)"

definition py_bind :: "('s, 'a) py \<Rightarrow> ('a \<Rightarrow> ('s, 'b) py) \<Rightarrow> ('s, 'b) py" where
  "py_bind m f s = (case m s of (Raise e, s') \<Rightarrow> (Raise e, s') | (Return x, s') \<Rightarrow> f x s')"

definition py_update :: "('s \<Rightarrow> 's) \<Rightarrow> ('s, unit) py" where
  "py_update f s = (Return (), f s)"

definition py_get :: "('s \<Rightarrow> 'a) \<Rightarrow> ('s, 'a) py" where
  "py_get f s = (Return (f s), s)"

definition py_outcome :: "'a outcome \<Rightarrow> ('s, 'a) py" where
  "py_outcome r s = (r, s)"

fun py_for :: "('a \<Rightarrow> ('s, unit) py) \<Rightarrow> 'a list \<Rightarrow> ('s, unit) py" where
  "py_for f [] = py_return ()"
| "py_for f (x # xs) = py_bind (f x) (\<lambda>_. py_for f xs)"

fun py_map :: "('a \<Rightarrow> ('s, 'b) py) \<Rightarrow> 'a list \<Rightarrow> ('s, 'b list) py" where
  "py_map f [] = py_return []"
| "py_map f (x # xs) = py_bind (f x) (\<lambda>y. py_bind (py_map f xs) (\<lambda>ys. py_return (y # ys)))"

lemmas py_defs = py_return_def py_raise_def py_bind_def py_update_def py_get_def py_outcome_def

text \<open>Sets and dicts.\<close>

definition set_add :: "'a \<Rightarrow> 'a list \<Rightarrow> 'a list" where
  "set_add x xs = (if x \<in> set xs then xs else xs @ [x])"

fun dict_set :: "'k \<Rightarrow> 'v \<Rightarrow> ('k \<times> 'v) list \<Rightarrow> ('k \<times> 'v) list" where
  "dict_set k v [] = [(k, v)]"
| "dict_set k v ((k', v') # d) = (if k = k' then (k, v) # d else (k', v') # dict_set k v d)"

definition dict_get :: "('k \<times> 'v) list \<Rightarrow> 'k \<Rightarrow> 'v outcome" where
  "dict_get d k = (case map_of d k of Some v \<Rightarrow> Return v | None \<Rightarrow> Raise KeyError)"

subsection \<open>State\<close>

datatype actor = DFRayProcessor (processor_key: string) | DFRayStreamProcessor (processor_key: string)

record pool_env =
  pe_pop :: "string list \<Rightarrow> string"
  pe_choice :: "string list \<Rightarrow> string"
  pe_done :: "nat \<Rightarrow> nat list"
  pe_start_up :: "string \<Rightarrow> unit outcome"
  pe_addr :: "string \<Rightarrow> string outcome"
  pe_all_done :: "string \<Rightarrow> unit outcome"

record pool =
  pl_min_workers :: int
  pl_max_workers :: int
  pl_use_streaming :: bool
  pl_pool :: "(string \<times> actor) list"
  pl_addrs :: "(string \<times> string) list"
  pl_processors_started :: "string list"
  pl_processors_ready :: bool
  pl_need_address :: "string list"
  pl_need_serving :: "string list"
  pl_acquired :: "string list"
  pl_available :: "string list"
  pl_serve_calls :: "string list"
  pl_adjectives :: "string list"

subsection \<open>Operations\<close>

definition set_pop :: "pool_env \<Rightarrow> string list \<Rightarrow> (string \<times> string list) outcome" where
  "set_pop env xs = (if xs = [] then Raise KeyError else Return (pe_pop env xs, remove1 (pe_pop env xs) xs))"

definition new_friendly_name :: "pool_env \<Rightarrow> (pool, string) py" where
  "new_friendly_name env p =
     (case set_pop env (pl_adjectives p) of
        Raise e \<Rightarrow> (Raise e, p)
      | Return (adj, rest) \<Rightarrow> (Return (adj @ ''-'' @ pe_choice env (pl_adjectives p)), p\<lparr>pl_adjectives := rest\<rparr>))"

fun collect_outcomes :: "'a outcome list \<Rightarrow> 'a list outcome" where
  "collect_outcomes [] = Return []"
| "collect_outcomes (Raise e # rs) = Raise e"
| "collect_outcomes (Return x # rs) = (case collect_outcomes rs of Raise e \<Rightarrow> Raise e | Return xs \<Rightarrow> Return (x # xs))"

definition wait_for :: "pool_env \<Rightarrow> 'a outcome list \<Rightarrow> 'a list outcome" where
  "wait_for env coros =
     (if coros = [] then Raise (ValueError ''Set of Tasks/Futures is empty.'')
      else collect_outcomes (map ((!) coros) (pe_done env (length coros))))"

definition processor_class :: "pool \<Rightarrow> string \<Rightarrow> actor" where
  "processor_class p = (if pl_use_streaming p then DFRayStreamProcessor else DFRayProcessor)"

definition new_processor :: "pool_env \<Rightarrow> (pool, unit) py" where
  "new_processor env =
     py_bind (py_update (\<lambda>p. p\<lparr>pl_processors_ready := False\<rparr>)) (\<lambda>_.
     py_bind (new_friendly_name env) (\<lambda>key.
     py_update (\<lambda>p. p\<lparr>pl_pool := dict_set key (processor_class p key) (pl_pool p),
       pl_processors_started := set_add key (pl_processors_started p),
       pl_available := set_add key (pl_available p)\<rparr>)))"

definition pool_new :: "pool_env \<Rightarrow> int \<Rightarrow> int \<Rightarrow> bool \<Rightarrow> string list \<Rightarrow> unit outcome \<times> pool" where
  "pool_new env min_workers max_workers use_streaming adjectives =
     py_for (\<lambda>_. new_processor env) [0..<nat min_workers]
       \<lparr>pl_min_workers = min_workers, pl_max_workers = max_workers, pl_use_streaming = use_streaming, pl_pool = [], pl_addrs = [],
        pl_processors_started = [], pl_processors_ready = False, pl_need_address = [], pl_need_serving = [],
        pl_acquired = [], pl_available = [], pl_serve_calls = [], pl_adjectives = adjectives\<rparr>"

definition wait_for_processors_started :: "pool_env \<Rightarrow> (pool, unit) py" where
  "wait_for_processors_started env =
     py_bind (\<lambda>p. (wait_for env (map (\<lambda>key. case pe_start_up env key of Raise e \<Rightarrow> Raise e | Return _ \<Rightarrow> Return key) (pl_processors_started p)), p)) (\<lambda>started_keys.
     py_update (\<lambda>p. p\<lparr>pl_need_address := fold set_add started_keys (pl_need_address p), pl_processors_started := []\<rparr>))"

definition request_addr :: "pool_env \<Rightarrow> string \<Rightarrow> (pool, (string \<times> string) outcome) py" where
  "request_addr env key =
     py_bind (\<lambda>p. (dict_get (pl_pool p) key, p)) (\<lambda>processor.
     py_bind (py_update (\<lambda>p. p\<lparr>pl_need_serving := set_add key (pl_need_serving p)\<rparr>)) (\<lambda>_.
     py_return (case pe_addr env (processor_key processor) of
         Raise e \<Rightarrow> Raise e
       | Return addr \<Rightarrow> Return (processor_key processor, addr))))"

definition wait_for_get_addrs :: "pool_env \<Rightarrow> (pool, unit) py" where
  "wait_for_get_addrs env =
     py_bind (py_get pl_need_address) (\<lambda>keys.
     py_bind (py_map (request_addr env) keys) (\<lambda>refs.
     py_bind (py_outcome (wait_for env refs)) (\<lambda>addrs.
     py_update (\<lambda>p. p\<lparr>pl_addrs := fold (\<lambda>(key, addr). dict_set key addr) addrs (pl_addrs p), pl_need_address := []\<rparr>))))"

definition serve_processor :: "string \<Rightarrow> (pool, unit) py" where
  "serve_processor key =
     py_bind (\<lambda>p. (dict_get (pl_pool p) key, p)) (\<lambda>processor.
     py_update (\<lambda>p. p\<lparr>pl_serve_calls := pl_serve_calls p @ [processor_key processor]\<rparr>))"

definition wait_for_serve :: "(pool, unit) py" where
  "wait_for_serve =
     py_bind (py_get pl_need_serving) (\<lambda>keys.
     py_bind (py_for serve_processor keys) (\<lambda>_.
     py_update (\<lambda>p. p\<lparr>pl_need_serving := []\<rparr>)))"

definition pool_start :: "pool_env \<Rightarrow> (pool, unit) py" where
  "pool_start env =
     py_bind (py_get pl_processors_ready) (\<lambda>ready.
     if ready then py_return ()
     else
       py_bind (wait_for_processors_started env) (\<lambda>_.
       py_bind (wait_for_get_addrs env) (\<lambda>_.
       py_bind wait_for_serve (\<lambda>_.
       py_update (\<lambda>p. p\<lparr>pl_processors_ready := True\<rparr>)))))"

definition take_available :: "pool_env \<Rightarrow> (pool, string) py" where
  "take_available env p =
     (case set_pop env (pl_available p) of
        Raise e \<Rightarrow> (Raise e, p)
      | Return (key, rest) \<Rightarrow> (Return key, p\<lparr>pl_available := rest, pl_acquired := set_add key (pl_acquired p)\<rparr>))"

definition make_processors :: "pool_env \<Rightarrow> int \<Rightarrow> (pool, unit) py" where
  "make_processors env need_to_make =
     (if 0 < need_to_make
      then py_bind (py_for (\<lambda>_. new_processor env) [0..<nat need_to_make]) (\<lambda>_. pool_start env)
      else py_return ())"

definition take_processors :: "pool_env \<Rightarrow> nat \<Rightarrow> (pool, actor list \<times> string list \<times> string list) py" where
  "take_processors env need =
     py_bind (\<lambda>p. (if need \<le> length (pl_available p) then Return () else Raise AssertionError, p)) (\<lambda>_.
     py_bind (py_map (\<lambda>_. take_available env) [0..<need]) (\<lambda>keys.
     py_bind (py_map (\<lambda>key p. (dict_get (pl_pool p) key, p)) keys) (\<lambda>processors.
     py_bind (py_map (\<lambda>key p. (dict_get (pl_addrs p) key, p)) keys) (\<lambda>addrs.
     py_return (processors, keys, addrs)))))"

definition acquire :: "pool_env \<Rightarrow> nat \<Rightarrow> (pool, actor list \<times> string list \<times> string list) py" where
  "acquire env need p =
     (let have = int (length (pl_available p));
          total = int (length (pl_available p)) + int (length (pl_acquired p));
          can_make = pl_max_workers p - total;
          need_to_make = int need - have
      in if can_make < need_to_make then (Raise (PyException ''Cannot allocate workers''), p)
         else py_bind (make_processors env need_to_make) (\<lambda>_. take_processors env need) p)"

definition release_one :: "string \<Rightarrow> (pool, unit) py" where
  "release_one key p =
     (if key \<in> set (pl_acquired p)
      then (Return (), p\<lparr>pl_available := set_add key (pl_available p), pl_acquired := remove1 key (pl_acquired p)\<rparr>)
      else (Raise KeyError, p))"

definition release :: "string list \<Rightarrow> (pool, unit) py" where
  "release keys = py_for release_one keys"

definition pool_all_done :: "pool_env \<Rightarrow> (pool, unit) py" where
  "pool_all_done env =
     py_bind (\<lambda>p. (wait_for env (map (\<lambda>(_, processor). pe_all_done env (processor_key processor)) (pl_pool p)), p)) (\<lambda>_.
     py_return ())"

subsection \<open>Facts on methods, sets and dicts\<close>

text \<open>What the code relies on: pops take a member, animals have no hyphen, and every awaited task is done once.\<close>

definition pool_env_ok :: "pool_env \<Rightarrow> bool" where
  "pool_env_ok env \<longleftrightarrow> (\<forall>xs. xs \<noteq> [] \<longrightarrow> pe_pop env xs \<in> set xs) \<and> (\<forall>xs. CHR ''-'' \<notin> set (pe_choice env xs)) \<and>
     (\<forall>n. mset (pe_done env n) = mset [0..<n])"

lemma set_set_add [simp]: "set (set_add x xs) = insert x (set xs)"
  by (auto simp: set_add_def)

lemma distinct_set_add [simp]: "distinct (set_add x xs) = distinct xs"
  by (simp add: set_add_def)

lemma set_fold_set_add [simp]: "set (fold set_add ys xs) = set ys \<union> set xs"
  by (induction ys arbitrary: xs) auto

lemma distinct_fold_set_add [simp]: "distinct (fold set_add ys xs) = distinct xs"
  by (induction ys arbitrary: xs) auto

lemma map_of_dict_set [simp]: "map_of (dict_set k v d) = (map_of d)(k \<mapsto> v)"
  by (induction k v d rule: dict_set.induct) (auto simp: fun_upd_twist)

lemma keys_dict_set [simp]: "fst ` set (dict_set k v d) = insert k (fst ` set d)"
  by (induction k v d rule: dict_set.induct) auto

lemma set_dict_set: "set (dict_set k v d) \<subseteq> insert (k, v) (set d)"
  by (induction k v d rule: dict_set.induct) auto

lemma dict_get_known: "k \<in> fst ` set d \<Longrightarrow> \<exists>v. dict_get d k = Return v \<and> (k, v) \<in> set d"
proof -
  assume "k \<in> fst ` set d"
  then obtain v where "map_of d k = Some v" by (metis map_of_eq_None_iff option.exhaust)
  then show ?thesis by (auto simp: dict_get_def dest: map_of_SomeD)
qed

lemma collect_outcomes_map [simp]: "collect_outcomes (map Return xs) = Return xs"
  by (induction xs) auto

lemma collect_outcomes_Return: "collect_outcomes rs = Return xs \<Longrightarrow> rs = map Return xs"
  by (induction rs arbitrary: xs rule: collect_outcomes.induct) (auto split: outcome.splits)

lemma collect_outcomes_iff: "collect_outcomes rs = Return xs \<longleftrightarrow> rs = map Return xs"
  using collect_outcomes_Return by auto

lemma wait_for_results:
  assumes "pool_env_ok env" and "wait_for env coros = Return rs"
  shows "mset (map Return rs) = mset coros"
proof -
  let ?order = "pe_done env (length coros)"
  have "map ((!) coros) ?order = map Return rs"
    using assms(2) by (auto simp: wait_for_def collect_outcomes_iff split: if_splits)
  moreover have "mset (map ((!) coros) ?order) = image_mset ((!) coros) (mset [0..<length coros])"
    using assms(1) by (simp add: pool_env_ok_def)
  moreover have "image_mset ((!) coros) (mset [0..<length coros]) = mset coros"
    by (metis map_nth mset_map)
  ultimately show ?thesis by simp
qed

lemma wait_for_mapped:
  assumes "pool_env_ok env" and "wait_for env (map (\<lambda>x. case r x of Raise e \<Rightarrow> Raise e | Return v \<Rightarrow> Return (g x v)) xs) = Return ys"
  shows "\<forall>x \<in> set xs. \<exists>v. r x = Return v \<and> g x v \<in> set ys" and "\<forall>y \<in> set ys. \<exists>x \<in> set xs. \<exists>v. r x = Return v \<and> y = g x v"
proof -
  have same: "Return ` set ys = (\<lambda>x. case r x of Raise e \<Rightarrow> Raise e | Return v \<Rightarrow> Return (g x v)) ` set xs"
    using wait_for_results [OF assms] by (metis set_map set_mset_mset)
  show "\<forall>x \<in> set xs. \<exists>v. r x = Return v \<and> g x v \<in> set ys"
  proof
    fix x
    assume "x \<in> set xs"
    then have "(case r x of Raise e \<Rightarrow> Raise e | Return v \<Rightarrow> Return (g x v)) \<in> Return ` set ys" by (simp add: same)
    then show "\<exists>v. r x = Return v \<and> g x v \<in> set ys" by (auto split: outcome.splits)
  qed
  show "\<forall>y \<in> set ys. \<exists>x \<in> set xs. \<exists>v. r x = Return v \<and> y = g x v"
  proof
    fix y
    assume "y \<in> set ys"
    then have "Return y \<in> (\<lambda>x. case r x of Raise e \<Rightarrow> Raise e | Return v \<Rightarrow> Return (g x v)) ` set xs" by (simp flip: same)
    then show "\<exists>x \<in> set xs. \<exists>v. r x = Return v \<and> y = g x v" by (force split: outcome.splits)
  qed
qed

lemma wait_for_succeeds:
  assumes "pool_env_ok env" and "coros = map Return xs" and "xs \<noteq> []"
  shows "\<exists>rs. wait_for env coros = Return rs \<and> mset rs = mset xs"
proof -
  let ?order = "pe_done env (length coros)"
  have order: "set ?order = {..<length coros}"
    using assms(1) by (metis atLeast_upt pool_env_ok_def set_mset_mset)
  have "map ((!) coros) ?order = map Return (map ((!) xs) ?order)"
    using order by (auto simp: assms(2))
  then have waited: "wait_for env coros = Return (map ((!) xs) ?order)"
    using assms(2,3) by (simp add: wait_for_def collect_outcomes_iff)
  moreover have "mset (map ((!) xs) ?order) = image_mset ((!) xs) (mset [0..<length xs])"
    using assms(1,2) by (simp add: pool_env_ok_def)
  ultimately show ?thesis by (metis map_nth mset_map)
qed

text \<open>An assertion that a method keeps, whether it returns or raises.\<close>

definition keeps :: "('s \<Rightarrow> bool) \<Rightarrow> ('s, 'a) py \<Rightarrow> bool" where
  "keeps I m \<longleftrightarrow> (\<forall>s. I s \<longrightarrow> I (snd (m s)))"

lemma keepsD: "keeps I m \<Longrightarrow> I s \<Longrightarrow> I (snd (m s))"
  by (simp add: keeps_def)

lemma keeps_return [intro]: "keeps I (py_return x)"
  by (simp add: keeps_def py_return_def)

lemma keeps_raise [intro]: "keeps I (py_raise e)"
  by (simp add: keeps_def py_raise_def)

lemma keeps_get [intro]: "keeps I (py_get f)"
  by (simp add: keeps_def py_get_def)

lemma keeps_update [intro]: "(\<And>s. I s \<Longrightarrow> I (f s)) \<Longrightarrow> keeps I (py_update f)"
  by (simp add: keeps_def py_update_def)

lemma keeps_outcome [intro]: "keeps I (py_outcome r)"
  by (simp add: keeps_def py_outcome_def)

lemma keeps_read [intro]: "keeps I (\<lambda>s. (f s, s))"
  by (simp add: keeps_def)

lemma keeps_bind [intro]: "keeps I m \<Longrightarrow> (\<And>x. keeps I (f x)) \<Longrightarrow> keeps I (py_bind m f)"
proof -
  assume m: "keeps I m" and f: "\<And>x. keeps I (f x)"
  have "I (snd (py_bind m f s))" if "I s" for s
  proof -
    obtain r t where r: "m s = (r, t)" by (cases "m s")
    have "I t" using keepsD [OF m that] r by simp
    then show ?thesis using r keepsD [OF f] by (cases r) (simp_all add: py_bind_def)
  qed
  then show ?thesis by (simp add: keeps_def)
qed

lemma keeps_for [intro]: "(\<And>x. keeps I (f x)) \<Longrightarrow> keeps I (py_for f xs)"
  by (induction xs) auto

lemma keeps_map [intro]: "(\<And>x. keeps I (f x)) \<Longrightarrow> keeps I (py_map f xs)"
  by (induction xs) auto

subsection \<open>The invariant\<close>

definition keys_of :: "pool \<Rightarrow> string set" where
  "keys_of p = fst ` set (pl_pool p)"

definition pool_total :: "pool \<Rightarrow> nat" where
  "pool_total p = length (pl_available p) + length (pl_acquired p)"

text \<open>
  Every processor is either available or acquired; a processor moves from being started over having
  no address yet and not serving yet to being served, which happens once; a processor that is past
  the second step has its address; the names that can still be drawn are new.
\<close>

definition pool_sets_ok :: "pool \<Rightarrow> bool" where
  "pool_sets_ok p \<longleftrightarrow> distinct (pl_available p) \<and> distinct (pl_acquired p) \<and> set (pl_available p) \<inter> set (pl_acquired p) = {} \<and>
     set (pl_available p) \<union> set (pl_acquired p) = keys_of p"

definition pool_start_ok :: "pool_env \<Rightarrow> pool \<Rightarrow> bool" where
  "pool_start_ok env p \<longleftrightarrow> (\<forall>(k, a) \<in> set (pl_pool p). processor_key a = k) \<and>
     keys_of p = set (pl_processors_started p) \<union> set (pl_need_address p) \<union> set (pl_need_serving p) \<union> set (pl_serve_calls p) \<and>
     set (pl_processors_started p) \<inter> (set (pl_need_address p) \<union> set (pl_need_serving p)) = {} \<and>
     set (pl_serve_calls p) \<inter> (set (pl_processors_started p) \<union> set (pl_need_address p) \<union> set (pl_need_serving p)) = {} \<and>
     distinct (pl_serve_calls p) \<and> distinct (pl_need_serving p) \<and>
     set (pl_serve_calls p) \<union> (set (pl_need_serving p) - set (pl_need_address p)) \<subseteq> fst ` set (pl_addrs p) \<and>
     (\<forall>k a. map_of (pl_addrs p) k = Some a \<longrightarrow> pe_addr env k = Return a) \<and>
     (pl_processors_ready p \<longrightarrow> pl_processors_started p = [] \<and> pl_need_address p = [] \<and> pl_need_serving p = [])"

definition pool_names_ok :: "pool \<Rightarrow> bool" where
  "pool_names_ok p \<longleftrightarrow> distinct (pl_adjectives p) \<and>
     (\<forall>adj name. adj \<in> set (pl_adjectives p) \<and> CHR ''-'' \<notin> set name \<longrightarrow> adj @ ''-'' @ name \<notin> keys_of p)"

definition pool_inv :: "pool_env \<Rightarrow> pool \<Rightarrow> bool" where
  "pool_inv env p \<longleftrightarrow> pool_sets_ok p \<and> pool_start_ok env p \<and> pool_names_ok p"

lemma hyphen_split:
  assumes "CHR ''-'' \<notin> set n" and "CHR ''-'' \<notin> set n'" and "a @ ''-'' @ n = a' @ ''-'' @ n'"
  shows "a = a'"
proof -
  have last: "takeWhile (\<lambda>c. c \<noteq> CHR ''-'') (rev (a @ ''-'' @ n)) = rev n" if "CHR ''-'' \<notin> set n" for a n
    using that by (simp add: takeWhile_append)
  have "rev n = rev n'" using last [OF assms(1), of a] last [OF assms(2), of a'] unfolding assms(3) by simp
  then show ?thesis using assms(3) by simp
qed

definition with_processor :: "string \<Rightarrow> string list \<Rightarrow> pool \<Rightarrow> pool" where
  "with_processor key adjectives p = p\<lparr>pl_processors_ready := False, pl_adjectives := adjectives,
     pl_pool := dict_set key (processor_class p key) (pl_pool p),
     pl_processors_started := set_add key (pl_processors_started p), pl_available := set_add key (pl_available p)\<rparr>"

lemma new_processor_result:
  assumes "pool_env_ok env" and "pool_names_ok p"
  shows "pl_adjectives p = [] \<Longrightarrow> new_processor env p = (Raise KeyError, p\<lparr>pl_processors_ready := False\<rparr>)"
    and "pl_adjectives p \<noteq> [] \<Longrightarrow> \<exists>adj name. adj \<in> set (pl_adjectives p) \<and> CHR ''-'' \<notin> set name \<and> adj @ ''-'' @ name \<notin> keys_of p \<and>
      new_processor env p = (Return (), with_processor (adj @ ''-'' @ name) (remove1 adj (pl_adjectives p)) p)"
proof -
  show "pl_adjectives p = [] \<Longrightarrow> new_processor env p = (Raise KeyError, p\<lparr>pl_processors_ready := False\<rparr>)"
    by (simp add: new_processor_def py_defs new_friendly_name_def set_pop_def)
  assume "pl_adjectives p \<noteq> []"
  moreover from this have "pe_pop env (pl_adjectives p) \<in> set (pl_adjectives p)" using assms(1) by (simp add: pool_env_ok_def)
  moreover have "CHR ''-'' \<notin> set (pe_choice env (pl_adjectives p))" using assms(1) by (simp add: pool_env_ok_def)
  ultimately show "\<exists>adj name. adj \<in> set (pl_adjectives p) \<and> CHR ''-'' \<notin> set name \<and> adj @ ''-'' @ name \<notin> keys_of p \<and>
      new_processor env p = (Return (), with_processor (adj @ ''-'' @ name) (remove1 adj (pl_adjectives p)) p)"
    using assms(2) by (intro exI [of _ "pe_pop env (pl_adjectives p)"] exI [of _ "pe_choice env (pl_adjectives p)"])
      (auto simp: new_processor_def py_defs new_friendly_name_def set_pop_def with_processor_def processor_class_def pool_names_ok_def)
qed

lemma with_processor_keeps_inv:
  assumes "pool_inv env p" and "adj \<in> set (pl_adjectives p)" and "CHR ''-'' \<notin> set name" and "adj @ ''-'' @ name \<notin> keys_of p"
  shows "pool_inv env (with_processor (adj @ ''-'' @ name) (remove1 adj (pl_adjectives p)) p)"
proof -
  define key where "key = adj @ ''-'' @ name"
  define q where "q = with_processor key (remove1 adj (pl_adjectives p)) p"
  have fresh: "key \<notin> keys_of p" using assms(4) by (simp add: key_def)
  have keys: "keys_of q = insert key (keys_of p)" by (simp add: q_def with_processor_def keys_of_def)
  have "pool_sets_ok q"
    using assms(1) fresh by (auto simp: pool_inv_def pool_sets_ok_def keys) (auto simp: q_def with_processor_def)
  moreover have "pool_start_ok env q"
  proof -
    have start: "pool_start_ok env p" using assms(1) by (simp add: pool_inv_def)
    have "processor_key (processor_class p key) = key" by (simp add: processor_class_def)
    then have "\<forall>(k, a) \<in> set (pl_pool q). processor_key a = k"
      using start set_dict_set [of key "processor_class p key" "pl_pool p"] by (auto simp: pool_start_ok_def q_def with_processor_def)
    with start fresh show ?thesis
      unfolding pool_start_ok_def keys by (simp add: q_def with_processor_def)
  qed
  moreover have "pool_names_ok q"
  proof -
    have "adj' @ ''-'' @ name' \<noteq> key" if "adj' \<noteq> adj" "CHR ''-'' \<notin> set name'" for adj' name'
      using hyphen_split [OF that(2) assms(3)] that(1) by (auto simp: key_def)
    then show ?thesis using assms(1) by (auto simp: pool_inv_def pool_names_ok_def keys) (auto simp: q_def with_processor_def)
  qed
  ultimately show ?thesis by (simp add: pool_inv_def q_def key_def)
qed

lemma new_processor_keeps_inv:
  assumes "pool_env_ok env" and "pool_inv env p"
  shows "pool_inv env (snd (new_processor env p)) \<and> pool_total (snd (new_processor env p)) \<le> pool_total p + 1 \<and>
    pl_max_workers (snd (new_processor env p)) = pl_max_workers p"
proof (cases "pl_adjectives p = []")
  case True
  with new_processor_result(1) [of env p] assms show ?thesis
    by (simp add: pool_inv_def pool_sets_ok_def pool_start_ok_def pool_names_ok_def keys_of_def pool_total_def)
next
  case False
  then obtain adj name where new: "adj \<in> set (pl_adjectives p)" "CHR ''-'' \<notin> set name" "adj @ ''-'' @ name \<notin> keys_of p"
    "new_processor env p = (Return (), with_processor (adj @ ''-'' @ name) (remove1 adj (pl_adjectives p)) p)"
    using new_processor_result(2) [of env p] assms by (auto simp: pool_inv_def)
  have "pool_total (with_processor key rest p) \<le> pool_total p + 1" for key rest by (simp add: pool_total_def with_processor_def set_add_def)
  with with_processor_keeps_inv [OF assms(2) new(1-3)] new(4) show ?thesis by (simp add: with_processor_def)
qed

lemma new_processors_keep_inv:
  assumes "pool_env_ok env"
  shows "pool_inv env p \<Longrightarrow> pool_inv env (snd (py_for (\<lambda>_. new_processor env) xs p)) \<and>
    pool_total (snd (py_for (\<lambda>_. new_processor env) xs p)) \<le> pool_total p + length xs \<and>
    pl_max_workers (snd (py_for (\<lambda>_. new_processor env) xs p)) = pl_max_workers p"
proof (induction xs arbitrary: p)
  case (Cons x xs)
  obtain r q where q: "new_processor env p = (r, q)" by (cases "new_processor env p")
  have "pool_inv env q \<and> pool_total q \<le> pool_total p + 1 \<and> pl_max_workers q = pl_max_workers p"
    using new_processor_keeps_inv [OF assms Cons.prems] q by simp
  with Cons.IH [of q] q show ?case by (cases r) (auto simp: py_bind_def)
qed (simp add: py_return_def)

subsection \<open>Starting processors\<close>

text \<open>Starting processors changes neither which processors there are nor who has them.\<close>

definition frame :: "pool \<Rightarrow> string list \<times> string list \<times> int \<times> (string \<times> actor) list \<times> string list" where
  "frame p = (pl_available p, pl_acquired p, pl_max_workers p, pl_pool p, pl_adjectives p)"

lemma start_keeps_frame: "frame (snd (pool_start env p)) = frame p"
proof -
  have "keeps (\<lambda>q. frame q = frame p) (pool_start env)"
    unfolding pool_start_def wait_for_processors_started_def wait_for_get_addrs_def wait_for_serve_def request_addr_def serve_processor_def
    by (intro keeps_bind keeps_get keeps_read keeps_update keeps_map keeps_for keeps_return keeps_outcome conjI impI | simp add: frame_def split: if_split)+
  then show ?thesis by (auto dest: keepsD)
qed

lemma frame_inv: "frame q = frame p \<Longrightarrow> pool_sets_ok q = pool_sets_ok p \<and> pool_names_ok q = pool_names_ok p \<and> keys_of q = keys_of p"
  by (simp add: frame_def pool_sets_ok_def pool_names_ok_def keys_of_def)

lemma processors_started_result:
  assumes "pool_env_ok env" and "pool_start_ok env p" and "\<not> pl_processors_ready p"
  shows "case wait_for_processors_started env p of
      (Raise e, q) \<Rightarrow> q = p
    | (Return _, q) \<Rightarrow> pool_start_ok env q \<and> \<not> pl_processors_ready q \<and> pl_processors_started q = []"
proof -
  let ?coros = "map (\<lambda>key. case pe_start_up env key of Raise e \<Rightarrow> Raise e | Return _ \<Rightarrow> Return key) (pl_processors_started p)"
  show ?thesis
  proof (cases "wait_for env ?coros")
    case (Raise e)
    then show ?thesis by (simp add: wait_for_processors_started_def py_defs)
  next
    case (Return keys)
    have "set keys = set (pl_processors_started p)" using wait_for_mapped [where g = "\<lambda>key _. key", OF assms(1) Return] by auto
    with Return assms(2,3) show ?thesis
      by (auto simp: wait_for_processors_started_def py_defs pool_start_ok_def keys_of_def)
  qed
qed

lemma keys_fold_dict_set [simp]: "fst ` set (fold (\<lambda>(k, v). dict_set k v) kvs d) = fst ` set kvs \<union> fst ` set d"
  by (induction kvs arbitrary: d) (simp_all add: case_prod_unfold)

lemma map_of_fold_dict_set:
  "map_of (fold (\<lambda>(k, v). dict_set k v) kvs d) k = Some v \<Longrightarrow> (k, v) \<in> set kvs \<or> map_of d k = Some v"
proof (induction kvs arbitrary: d)
  case (Cons kv kvs)
  obtain k' v' where kv: "kv = (k', v')" by (cases kv)
  from Cons.IH [of "dict_set k' v' d"] Cons.prems show ?case by (auto simp: kv split: if_splits)
qed simp

lemma request_addrs:
  assumes "\<forall>(k, a) \<in> set (pl_pool p). processor_key a = k" and "set keys \<subseteq> keys_of p"
  shows "py_map (request_addr env) keys p =
    (Return (map (\<lambda>key. case pe_addr env key of Raise e \<Rightarrow> Raise e | Return addr \<Rightarrow> Return (key, addr)) keys),
     p\<lparr>pl_need_serving := fold set_add keys (pl_need_serving p)\<rparr>)"
  using assms
proof (induction keys arbitrary: p)
  case (Cons key keys)
  obtain a where a: "dict_get (pl_pool p) key = Return a" "processor_key a = key"
    using dict_get_known [of key "pl_pool p"] Cons.prems by (auto simp: keys_of_def)
  from Cons.IH [of "p\<lparr>pl_need_serving := set_add key (pl_need_serving p)\<rparr>"] Cons.prems a show ?case
    by (simp add: request_addr_def py_defs keys_of_def split: outcome.split)
qed (simp add: py_defs)

lemma get_addrs_result:
  assumes "pool_env_ok env" and "pool_start_ok env p" and "\<not> pl_processors_ready p" and "pl_processors_started p = []"
  shows "case wait_for_get_addrs env p of
      (Raise e, q) \<Rightarrow> pool_start_ok env q
    | (Return _, q) \<Rightarrow> pool_start_ok env q \<and> \<not> pl_processors_ready q \<and> pl_processors_started q = [] \<and> pl_need_address q = []"
proof -
  let ?refs = "map (\<lambda>key. case pe_addr env key of Raise e \<Rightarrow> Raise e | Return addr \<Rightarrow> Return (key, addr)) (pl_need_address p)"
  have refs: "py_map (request_addr env) (pl_need_address p) p =
    (Return ?refs, p\<lparr>pl_need_serving := fold set_add (pl_need_address p) (pl_need_serving p)\<rparr>)"
    by (rule request_addrs) (use assms(2) in \<open>auto simp: pool_start_ok_def\<close>)
  show ?thesis
  proof (cases "wait_for env ?refs")
    case (Raise e)
    with refs assms(2-4) show ?thesis by (auto simp: wait_for_get_addrs_def py_defs pool_start_ok_def keys_of_def)
  next
    case (Return addrs)
    have addrs: "fst ` set addrs = set (pl_need_address p)" "\<forall>(k, a) \<in> set addrs. pe_addr env k = Return a"
      using wait_for_mapped [where g = Pair, OF assms(1) Return] by force+
    define q where "q = snd (wait_for_get_addrs env p)"
    have q: "q = p\<lparr>pl_need_serving := fold set_add (pl_need_address p) (pl_need_serving p),
        pl_addrs := fold (\<lambda>(key, addr). dict_set key addr) addrs (pl_addrs p), pl_need_address := []\<rparr>"
      using Return refs by (simp add: q_def wait_for_get_addrs_def py_defs)
    have "\<forall>k a. map_of (pl_addrs q) k = Some a \<longrightarrow> pe_addr env k = Return a"
      using assms(2) addrs(2) map_of_fold_dict_set [of addrs "pl_addrs p"] by (fastforce simp: q pool_start_ok_def)
    then have "pool_start_ok env q"
      using assms(2-4) addrs(1) by (auto simp: q pool_start_ok_def keys_of_def)
    with Return refs assms(3,4) q show ?thesis by (simp add: wait_for_get_addrs_def py_defs)
  qed
qed

lemma serve_processors:
  assumes "\<forall>(k, a) \<in> set (pl_pool p). processor_key a = k" and "set keys \<subseteq> keys_of p"
  shows "py_for serve_processor keys p = (Return (), p\<lparr>pl_serve_calls := pl_serve_calls p @ keys\<rparr>)"
  using assms
proof (induction keys arbitrary: p)
  case (Cons key keys)
  obtain a where a: "dict_get (pl_pool p) key = Return a" "processor_key a = key"
    using dict_get_known [of key "pl_pool p"] Cons.prems by (auto simp: keys_of_def)
  from Cons.IH [of "p\<lparr>pl_serve_calls := pl_serve_calls p @ [key]\<rparr>"] Cons.prems a show ?case
    by (simp add: serve_processor_def py_defs keys_of_def)
qed (simp add: py_defs)

lemma serve_result:
  assumes "pool_start_ok env p" and "pl_processors_started p = []" and "pl_need_address p = []"
  shows "\<exists>q. wait_for_serve p = (Return (), q) \<and> pool_start_ok env (q\<lparr>pl_processors_ready := True\<rparr>)"
proof -
  have "py_for serve_processor (pl_need_serving p) p = (Return (), p\<lparr>pl_serve_calls := pl_serve_calls p @ pl_need_serving p\<rparr>)"
    by (rule serve_processors) (use assms(1) in \<open>auto simp: pool_start_ok_def\<close>)
  with assms show ?thesis by (auto simp: wait_for_serve_def py_defs pool_start_ok_def keys_of_def)
qed

lemma start_keeps_inv:
  assumes "pool_env_ok env" and "pool_inv env p"
  shows "pool_inv env (snd (pool_start env p)) \<and> (fst (pool_start env p) = Return () \<longrightarrow> pl_processors_ready (snd (pool_start env p)))"
proof -
  have start: "pool_start_ok env p" using assms(2) by (simp add: pool_inv_def)
  have "pool_start_ok env (snd (pool_start env p)) \<and> (fst (pool_start env p) = Return () \<longrightarrow> pl_processors_ready (snd (pool_start env p)))"
  proof (cases "pl_processors_ready p")
    case True
    with start show ?thesis by (simp add: pool_start_def py_defs)
  next
    case False
    obtain r1 p1 where p1: "wait_for_processors_started env p = (r1, p1)" by (cases "wait_for_processors_started env p")
    obtain r2 p2 where p2: "wait_for_get_addrs env p1 = (r2, p2)" by (cases "wait_for_get_addrs env p1")
    note first = processors_started_result [OF assms(1) start False]
    show ?thesis
    proof (cases r1)
      case Raise
      with p1 first start False show ?thesis by (simp add: pool_start_def py_defs)
    next
      case Return
      with p1 first have ok1: "pool_start_ok env p1" "\<not> pl_processors_ready p1" "pl_processors_started p1 = []" by simp_all
      note second = get_addrs_result [OF assms(1) ok1]
      show ?thesis
      proof (cases r2)
        case (Raise e)
        with p1 p2 \<open>r1 = Return _\<close> second False show ?thesis by (simp add: pool_start_def py_defs)
      next
        case (Return u)
        with p2 second have "pool_start_ok env p2" "pl_processors_started p2 = []" "pl_need_address p2 = []" by simp_all
        from serve_result [OF this] obtain q where "wait_for_serve p2 = (Return (), q)" "pool_start_ok env (q\<lparr>pl_processors_ready := True\<rparr>)"
          by blast
        with p1 p2 \<open>r1 = Return _\<close> Return False show ?thesis by (simp add: pool_start_def py_defs)
      qed
    qed
  qed
  then show ?thesis using frame_inv [OF start_keeps_frame [of env p]] assms(2) by (simp add: pool_inv_def)
qed

subsection \<open>Calls of the pool\<close>

definition pool_bound :: "pool \<Rightarrow> bool" where
  "pool_bound p \<longleftrightarrow> int (pool_total p) \<le> pl_max_workers p"

definition pool_good :: "pool_env \<Rightarrow> pool \<Rightarrow> bool" where
  "pool_good env p \<longleftrightarrow> pool_inv env p \<and> pool_bound p"

lemma move_between_sets:
  assumes "pool_good env p" and "set av \<union> set ac = keys_of p" and "distinct av" and "distinct ac" and "set av \<inter> set ac = {}"
  shows "pool_good env (p\<lparr>pl_available := av, pl_acquired := ac\<rparr>)"
proof -
  let ?q = "p\<lparr>pl_available := av, pl_acquired := ac\<rparr>"
  have "card (keys_of p) = length av + length ac"
    using assms(2-5) by (metis card_Un_disjoint distinct_card List.finite_set)
  moreover have "card (keys_of p) = pool_total p"
    using assms(1) unfolding pool_good_def pool_inv_def pool_sets_ok_def pool_total_def by (metis card_Un_disjoint distinct_card List.finite_set)
  ultimately have "pool_bound ?q" using assms(1) by (simp add: pool_good_def pool_bound_def pool_total_def)
  moreover have "keys_of ?q = keys_of p" by (simp add: keys_of_def)
  moreover from this have "pool_sets_ok ?q" using assms(2-5) by (simp add: pool_sets_ok_def)
  moreover have "pool_start_ok env ?q = pool_start_ok env p" "pool_names_ok ?q = pool_names_ok p"
    by (simp_all add: pool_start_ok_def pool_names_ok_def keys_of_def)
  ultimately show ?thesis using assms(1) by (simp add: pool_good_def pool_inv_def)
qed

lemma take_available_result:
  assumes "pool_env_ok env" and "pool_good env p"
  shows "pl_available p = [] \<Longrightarrow> take_available env p = (Raise KeyError, p)"
    and "pl_available p \<noteq> [] \<Longrightarrow> \<exists>key. key \<in> set (pl_available p) \<and> pool_good env (snd (take_available env p)) \<and>
      take_available env p = (Return key, p\<lparr>pl_available := remove1 key (pl_available p), pl_acquired := set_add key (pl_acquired p)\<rparr>)"
proof -
  show "pl_available p = [] \<Longrightarrow> take_available env p = (Raise KeyError, p)" by (simp add: take_available_def set_pop_def)
  assume some: "pl_available p \<noteq> []"
  define key where "key = pe_pop env (pl_available p)"
  have key: "key \<in> set (pl_available p)" using assms(1) some by (simp add: pool_env_ok_def key_def)
  have "take_available env p = (Return key, p\<lparr>pl_available := remove1 key (pl_available p), pl_acquired := set_add key (pl_acquired p)\<rparr>)"
    using some by (simp add: take_available_def set_pop_def key_def)
  moreover have "pool_good env (p\<lparr>pl_available := remove1 key (pl_available p), pl_acquired := set_add key (pl_acquired p)\<rparr>)"
    by (rule move_between_sets [OF assms(2)]) (use assms(2) key in \<open>auto simp: pool_good_def pool_inv_def pool_sets_ok_def\<close>)
  ultimately show "\<exists>key. key \<in> set (pl_available p) \<and> pool_good env (snd (take_available env p)) \<and>
      take_available env p = (Return key, p\<lparr>pl_available := remove1 key (pl_available p), pl_acquired := set_add key (pl_acquired p)\<rparr>)"
    using key by auto
qed

lemma take_available_keeps: "pool_env_ok env \<Longrightarrow> keeps (pool_good env) (take_available env)"
  unfolding keeps_def using take_available_result [of env] by (metis snd_conv)

lemma release_keeps: "keeps (pool_good env) (release keys)"
proof -
  have "pool_good env (snd (release_one key p))" if good: "pool_good env p" for key p
  proof (cases "key \<in> set (pl_acquired p)")
    case True
    have "pool_good env (p\<lparr>pl_available := set_add key (pl_available p), pl_acquired := remove1 key (pl_acquired p)\<rparr>)"
      by (rule move_between_sets [OF good]) (use good True in \<open>auto simp: pool_good_def pool_inv_def pool_sets_ok_def\<close>)
    with True show ?thesis by (simp add: release_one_def)
  qed (use good in \<open>simp add: release_one_def\<close>)
  then show ?thesis unfolding release_def by (intro keeps_for) (simp add: keeps_def)
qed

lemma start_keeps: "pool_env_ok env \<Longrightarrow> keeps (pool_good env) (pool_start env)"
  using start_keeps_inv start_keeps_frame by (simp add: keeps_def pool_good_def pool_bound_def pool_total_def frame_def)

text \<open>Making processors and starting them keeps the bound when as many may still be made.\<close>

lemma make_processors_keep:
  assumes "pool_env_ok env" and "pool_good env p" and "n \<le> pl_max_workers p - int (pool_total p)"
  shows "pool_good env (snd (make_processors env n p))"
proof (cases "0 < n")
  case True
  obtain r q where q: "py_for (\<lambda>_. new_processor env) [0..<nat n] p = (r, q)" by (cases "py_for (\<lambda>_. new_processor env) [0..<nat n] p")
  have "pool_good env q"
    using new_processors_keep_inv [OF assms(1), of p "[0..<nat n]"] assms(2,3) q True by (simp add: pool_good_def pool_bound_def) linarith
  with q True keepsD [OF start_keeps [OF assms(1)]] show ?thesis by (cases r) (simp_all add: make_processors_def py_bind_def)
qed (use assms(2) in \<open>simp add: make_processors_def py_return_def\<close>)

lemma acquire_keeps:
  assumes "pool_env_ok env"
  shows "keeps (pool_good env) (acquire env need)"
proof -
  have take: "keeps (pool_good env) (take_processors env need)"
    unfolding take_processors_def by (intro keeps_bind keeps_map keeps_read keeps_return take_available_keeps [OF assms])
  have "pool_good env (snd (acquire env need p))" if good: "pool_good env p" for p
  proof (cases "pl_max_workers p - int (pool_total p) < int need - int (length (pl_available p))")
    case True
    with good show ?thesis by (simp add: acquire_def pool_total_def)
  next
    case False
    let ?n = "int need - int (length (pl_available p))"
    obtain r q where q: "make_processors env ?n p = (r, q)" by (cases "make_processors env ?n p")
    have "pool_good env q" using make_processors_keep [OF assms good, of ?n] False q by simp
    with False q keepsD [OF take] show ?thesis by (cases r) (simp_all add: acquire_def pool_total_def py_bind_def)
  qed
  then show ?thesis by (simp add: keeps_def)
qed

datatype pool_call = CallStart | CallAcquire nat | CallRelease "string list" | CallAllDone

fun after_call :: "pool_env \<Rightarrow> pool_call \<Rightarrow> pool \<Rightarrow> pool" where
  "after_call env CallStart p = snd (pool_start env p)"
| "after_call env (CallAcquire need) p = snd (acquire env need p)"
| "after_call env (CallRelease keys) p = snd (release keys p)"
| "after_call env CallAllDone p = snd (pool_all_done env p)"

inductive pool_step :: "pool_env \<Rightarrow> pool \<Rightarrow> pool \<Rightarrow> bool" for env where
  "pool_step env p (after_call env c p)"

definition pool_initial :: "pool_env \<Rightarrow> pool \<Rightarrow> bool" where
  "pool_initial env p \<longleftrightarrow> (\<exists>min_workers max_workers use_streaming adjectives.
     min_workers \<le> max_workers \<and> 0 \<le> max_workers \<and> distinct adjectives \<and>
     p = snd (pool_new env min_workers max_workers use_streaming adjectives))"

lemma pool_new_good:
  assumes "pool_env_ok env" and "pool_initial env p"
  shows "pool_good env p"
proof -
  obtain min_workers max_workers use_streaming adjectives where new: "min_workers \<le> max_workers" "0 \<le> max_workers" "distinct adjectives"
    "p = snd (pool_new env min_workers max_workers use_streaming adjectives)" using assms(2) by (auto simp: pool_initial_def)
  define empty where "empty = \<lparr>pl_min_workers = min_workers, pl_max_workers = max_workers, pl_use_streaming = use_streaming, pl_pool = [],
    pl_addrs = [], pl_processors_started = [], pl_processors_ready = False, pl_need_address = [], pl_need_serving = [],
    pl_acquired = [], pl_available = [], pl_serve_calls = [], pl_adjectives = adjectives\<rparr>"
  have "pool_inv env empty" "pool_total empty = 0" "pl_max_workers empty = max_workers"
    using new(3) by (simp_all add: empty_def pool_inv_def pool_sets_ok_def pool_start_ok_def pool_names_ok_def keys_of_def pool_total_def)
  with new_processors_keep_inv [OF assms(1), of empty "[0..<nat min_workers]"] new(1,2) show ?thesis
    by (simp add: new(4) pool_new_def pool_good_def pool_bound_def flip: empty_def) linarith
qed

lemma pool_step_good:
  assumes "pool_env_ok env" and "pool_good env p" and "pool_step env p q"
  shows "pool_good env q"
proof -
  obtain c where "q = after_call env c p" using assms(3) by (auto elim: pool_step.cases)
  moreover have all_done: "keeps (pool_good env) (pool_all_done env)" unfolding pool_all_done_def by (intro keeps_bind keeps_read keeps_return)
  ultimately show ?thesis
    using keepsD [OF start_keeps [OF assms(1)] assms(2)] keepsD [OF acquire_keeps [OF assms(1)] assms(2)]
      keepsD [OF release_keeps assms(2)] keepsD [OF all_done assms(2)] by (cases c) simp_all
qed

interpretation pool_system: invariant_system "\<lambda>p. pool_env_ok env \<and> pool_initial env p" "pool_step env" "\<lambda>p. pool_env_ok env \<and> pool_good env p" for env
  by unfold_locales (auto intro: pool_new_good pool_step_good)

text \<open>
  C25: the pool never hands a processor out twice and never grows beyond its maximum.  After any
  sequence of calls, successful or not, every processor is either available or acquired and not
  both, there are at most as many as allowed, every processor is told to serve at most once, and
  when the pool is ready every processor has its address and was told to serve.
\<close>

theorem pool_never_overcommits:
  assumes "pool_env_ok env" and "pool_initial env p" and "(pool_step env)\<^sup>*\<^sup>* p q"
  shows "distinct (pl_available q @ pl_acquired q) \<and> set (pl_available q @ pl_acquired q) = fst ` set (pl_pool q) \<and>
    int (length (pl_available q @ pl_acquired q)) \<le> pl_max_workers q \<and> distinct (pl_serve_calls q) \<and>
    (pl_processors_ready q \<longrightarrow> set (pl_serve_calls q) = fst ` set (pl_pool q) \<and> fst ` set (pl_pool q) \<subseteq> fst ` set (pl_addrs q))"
proof -
  have "pool_good env q" using pool_system.inv_reachable [OF conjI [OF assms(1,2)] assms(3)] by simp
  then show ?thesis
    by (auto simp: pool_good_def pool_inv_def pool_sets_ok_def pool_start_ok_def pool_bound_def pool_total_def keys_of_def)
qed

text \<open>A pool with up to three processors whose processors all answer.\<close>

definition small_pool_env :: pool_env where
  "small_pool_env = \<lparr>pe_pop = hd, pe_choice = (\<lambda>_. ''cat''), pe_done = (\<lambda>n. [0..<n]), pe_start_up = (\<lambda>_. Return ()),
     pe_addr = (\<lambda>key. Return (key @ '':1'')), pe_all_done = (\<lambda>_. Return ())\<rparr>"

lemma small_pool_env_ok: "pool_env_ok small_pool_env"
  by (auto simp: pool_env_ok_def small_pool_env_def)

theorem pool_never_overcommits_witness:
  "fst (acquire small_pool_env 2 (snd (pool_new small_pool_env 1 3 False [''red'', ''blue'', ''old'']))) =
     Return ([DFRayProcessor ''red-cat'', DFRayProcessor ''blue-cat''], [''red-cat'', ''blue-cat''], [''red-cat:1'', ''blue-cat:1'']) \<and>
   distinct (pl_available (snd (acquire small_pool_env 2 (snd (pool_new small_pool_env 1 3 False [''red'', ''blue'', ''old''])))) @
     pl_acquired (snd (acquire small_pool_env 2 (snd (pool_new small_pool_env 1 3 False [''red'', ''blue'', ''old''])))))"
proof -
  define p where "p = snd (pool_new small_pool_env 1 3 False [''red'', ''blue'', ''old''])"
  have "fst (acquire small_pool_env 2 p) =
     Return ([DFRayProcessor ''red-cat'', DFRayProcessor ''blue-cat''], [''red-cat'', ''blue-cat''], [''red-cat:1'', ''blue-cat:1''])"
    unfolding p_def by code_simp
  moreover have initial: "pool_initial small_pool_env p" unfolding pool_initial_def p_def
    by (intro exI [of _ 1] exI [of _ 3] exI [of _ False] exI [of _ "[''red'', ''blue'', ''old'']"]) simp
  moreover have steps: "(pool_step small_pool_env)\<^sup>*\<^sup>* p (snd (acquire small_pool_env 2 p))"
    using pool_step.intros [of small_pool_env p "CallAcquire 2"] by (simp add: r_into_rtranclp)
  note pool_never_overcommits [OF small_pool_env_ok initial steps]
  ultimately show ?thesis unfolding p_def [symmetric] by (elim conjE) (intro conjI)
qed

subsection \<open>Acquiring processors\<close>

text \<open>An environment in which every processor starts and has an address.\<close>

definition answering :: "pool_env \<Rightarrow> (string \<Rightarrow> string) \<Rightarrow> bool" where
  "answering env addr \<longleftrightarrow> pool_env_ok env \<and> (\<forall>key. pe_start_up env key = Return ()) \<and> (\<forall>key. pe_addr env key = Return (addr key))"

lemma new_processor_succeeds:
  assumes "pool_env_ok env" and "pool_inv env p" and "pl_adjectives p \<noteq> []"
  shows "\<exists>q. new_processor env p = (Return (), q) \<and> pool_inv env q \<and> length (pl_available q) = length (pl_available p) + 1 \<and>
    pl_acquired q = pl_acquired p \<and> pl_max_workers q = pl_max_workers p \<and> length (pl_adjectives q) + 1 = length (pl_adjectives p) \<and>
    \<not> pl_processors_ready q \<and> pl_processors_started q \<noteq> []"
proof -
  obtain adj name where new: "adj \<in> set (pl_adjectives p)" "CHR ''-'' \<notin> set name" "adj @ ''-'' @ name \<notin> keys_of p"
    "new_processor env p = (Return (), with_processor (adj @ ''-'' @ name) (remove1 adj (pl_adjectives p)) p)"
    using new_processor_result(2) [of env p] assms by (auto simp: pool_inv_def)
  have "adj @ ''-'' @ name \<notin> set (pl_available p)" using new(3) assms(2) by (auto simp: pool_inv_def pool_sets_ok_def)
  moreover have "length (remove1 adj (pl_adjectives p)) + 1 = length (pl_adjectives p)"
    using new(1) length_pos_if_in_set [OF new(1)] by (simp add: length_remove1)
  ultimately show ?thesis
    using new(4) with_processor_keeps_inv [OF assms(2) new(1-3)] by (auto simp: with_processor_def set_add_def)
qed

lemma new_processors_succeed:
  assumes "pool_env_ok env"
  shows "pool_inv env p \<Longrightarrow> length xs \<le> length (pl_adjectives p) \<Longrightarrow>
    \<exists>q. py_for (\<lambda>_. new_processor env) xs p = (Return (), q) \<and> pool_inv env q \<and> length (pl_available q) = length (pl_available p) + length xs \<and>
      pl_acquired q = pl_acquired p \<and> pl_max_workers q = pl_max_workers p \<and>
      (xs \<noteq> [] \<longrightarrow> \<not> pl_processors_ready q \<and> pl_processors_started q \<noteq> [])"
proof (induction xs arbitrary: p)
  case (Cons x xs)
  have "pl_adjectives p \<noteq> []" using Cons.prems(2) by auto
  from new_processor_succeeds [OF assms Cons.prems(1) this] obtain p1 where p1: "new_processor env p = (Return (), p1)" "pool_inv env p1"
    "length (pl_available p1) = length (pl_available p) + 1" "pl_acquired p1 = pl_acquired p" "pl_max_workers p1 = pl_max_workers p"
    "length (pl_adjectives p1) + 1 = length (pl_adjectives p)" "\<not> pl_processors_ready p1" "pl_processors_started p1 \<noteq> []" by blast
  from Cons.IH [OF p1(2)] Cons.prems(2) p1(6) obtain q where "py_for (\<lambda>_. new_processor env) xs p1 = (Return (), q)" "pool_inv env q"
    "length (pl_available q) = length (pl_available p1) + length xs" "pl_acquired q = pl_acquired p1" "pl_max_workers q = pl_max_workers p1"
    "xs \<noteq> [] \<longrightarrow> \<not> pl_processors_ready q \<and> pl_processors_started q \<noteq> []" by auto
  with p1 show ?case by (cases xs) (auto simp: py_bind_def py_return_def)
qed (simp add: py_return_def)

lemma start_succeeds:
  assumes "answering env addr" and "pool_inv env p" and "\<not> pl_processors_ready p \<longrightarrow> pl_processors_started p \<noteq> []"
  shows "fst (pool_start env p) = Return ()"
proof (cases "pl_processors_ready p")
  case True
  then show ?thesis by (simp add: pool_start_def py_defs)
next
  case False
  have env: "pool_env_ok env" "\<And>key. pe_start_up env key = Return ()" "\<And>key. pe_addr env key = Return (addr key)"
    using assms(1) by (auto simp: answering_def)
  have start: "pool_start_ok env p" using assms(2) by (simp add: pool_inv_def)
  obtain keys where keys: "wait_for env (map Return (pl_processors_started p)) = Return keys" "mset keys = mset (pl_processors_started p)"
    using wait_for_succeeds [OF env(1) refl, of "pl_processors_started p"] assms(3) False by auto
  then have p1: "wait_for_processors_started env p =
      (Return (), p\<lparr>pl_need_address := fold set_add keys (pl_need_address p), pl_processors_started := []\<rparr>)"
    by (simp add: wait_for_processors_started_def py_defs env(2) cong: map_cong)
  define q where "q = p\<lparr>pl_need_address := fold set_add keys (pl_need_address p), pl_processors_started := []\<rparr>"
  have ok1: "pool_start_ok env q" "\<not> pl_processors_ready q" "pl_processors_started q = []"
    using processors_started_result [OF env(1) start False] p1 by (simp_all add: q_def)
  have "set keys = set (pl_processors_started p)" using keys(2) by (metis set_mset_mset)
  then have "set (pl_need_address q) \<noteq> {}" using assms(3) False by (simp add: q_def)
  then have "pl_need_address q \<noteq> []" by auto
  then obtain addrs where addrs: "wait_for env (map (\<lambda>key. Return (key, addr key)) (pl_need_address q)) = Return addrs"
    using wait_for_succeeds [OF env(1), of _ "map (\<lambda>key. (key, addr key)) (pl_need_address q)"] by (auto simp: comp_def)
  have "py_map (request_addr env) (pl_need_address q) q = (Return (map (\<lambda>key. Return (key, addr key)) (pl_need_address q)),
      q\<lparr>pl_need_serving := fold set_add (pl_need_address q) (pl_need_serving q)\<rparr>)"
    using request_addrs [of q "pl_need_address q" env] ok1(1) by (simp add: env(3) pool_start_ok_def) blast
  with addrs have "fst (wait_for_get_addrs env q) = Return ()" by (simp add: wait_for_get_addrs_def py_defs)
  then obtain q2 where q2: "wait_for_get_addrs env q = (Return (), q2)" by (cases "wait_for_get_addrs env q") simp
  with get_addrs_result [OF env(1) ok1] have "pool_start_ok env q2" "pl_processors_started q2 = []" "pl_need_address q2 = []" by simp_all
  from serve_result [OF this] obtain q3 where "wait_for_serve q2 = (Return (), q3)" by blast
  with False p1 q2 show ?thesis by (simp add: pool_start_def py_defs flip: q_def)
qed

lemma take_available_all:
  assumes "pool_env_ok env"
  shows "pool_good env p \<Longrightarrow> length xs \<le> length (pl_available p) \<Longrightarrow>
    \<exists>keys av ac. py_map (\<lambda>_. take_available env) xs p = (Return keys, p\<lparr>pl_available := av, pl_acquired := ac\<rparr>) \<and>
      length keys = length xs \<and> distinct keys \<and> set keys \<subseteq> set (pl_available p) \<and> set av = set (pl_available p) - set keys \<and>
      set ac = set (pl_acquired p) \<union> set keys \<and> pool_good env (p\<lparr>pl_available := av, pl_acquired := ac\<rparr>)"
proof (induction xs arbitrary: p)
  case Nil
  then show ?case by (intro exI [of _ "[]"] exI [of _ "pl_available p"] exI [of _ "pl_acquired p"]) (simp add: py_return_def)
next
  case (Cons x xs)
  have "pl_available p \<noteq> []" using Cons.prems(2) by auto
  from take_available_result(2) [OF assms Cons.prems(1) this] obtain key q where key: "key \<in> set (pl_available p)" "pool_good env q"
    "take_available env p = (Return key, q)" "q = p\<lparr>pl_available := remove1 key (pl_available p), pl_acquired := set_add key (pl_acquired p)\<rparr>"
    by auto
  have "length xs \<le> length (pl_available q)" using Cons.prems(2) key(1,4) by (simp add: length_remove1)
  from Cons.IH [OF key(2) this] obtain keys av ac where rest: "py_map (\<lambda>_. take_available env) xs q = (Return keys, q\<lparr>pl_available := av, pl_acquired := ac\<rparr>)"
    "length keys = length xs" "distinct keys" "set keys \<subseteq> set (pl_available q)" "set av = set (pl_available q) - set keys"
    "set ac = set (pl_acquired q) \<union> set keys" "pool_good env (q\<lparr>pl_available := av, pl_acquired := ac\<rparr>)" by blast
  have same: "q\<lparr>pl_available := av, pl_acquired := ac\<rparr> = p\<lparr>pl_available := av, pl_acquired := ac\<rparr>" by (simp add: key(4))
  have "distinct (pl_available p)" using Cons.prems(1) by (simp add: pool_good_def pool_inv_def pool_sets_ok_def)
  then have av: "set (pl_available q) = set (pl_available p) - {key}" by (simp add: key(4))
  have "py_map (\<lambda>_. take_available env) (x # xs) p = (Return (key # keys), p\<lparr>pl_available := av, pl_acquired := ac\<rparr>)"
    using key(3) rest(1) same by (simp add: py_bind_def py_return_def)
  moreover have "length (key # keys) = length (x # xs)" "distinct (key # keys)" "set (key # keys) \<subseteq> set (pl_available p)"
    "set av = set (pl_available p) - set (key # keys)" "set ac = set (pl_acquired p) \<union> set (key # keys)"
    using rest(2-6) av key(1,4) by auto
  ultimately show ?case using rest(7) unfolding same
    by (intro exI [of _ "key # keys"] exI [of _ av] exI [of _ ac] conjI)
qed

lemma lookup_all: "(\<And>k. k \<in> set keys \<Longrightarrow> dict_get (d p) k = Return (f k)) \<Longrightarrow>
    py_map (\<lambda>key p. (dict_get (d p) key, p)) keys p = (Return (map f keys), p)"
  by (induction keys) (simp_all add: py_bind_def py_return_def)

lemma take_processors_succeeds:
  assumes "answering env addr" and "pool_good env p" and "pl_processors_ready p" and "need \<le> length (pl_available p)"
  shows "\<exists>processors keys av ac. take_processors env need p = (Return (processors, keys, map addr keys), p\<lparr>pl_available := av, pl_acquired := ac\<rparr>) \<and>
    map processor_key processors = keys \<and> length keys = need \<and> distinct keys \<and> set keys \<subseteq> set (pl_available p) \<and>
    set ac = set (pl_acquired p) \<union> set keys \<and> pool_good env (p\<lparr>pl_available := av, pl_acquired := ac\<rparr>)"
proof -
  have env: "pool_env_ok env" using assms(1) by (simp add: answering_def)
  have "length [0..<need] \<le> length (pl_available p)" using assms(4) by simp
  from take_available_all [OF env assms(2) this] obtain keys av ac where
    take: "py_map (\<lambda>_. take_available env) [0..<need] p = (Return keys, p\<lparr>pl_available := av, pl_acquired := ac\<rparr>)"
    "length keys = length [0..<need]" "distinct keys" "set keys \<subseteq> set (pl_available p)" "set ac = set (pl_acquired p) \<union> set keys"
    "pool_good env (p\<lparr>pl_available := av, pl_acquired := ac\<rparr>)" by blast
  define q where "q = p\<lparr>pl_available := av, pl_acquired := ac\<rparr>"
  have known: "set keys \<subseteq> fst ` set (pl_pool q)" using take(4) assms(2) by (auto simp: pool_good_def pool_inv_def pool_sets_ok_def keys_of_def q_def)
  have start: "pool_start_ok env q" "pl_processors_ready q" using take(6) assms(3) by (simp_all add: pool_good_def pool_inv_def q_def)
  define actor_of where "actor_of key = the (map_of (pl_pool q) key)" for key
  have actor: "dict_get (pl_pool q) key = Return (actor_of key) \<and> processor_key (actor_of key) = key" if "key \<in> set keys" for key
  proof -
    from dict_get_known [OF subsetD [OF known that]] obtain a where
      a: "dict_get (pl_pool q) key = Return a" "(key, a) \<in> set (pl_pool q)" by blast
    moreover have "actor_of key = a" using a(1) by (auto simp: actor_of_def dict_get_def split: option.splits)
    moreover have "\<forall>(k, a) \<in> set (pl_pool q). processor_key a = k" using start(1) by (simp add: pool_start_ok_def)
    from bspec [OF this a(2)] have "processor_key a = key" by simp
    ultimately show ?thesis by simp
  qed
  have address: "dict_get (pl_addrs q) key = Return (addr key)" if "key \<in> set keys" for key
  proof -
    have "key \<in> fst ` set (pl_addrs q)" using that known start by (auto simp: pool_start_ok_def keys_of_def)
    then obtain a where "map_of (pl_addrs q) key = Some a" by (metis map_of_eq_None_iff option.exhaust)
    moreover from this have "pe_addr env key = Return a" using start(1) by (auto simp: pool_start_ok_def)
    ultimately show ?thesis using assms(1) by (simp add: dict_get_def answering_def)
  qed
  have "py_map (\<lambda>_. take_available env) [0..<need] p = (Return keys, q)" unfolding q_def by (rule take(1))
  moreover have "py_map (\<lambda>key p. (dict_get (pl_pool p) key, p)) keys q = (Return (map actor_of keys), q)"
    by (rule lookup_all) (simp add: actor)
  moreover have "py_map (\<lambda>key p. (dict_get (pl_addrs p) key, p)) keys q = (Return (map addr keys), q)"
    by (rule lookup_all) (simp add: address)
  ultimately have "take_processors env need p = (Return (map actor_of keys, keys, map addr keys), q)"
    using assms(4) by (simp add: take_processors_def py_bind_def py_return_def)
  moreover have "map processor_key (map actor_of keys) = keys" using actor by (simp add: map_idI)
  moreover have "length keys = need" using take(2) by simp
  ultimately show ?thesis using take(3-6) unfolding q_def
    by (intro exI [of _ "map actor_of keys"] exI [of _ keys] exI [of _ av] exI [of _ ac] conjI)
qed

lemma make_processors_succeeds:
  assumes "answering env addr" and "pool_good env p" and "pl_processors_ready p" and "n \<le> pl_max_workers p - int (pool_total p)"
    and "nat n \<le> length (pl_adjectives p)"
  shows "\<exists>q. make_processors env n p = (Return (), q) \<and> pool_good env q \<and> pl_processors_ready q \<and>
    length (pl_available q) = length (pl_available p) + nat n \<and> pl_acquired q = pl_acquired p \<and> pl_max_workers q = pl_max_workers p"
proof (cases "0 < n")
  case True
  have env: "pool_env_ok env" using assms(1) by (simp add: answering_def)
  have inv: "pool_inv env p" using assms(2) by (simp add: pool_good_def)
  obtain q where q: "py_for (\<lambda>_. new_processor env) [0..<nat n] p = (Return (), q)" "pool_inv env q"
    "length (pl_available q) = length (pl_available p) + nat n" "pl_acquired q = pl_acquired p" "pl_max_workers q = pl_max_workers p"
    "\<not> pl_processors_ready q" "pl_processors_started q \<noteq> []"
    using new_processors_succeed [OF env inv, of "[0..<nat n]"] assms(5) True by auto
  obtain q2 where q2: "pool_start env q = (Return (), q2)"
    using start_succeeds [OF assms(1) q(2)] q(7) by (cases "pool_start env q") simp
  have "frame q2 = frame q" "pool_inv env q2 \<and> pl_processors_ready q2"
    using start_keeps_frame [of env q] start_keeps_inv [OF env q(2)] q2 by simp_all
  moreover have "pool_bound q2" using make_processors_keep [OF env assms(2,4)] True q(1) q2
    by (simp add: make_processors_def py_bind_def pool_good_def)
  ultimately show ?thesis using True q q2 by (simp add: make_processors_def py_bind_def pool_good_def frame_def)
qed (use assms in \<open>simp add: make_processors_def py_return_def\<close>)

lemma acquire_gives:
  assumes "answering env addr" and "pool_good env p" and "pl_processors_ready p"
    and "int need + int (length (pl_acquired p)) \<le> pl_max_workers p" and "need \<le> length (pl_available p) + length (pl_adjectives p)"
  shows "\<exists>processors keys q. acquire env need p = (Return (processors, keys, map addr keys), q) \<and>
    map processor_key processors = keys \<and> length keys = need \<and> distinct keys \<and> set keys \<inter> set (pl_acquired p) = {} \<and>
    set (pl_acquired q) = set (pl_acquired p) \<union> set keys \<and> pl_processors_ready q \<and> pool_good env q \<and> pl_max_workers q = pl_max_workers p"
proof -
  let ?n = "int need - int (length (pl_available p))"
  have can: "?n \<le> pl_max_workers p - int (pool_total p)" using assms(4) by (simp add: pool_total_def)
  have "nat ?n \<le> length (pl_adjectives p)" using assms(5) by linarith
  from make_processors_succeeds [OF assms(1-3) can this] obtain p1 where
    p1: "make_processors env ?n p = (Return (), p1)" "pool_good env p1" "pl_processors_ready p1"
      "length (pl_available p1) = length (pl_available p) + nat ?n" "pl_acquired p1 = pl_acquired p" "pl_max_workers p1 = pl_max_workers p"
    by blast
  have "need \<le> length (pl_available p1)" using p1(4) by linarith
  from take_processors_succeeds [OF assms(1) p1(2,3) this] obtain processors keys av ac where
    t: "take_processors env need p1 = (Return (processors, keys, map addr keys), p1\<lparr>pl_available := av, pl_acquired := ac\<rparr>)"
      "map processor_key processors = keys" "length keys = need" "distinct keys" "set keys \<subseteq> set (pl_available p1)"
      "set ac = set (pl_acquired p1) \<union> set keys" "pool_good env (p1\<lparr>pl_available := av, pl_acquired := ac\<rparr>)" by blast
  have "acquire env need p = (Return (processors, keys, map addr keys), p1\<lparr>pl_available := av, pl_acquired := ac\<rparr>)"
    using can p1(1) t(1) by (simp add: acquire_def Let_def py_bind_def pool_total_def)
  moreover have "set (pl_available p1) \<inter> set (pl_acquired p1) = {}"
    using p1(2) by (simp add: pool_good_def pool_inv_def pool_sets_ok_def)
  then have "set keys \<inter> set (pl_acquired p) = {}" using t(5) p1(5) by auto
  moreover have "set (pl_acquired (p1\<lparr>pl_available := av, pl_acquired := ac\<rparr>)) = set (pl_acquired p) \<union> set keys"
    "pl_processors_ready (p1\<lparr>pl_available := av, pl_acquired := ac\<rparr>)" "pl_max_workers (p1\<lparr>pl_available := av, pl_acquired := ac\<rparr>) = pl_max_workers p"
    using t(6) p1(3,5,6) by simp_all
  ultimately show ?thesis using t(2-4,7)
    by (intro exI [of _ processors] exI [of _ keys] exI [of _ "p1\<lparr>pl_available := av, pl_acquired := ac\<rparr>"] conjI)
qed

text \<open>
  Processors can be acquired up to the maximum.  In a pool that is ready and whose processors
  start and answer, acquiring a number of processors that together with the acquired ones is
  within the maximum gives that many different processors, none of which was acquired before,
  with their keys and addresses in the same order, and leaves the pool ready.
\<close>

theorem acquire_up_to_maximum:
  assumes "answering env addr" and "pool_initial env p0" and "(pool_step env)\<^sup>*\<^sup>* p0 p" and "pl_processors_ready p"
    and "int need + int (length (pl_acquired p)) \<le> pl_max_workers p" and "need \<le> length (pl_available p) + length (pl_adjectives p)"
  shows "\<exists>processors keys q. acquire env need p = (Return (processors, keys, map addr keys), q) \<and>
    map processor_key processors = keys \<and> length keys = need \<and> distinct keys \<and> set keys \<inter> set (pl_acquired p) = {} \<and>
    set (pl_acquired q) = set (pl_acquired p) \<union> set keys \<and> pl_processors_ready q"
proof -
  have "pool_env_ok env" using assms(1) by (simp add: answering_def)
  with pool_system.inv_reachable [OF conjI assms(3)] assms(2) have "pool_good env p" by simp
  from acquire_gives [OF assms(1) this assms(4-6)] show ?thesis by blast
qed

lemma small_pool_answers: "answering small_pool_env (\<lambda>key. key @ '':1'')"
  using small_pool_env_ok by (simp add: answering_def small_pool_env_def)

theorem acquire_up_to_maximum_witness:
  "\<exists>processors keys q. acquire small_pool_env 3 (snd (pool_start small_pool_env (snd (pool_new small_pool_env 1 3 False [''red'', ''blue'', ''old''])))) =
     (Return (processors, keys, map (\<lambda>key. key @ '':1'') keys), q) \<and> length keys = 3 \<and> distinct keys"
proof -
  define p0 where "p0 = snd (pool_new small_pool_env 1 3 False [''red'', ''blue'', ''old''])"
  define p where "p = snd (pool_start small_pool_env p0)"
  have initial: "pool_initial small_pool_env p0" unfolding pool_initial_def p0_def
    by (intro exI [of _ 1] exI [of _ 3] exI [of _ False] exI [of _ "[''red'', ''blue'', ''old'']"]) simp
  have steps: "(pool_step small_pool_env)\<^sup>*\<^sup>* p0 p"
    using pool_step.intros [of small_pool_env p0 CallStart] by (simp add: p_def r_into_rtranclp)
  have ready: "pl_processors_ready p" and acquired: "pl_acquired p = []" and max: "pl_max_workers p = 3"
    and names: "length (pl_available p) + length (pl_adjectives p) = 3"
    unfolding p_def p0_def by code_simp+
  from acquire_up_to_maximum [OF small_pool_answers initial steps ready, of 3] acquired max names show ?thesis
    unfolding p_def [symmetric] p0_def [symmetric] by auto
qed

text \<open>A pool with a minimum of no processors cannot be started: there is nothing to wait for.\<close>

lemma empty_pool_does_not_start:
  "pl_processors_started p = [] \<Longrightarrow> \<not> pl_processors_ready p \<Longrightarrow> fst (pool_start env p) = Raise (ValueError ''Set of Tasks/Futures is empty.'')"
  by (simp add: pool_start_def wait_for_processors_started_def wait_for_def py_defs)

end
