(* ===== verification/Supervisor.thy ===== *)
theory Supervisor
  imports Processor_Pool Batch_Plans Batch_Streams
begin

text \<open>
  The supervisors of \<open>datafusion_ray/core.py\<close>: \<open>DFRayContextSupervisor\<close> for batch queries and
  \<open>DFRayContextStreamingSupervisor\<close> for streaming ones, with the part of \<open>DFRayDataFrame\<close> that
  turns the stages of a query into one piece of work per processor.

  A supervisor owns a pool and a dict from processor keys to the work they were given.  The calls of
  \<open>update_plan\<close> it makes are kept in order in the state.  How a batch processor answers such a
  call is a parameter; a stream processor passes it to a method that its Rust service no longer has.  The stage keys that are collected for debug logs only are left out.

  The theorems show that a query gives every piece of work to a processor of its own together with
  the addresses of the copies of the stages it reads; that the handler of such a processor then
  reads every partition of such a stage from all of its copies, or from the last one if that has full
  partitions; that a query that needs more processors than allowed makes every later query fail; and
  that no streaming query succeeds.
\<close>

subsection \<open>State\<close>

record stage_data =
  sd_stage_id :: nat
  sd_plan_bytes :: string
  sd_partition_group :: "nat list"
  sd_child_stage_ids :: "nat list"
  sd_num_output_partitions :: nat
  sd_full_partitions :: bool

record internal_stage_data =
  isd_data :: stage_data
  isd_remote_processor :: actor
  isd_remote_addr :: string

type_synonym partition_addrs = "(nat \<times> string list) list"

record plan_update =
  pu_processor :: actor
  pu_stage_id :: nat
  pu_child_addrs :: "(nat \<times> partition_addrs) list"
  pu_partition_group :: "nat list"
  pu_plan_bytes :: string

record supervisor =
  sv_pool :: pool
  sv_stages :: "(string \<times> internal_stage_data) list"
  sv_updates :: "plan_update list"

definition on_pool :: "(pool, 'a) py \<Rightarrow> (supervisor, 'a) py" where
  "on_pool m sv = (case m (sv_pool sv) of (r, p) \<Rightarrow> (r, sv\<lparr>sv_pool := p\<rparr>))"

definition supervisor_new :: "pool_env \<Rightarrow> int \<Rightarrow> int \<Rightarrow> string list \<Rightarrow> unit outcome \<times> supervisor" where
  "supervisor_new env worker_pool_min worker_pool_max adjectives =
     (case pool_new env worker_pool_min worker_pool_max False adjectives of
        (r, p) \<Rightarrow> (r, \<lparr>sv_pool = p, sv_stages = [], sv_updates = []\<rparr>))"

definition supervisor_start :: "pool_env \<Rightarrow> (supervisor, unit) py" where
  "supervisor_start env = on_pool (pool_start env)"

definition supervisor_all_done :: "pool_env \<Rightarrow> (supervisor, unit) py" where
  "supervisor_all_done env = on_pool (pool_all_done env)"

subsection \<open>Batch queries\<close>

definition get_stage_addrs :: "nat \<Rightarrow> supervisor \<Rightarrow> string list" where
  "get_stage_addrs stage_id sv =
     map (\<lambda>(_, isd). isd_remote_addr isd) (filter (\<lambda>(_, isd). sd_stage_id (isd_data isd) = stage_id) (sv_stages sv))"

definition copy_addrs :: "nat \<Rightarrow> internal_stage_data list \<Rightarrow> internal_stage_data \<Rightarrow> partition_addrs \<Rightarrow> partition_addrs" where
  "copy_addrs output_partitions child_stage_datas child addrs =
     (if sd_full_partitions (isd_data child)
      then fold (\<lambda>part. dict_set part [isd_remote_addr child]) [0..<output_partitions] addrs
      else fold (\<lambda>part. dict_set part (map isd_remote_addr child_stage_datas)) [0..<output_partitions] addrs)"

definition child_addrs :: "(string \<times> internal_stage_data) list \<Rightarrow> nat \<Rightarrow> partition_addrs outcome" where
  "child_addrs all_stages child_stage_id =
     (let child_stage_datas = map snd (filter (\<lambda>x. sd_stage_id (isd_data (snd x)) = child_stage_id) all_stages);
          output_partitions = map (\<lambda>c_isd. sd_num_output_partitions (isd_data c_isd)) child_stage_datas
      in case output_partitions of
           [] \<Rightarrow> Raise (ValueError ''not enough values to unpack'')
         | n # _ \<Rightarrow>
             if \<not> list_all (\<lambda>op. op = n) output_partitions then Raise AssertionError
             else Return (fold (copy_addrs n child_stage_datas) child_stage_datas []))"

fun stage_addrs_of :: "(string \<times> internal_stage_data) list \<Rightarrow> nat list \<Rightarrow> (nat \<times> partition_addrs) list \<Rightarrow> (nat \<times> partition_addrs) list outcome" where
  "stage_addrs_of all_stages [] stage_addrs = Return stage_addrs"
| "stage_addrs_of all_stages (child_stage_id # ids) stage_addrs =
     (case child_addrs all_stages child_stage_id of
        Raise e \<Rightarrow> Raise e
      | Return addrs \<Rightarrow> stage_addrs_of all_stages ids (dict_set child_stage_id addrs stage_addrs))"

definition sort_out_addresses :: "(string \<times> internal_stage_data) list \<Rightarrow> (string \<times> (nat \<times> partition_addrs) list) list outcome" where
  "sort_out_addresses all_stages =
     collect_outcomes (map (\<lambda>(stage_key, isd).
       case stage_addrs_of all_stages (sd_child_stage_ids (isd_data isd)) [] of
         Raise e \<Rightarrow> Raise e
       | Return stage_addrs \<Rightarrow> Return (stage_key, stage_addrs)) all_stages)"

fun assign_stages :: "stage_data list \<Rightarrow> actor list \<Rightarrow> string list \<Rightarrow> string list \<Rightarrow> (string \<times> internal_stage_data) list
    \<Rightarrow> (string \<times> internal_stage_data) list" where
  "assign_stages (sd # sds) (remote_processor # processors) (key # keys) (addr # addrs) all_stages =
     assign_stages sds processors keys addrs
       (dict_set key \<lparr>isd_data = sd, isd_remote_processor = remote_processor, isd_remote_addr = addr\<rparr> all_stages)"
| "assign_stages _ _ _ _ all_stages = all_stages"

definition update_of :: "(string \<times> (nat \<times> partition_addrs) list) list \<Rightarrow> string \<times> internal_stage_data \<Rightarrow> plan_update outcome" where
  "update_of addrs_by_stage_key stage =
     (case stage of (stage_key, isd) \<Rightarrow>
       case dict_get addrs_by_stage_key stage_key of
         Raise e \<Rightarrow> Raise e
       | Return kid \<Rightarrow> Return \<lparr>pu_processor = isd_remote_processor isd, pu_stage_id = sd_stage_id (isd_data isd), pu_child_addrs = kid,
           pu_partition_group = sd_partition_group (isd_data isd), pu_plan_bytes = sd_plan_bytes (isd_data isd)\<rparr>)"

definition send_update :: "plan_update \<Rightarrow> (supervisor, unit) py" where
  "send_update u = py_update (\<lambda>sv. sv\<lparr>sv_updates := sv_updates sv @ [u]\<rparr>)"

definition release_running :: "(supervisor, unit) py" where
  "release_running sv = (if 0 < length (sv_stages sv) then on_pool (release (map fst (sv_stages sv))) sv else (Return (), sv))"

definition new_query :: "pool_env \<Rightarrow> (plan_update \<Rightarrow> unit outcome) \<Rightarrow> stage_data list \<Rightarrow> (supervisor, unit) py" where
  "new_query env answer stage_datas =
     py_bind release_running (\<lambda>_.
     py_bind (on_pool (acquire env (length stage_datas))) (\<lambda>(processors, keys, addrs).
     py_bind (py_update (\<lambda>sv. sv\<lparr>sv_stages := assign_stages stage_datas processors keys addrs []\<rparr>)) (\<lambda>_.
     py_bind (py_get sv_stages) (\<lambda>all_stages.
     py_bind (py_outcome (sort_out_addresses all_stages)) (\<lambda>addrs_by_stage_key.
     py_bind (py_map (\<lambda>stage.
       py_bind (py_outcome (update_of addrs_by_stage_key stage)) (\<lambda>u.
       py_bind (send_update u) (\<lambda>_. py_return (answer u)))) all_stages) (\<lambda>refs.
     py_bind (py_outcome (wait_for env refs)) (\<lambda>_.
     py_return ())))))))"

subsection \<open>The work of a query\<close>

text \<open>The stages of a data frame; there is one piece of work for every group of partitions.\<close>

record dataframe_stage =
  dfs_stage_id :: nat
  dfs_plan_bytes :: string
  dfs_partition_groups :: "nat list list"
  dfs_child_stage_ids :: "nat list"
  dfs_num_output_partitions :: nat
  dfs_full_partitions :: bool

definition ray_stage_datas :: "dataframe_stage list \<Rightarrow> stage_data list" where
  "ray_stage_datas all_stages =
     concat (map (\<lambda>stage. map (\<lambda>partition_group.
       \<lparr>sd_stage_id = dfs_stage_id stage, sd_plan_bytes = dfs_plan_bytes stage, sd_partition_group = partition_group,
        sd_child_stage_ids = dfs_child_stage_ids stage, sd_num_output_partitions = dfs_num_output_partitions stage,
        sd_full_partitions = dfs_full_partitions stage\<rparr>) (dfs_partition_groups stage)) all_stages)"

subsection \<open>Streaming queries\<close>

record streaming_stage_data =
  ssd_stage_id :: nat
  ssd_output_stream_id :: string
  ssd_plan_bytes :: string

record internal_streaming_stage_data =
  issd_data :: streaming_stage_data
  issd_remote_processor :: actor
  issd_remote_addr :: string

record streaming_update =
  su_processor :: actor
  su_stage_id :: nat
  su_output_stream_address_map :: "(string \<times> string) list"
  su_plan_bytes :: string

record streaming_supervisor =
  ss_pool :: pool
  ss_streaming_stages :: "(string \<times> internal_streaming_stage_data) list"
  ss_updates :: "streaming_update list"

text \<open>
  \<open>update_plan\<close> of a stream processor calls the method of the same name of its Rust service.  A method
  that the class does not offer to Python raises when it is looked up, before any work is done.
\<close>

definition streaming_service_methods :: "string list" where
  "streaming_service_methods = [''start_up'', ''addr'', ''all_done'', ''start_task'', ''start_task_from'']"

definition py_getattr :: "string list \<Rightarrow> string \<Rightarrow> unit outcome" where
  "py_getattr methods name = (if name \<in> set methods then Return () else Raise (AttributeError name))"

definition stream_processor_update_plan :: "streaming_update \<Rightarrow> unit outcome" where
  "stream_processor_update_plan u = py_getattr streaming_service_methods ''update_plan''"

definition on_streaming_pool :: "(pool, 'a) py \<Rightarrow> (streaming_supervisor, 'a) py" where
  "on_streaming_pool m sv = (case m (ss_pool sv) of (r, p) \<Rightarrow> (r, sv\<lparr>ss_pool := p\<rparr>))"

definition streaming_supervisor_new :: "pool_env \<Rightarrow> int \<Rightarrow> int \<Rightarrow> string list \<Rightarrow> unit outcome \<times> streaming_supervisor" where
  "streaming_supervisor_new env worker_pool_min worker_pool_max adjectives =
     (case pool_new env worker_pool_min worker_pool_max True adjectives of
        (r, p) \<Rightarrow> (r, \<lparr>ss_pool = p, ss_streaming_stages = [], ss_updates = []\<rparr>))"

definition streaming_supervisor_start :: "pool_env \<Rightarrow> (streaming_supervisor, unit) py" where
  "streaming_supervisor_start env = on_streaming_pool (pool_start env)"

definition streaming_supervisor_all_done :: "pool_env \<Rightarrow> (streaming_supervisor, unit) py" where
  "streaming_supervisor_all_done env = on_streaming_pool (pool_all_done env)"

definition get_streaming_stage_addrs :: "nat \<Rightarrow> streaming_supervisor \<Rightarrow> (string \<times> string) list" where
  "get_streaming_stage_addrs stage_id sv =
     map (\<lambda>(_, sd). (issd_remote_addr sd, ssd_output_stream_id (issd_data sd)))
       (filter (\<lambda>(_, sd). ssd_stage_id (issd_data sd) = stage_id) (ss_streaming_stages sv))"

fun assign_streaming_stages :: "streaming_stage_data list \<Rightarrow> actor list \<Rightarrow> string list \<Rightarrow> string list
    \<Rightarrow> (string \<times> internal_streaming_stage_data) list \<Rightarrow> (string \<times> internal_streaming_stage_data) list" where
  "assign_streaming_stages (sd # sds) (remote_processor # processors) (key # keys) (addr # addrs) all_stages =
     assign_streaming_stages sds processors keys addrs
       (dict_set key \<lparr>issd_data = sd, issd_remote_processor = remote_processor, issd_remote_addr = addr\<rparr> all_stages)"
| "assign_streaming_stages _ _ _ _ all_stages = all_stages"

definition output_stream_address_map :: "(string \<times> internal_streaming_stage_data) list \<Rightarrow> (string \<times> string) list" where
  "output_stream_address_map all_stages =
     fold (\<lambda>(_, isd). dict_set (ssd_output_stream_id (issd_data isd)) (issd_remote_addr isd)) all_stages []"

definition streaming_update_of :: "(string \<times> string) list \<Rightarrow> string \<times> internal_streaming_stage_data \<Rightarrow> streaming_update" where
  "streaming_update_of address_map stage =
     (case stage of (_, isd) \<Rightarrow> \<lparr>su_processor = issd_remote_processor isd, su_stage_id = ssd_stage_id (issd_data isd),
        su_output_stream_address_map = address_map, su_plan_bytes = ssd_plan_bytes (issd_data isd)\<rparr>)"

definition release_running_streams :: "(streaming_supervisor, unit) py" where
  "release_running_streams sv =
     (if 0 < length (ss_streaming_stages sv) then on_streaming_pool (release (map fst (ss_streaming_stages sv))) sv else (Return (), sv))"

definition run_streaming_query :: "pool_env \<Rightarrow> streaming_stage_data list \<Rightarrow> (streaming_supervisor, unit) py" where
  "run_streaming_query env stage_datas =
     py_bind release_running_streams (\<lambda>_.
     py_bind (on_streaming_pool (acquire env (length stage_datas))) (\<lambda>(processors, keys, addrs).
     py_bind (py_update (\<lambda>sv. sv\<lparr>ss_streaming_stages := assign_streaming_stages stage_datas processors keys addrs []\<rparr>)) (\<lambda>_.
     py_bind (py_get ss_streaming_stages) (\<lambda>all_stages.
     py_bind (py_map (\<lambda>u. py_bind (py_update (\<lambda>sv. sv\<lparr>ss_updates := ss_updates sv @ [u]\<rparr>)) (\<lambda>_. py_return (stream_processor_update_plan u)))
       (map (streaming_update_of (output_stream_address_map all_stages)) all_stages)) (\<lambda>refs.
     py_bind (py_outcome (wait_for env refs)) (\<lambda>_.
     py_return ()))))))"

subsection \<open>Facts on dicts of addresses\<close>

lemma dict_set_new: "k \<notin> fst ` set d \<Longrightarrow> dict_set k v d = d @ [(k, v)]"
  by (induction k v d rule: dict_set.induct) auto

lemma distinct_dict_set: "distinct (map fst d) \<Longrightarrow> distinct (map fst (dict_set k v d))"
proof (induction k v d rule: dict_set.induct)
  case (2 k v k' v' d)
  have "set (map fst (dict_set k v d)) = insert k (fst ` set d)" using keys_dict_set [of k v d] by simp
  with 2 show ?case by auto
qed simp

lemma map_of_fold_same: "map_of (fold (\<lambda>k. dict_set k v) ks d) k = (if k \<in> set ks then Some v else map_of d k)"
  by (induction ks arbitrary: d) auto

lemma distinct_fold_same: "distinct (map fst d) \<Longrightarrow> distinct (map fst (fold (\<lambda>k. dict_set k v) ks d))"
  by (induction ks arbitrary: d) (auto intro: distinct_dict_set)

text \<open>The last copy decides: it is taken alone when it has full partitions, and otherwise all copies are.\<close>

lemma last_copy_decides:
  "map_of (fold (copy_addrs n cs) cs' d) part =
    (if part < n \<and> cs' \<noteq> []
     then Some (if sd_full_partitions (isd_data (last cs')) then [isd_remote_addr (last cs')] else map isd_remote_addr cs)
     else map_of d part)"
  by (induction cs' arbitrary: d) (auto simp: copy_addrs_def map_of_fold_same)

lemma distinct_copies_addrs: "distinct (map fst d) \<Longrightarrow> distinct (map fst (fold (copy_addrs n cs) cs' d))"
  by (induction cs' arbitrary: d) (auto simp: copy_addrs_def intro: distinct_fold_same)

subsection \<open>The addresses of a query\<close>

text \<open>The processors \<open>ps\<close> with the pieces of work they were given.\<close>

definition entries :: "(string \<Rightarrow> string) \<Rightarrow> actor list \<Rightarrow> stage_data list \<Rightarrow> (string \<times> internal_stage_data) list" where
  "entries addr ps datas = map (\<lambda>(p, sd). (processor_key p,
     \<lparr>isd_data = sd, isd_remote_processor = p, isd_remote_addr = addr (processor_key p)\<rparr>)) (zip ps datas)"

definition copies_of :: "actor list \<Rightarrow> stage_data list \<Rightarrow> nat \<Rightarrow> string list" where
  "copies_of ps datas c = map (\<lambda>(p, _). processor_key p) (filter (\<lambda>(_, sd). sd_stage_id sd = c) (zip ps datas))"

text \<open>The copies that a reader of stage \<open>c\<close> reads: all of them, or the last one if it has full partitions.\<close>

definition serving_copies :: "actor list \<Rightarrow> stage_data list \<Rightarrow> nat \<Rightarrow> string list" where
  "serving_copies ps datas c =
     (if sd_full_partitions (last (filter (\<lambda>sd. sd_stage_id sd = c) datas)) then [last (copies_of ps datas c)]
      else copies_of ps datas c)"

definition output_parts :: "stage_data list \<Rightarrow> nat \<Rightarrow> nat" where
  "output_parts datas c = sd_num_output_partitions (hd (filter (\<lambda>sd. sd_stage_id sd = c) datas))"

text \<open>
  A query whose stages only read stages of the query, all copies of which have the same number of
  output partitions.
\<close>

definition query_ok :: "stage_data list \<Rightarrow> bool" where
  "query_ok datas \<longleftrightarrow> datas \<noteq> [] \<and>
     list_all (\<lambda>sd. list_all (\<lambda>c. list_ex (\<lambda>sd'. sd_stage_id sd' = c) datas \<and>
       list_all (\<lambda>sd'. sd_stage_id sd' = c \<longrightarrow> sd_num_output_partitions sd' = output_parts datas c) datas)
       (sd_child_stage_ids sd)) datas"

lemma assign_stages_entries:
  assumes "length ps = length datas" and "distinct (map processor_key ps)" and "set (map processor_key ps) \<inter> fst ` set acc = {}"
  shows "assign_stages datas ps (map processor_key ps) (map addr (map processor_key ps)) acc = acc @ entries addr ps datas"
  using assms
proof (induction datas arbitrary: ps acc)
  case (Cons sd datas)
  then obtain p ps' where ps: "ps = p # ps'" by (cases ps) auto
  define e where "e = \<lparr>isd_data = sd, isd_remote_processor = p, isd_remote_addr = addr (processor_key p)\<rparr>"
  have "dict_set (processor_key p) e acc = acc @ [(processor_key p, e)]"
    by (rule dict_set_new) (use Cons.prems(3) ps in auto)
  with Cons.IH [of ps' "acc @ [(processor_key p, e)]"] Cons.prems ps show ?case by (auto simp: entries_def e_def)
qed (simp add: entries_def)

lemma entries_of_stage:
  assumes "length ps = length datas"
  shows "map snd (filter (\<lambda>x. sd_stage_id (isd_data (snd x)) = c) (entries addr ps datas)) =
      map (\<lambda>(p, sd). \<lparr>isd_data = sd, isd_remote_processor = p, isd_remote_addr = addr (processor_key p)\<rparr>)
        (filter (\<lambda>(_, sd). sd_stage_id sd = c) (zip ps datas))"
  by (simp add: entries_def filter_map comp_def case_prod_unfold)

lemma child_addrs_of_query:
  assumes "length ps = length datas" and "query_ok datas" and "sd \<in> set datas" and "c \<in> set (sd_child_stage_ids sd)"
  shows "\<exists>d. child_addrs (entries addr ps datas) c = Return d \<and> distinct (map fst d) \<and>
    (\<forall>part. map_of d part = (if part < output_parts datas c then Some (map addr (serving_copies ps datas c)) else None))"
proof -
  define mk where "mk = (\<lambda>(p, sd). \<lparr>isd_data = sd, isd_remote_processor = p, isd_remote_addr = addr (processor_key p)\<rparr>)"
  define found where "found = filter (\<lambda>(_, sd). sd_stage_id sd = c) (zip ps datas)"
  have datas: "\<forall>sd \<in> snd ` set (zip ps datas). sd \<in> set datas" using set_zip_rightD by fastforce
  have copies: "\<exists>sd' \<in> set datas. sd_stage_id sd' = c"
    "\<forall>sd' \<in> set datas. sd_stage_id sd' = c \<longrightarrow> sd_num_output_partitions sd' = output_parts datas c"
    using assms(2-4) by (auto simp: query_ok_def list_all_iff list_ex_iff)
  have "snd ` set (zip ps datas) = set datas" using assms(1) by (metis map_snd_zip list.set_map)
  with copies(1) have nonempty: "found \<noteq> []" by (force simp: found_def filter_empty_conv)
  have same: "sd_num_output_partitions (isd_data (mk x)) = output_parts datas c"
    if "x \<in> set found" for x
    using that copies(2) datas by (force simp: found_def mk_def)
  have parts: "map (\<lambda>x. sd_num_output_partitions (isd_data x)) (map mk found) = replicate (length found) (output_parts datas c)"
    using same by (intro nth_equalityI) simp_all
  have "child_addrs (entries addr ps datas) c = Return (fold (copy_addrs (output_parts datas c) (map mk found)) (map mk found) [])"
    unfolding child_addrs_def Let_def entries_of_stage [OF assms(1)] mk_def [symmetric] found_def [symmetric] parts
    using nonempty by (cases "length found") (auto simp: list_all_iff)
  moreover have "(if sd_full_partitions (isd_data (last (map mk found))) then [isd_remote_addr (last (map mk found))]
      else map isd_remote_addr (map mk found)) = map addr (serving_copies ps datas c)"
  proof -
    have "filter (\<lambda>sd. sd_stage_id sd = c) (map snd (zip ps datas)) = map snd found"
      by (simp add: found_def filter_map comp_def case_prod_unfold)
    then have "filter (\<lambda>sd. sd_stage_id sd = c) datas = map snd found" using assms(1) by simp
    moreover have "copies_of ps datas c = map (\<lambda>x. processor_key (fst x)) found"
      by (simp add: copies_of_def found_def case_prod_unfold)
    ultimately show ?thesis using nonempty by (simp add: serving_copies_def mk_def case_prod_unfold last_map)
  qed
  moreover have "map_of (fold (copy_addrs (output_parts datas c) (map mk found)) (map mk found) []) part =
      (if part < output_parts datas c then Some (map addr (serving_copies ps datas c)) else None)" for part
    unfolding last_copy_decides calculation(2) using nonempty by simp
  ultimately show ?thesis
    using distinct_copies_addrs [of "[]" "output_parts datas c" "map mk found" "map mk found"] by simp
qed

text \<open>The addresses \<open>kid\<close> lead to the serving copies of every stage that \<open>sd\<close> reads.\<close>

definition leads_to_copies :: "(string \<Rightarrow> string) \<Rightarrow> actor list \<Rightarrow> stage_data list \<Rightarrow> stage_data \<Rightarrow> (nat \<times> partition_addrs) list \<Rightarrow> bool" where
  "leads_to_copies addr ps datas sd kid \<longleftrightarrow> (\<forall>c. c \<notin> set (sd_child_stage_ids sd) \<longrightarrow> map_of kid c = None) \<and>
     (\<forall>c \<in> set (sd_child_stage_ids sd). \<exists>d. map_of kid c = Some d \<and> distinct (map fst d) \<and>
     (\<forall>part. map_of d part = (if part < output_parts datas c then Some (map addr (serving_copies ps datas c)) else None)))"

lemma stage_addrs_of_all:
  assumes "\<forall>c \<in> set ids. \<exists>d. child_addrs es c = Return d \<and> good c d"
  shows "\<exists>kid. stage_addrs_of es ids acc = Return kid \<and> (\<forall>c. if c \<in> set ids then \<exists>d. map_of kid c = Some d \<and> good c d else map_of kid c = map_of acc c)"
  using assms
proof (induction ids arbitrary: acc)
  case (Cons c ids)
  obtain d where d: "child_addrs es c = Return d" "good c d" using Cons.prems by auto
  obtain kid where kid: "stage_addrs_of es ids (dict_set c d acc) = Return kid"
    "\<forall>c'. if c' \<in> set ids then \<exists>d. map_of kid c' = Some d \<and> good c' d else map_of kid c' = map_of (dict_set c d acc) c'"
    using Cons.IH [of "dict_set c d acc"] Cons.prems by auto
  have "if c' \<in> set (c # ids) then \<exists>d. map_of kid c' = Some d \<and> good c' d else map_of kid c' = map_of acc c'" for c'
    using kid(2) [rule_format, of c'] d(2) by (auto split: if_splits)
  with kid(1) d(1) show ?case by auto
qed simp

lemma stage_addrs_of_query:
  assumes "length ps = length datas" and "query_ok datas" and "sd \<in> set datas"
  shows "\<exists>kid. stage_addrs_of (entries addr ps datas) (sd_child_stage_ids sd) [] = Return kid \<and> leads_to_copies addr ps datas sd kid"
proof -
  let ?good = "\<lambda>c d. distinct (map fst d) \<and>
    (\<forall>part. map_of d part = (if part < output_parts datas c then Some (map addr (serving_copies ps datas c)) else None))"
  have "\<forall>c \<in> set (sd_child_stage_ids sd). \<exists>d. child_addrs (entries addr ps datas) c = Return d \<and> ?good c d"
    using child_addrs_of_query [OF assms] by blast
  from stage_addrs_of_all [where good = ?good, OF this, of "[]"] obtain kid where
    "stage_addrs_of (entries addr ps datas) (sd_child_stage_ids sd) [] = Return kid"
    "\<forall>c. if c \<in> set (sd_child_stage_ids sd) then \<exists>d. map_of kid c = Some d \<and> ?good c d else map_of kid c = map_of [] c" by blast
  then show ?thesis unfolding leads_to_copies_def
    by (intro exI [of _ kid]) (metis (no_types, lifting) map_of.simps(1))
qed

definition kid_of :: "(string \<Rightarrow> string) \<Rightarrow> actor list \<Rightarrow> stage_data list \<Rightarrow> stage_data \<Rightarrow> (nat \<times> partition_addrs) list" where
  "kid_of addr ps datas sd = (case stage_addrs_of (entries addr ps datas) (sd_child_stage_ids sd) [] of Return kid \<Rightarrow> kid | Raise e \<Rightarrow> [])"

definition updates_of :: "(string \<Rightarrow> string) \<Rightarrow> actor list \<Rightarrow> stage_data list \<Rightarrow> plan_update list" where
  "updates_of addr ps datas = map (\<lambda>(p, sd). \<lparr>pu_processor = p, pu_stage_id = sd_stage_id sd, pu_child_addrs = kid_of addr ps datas sd,
     pu_partition_group = sd_partition_group sd, pu_plan_bytes = sd_plan_bytes sd\<rparr>) (zip ps datas)"

lemma kid_leads_to_copies:
  assumes "length ps = length datas" and "query_ok datas" and "sd \<in> set datas"
  shows "leads_to_copies addr ps datas sd (kid_of addr ps datas sd)"
  using stage_addrs_of_query [OF assms, of addr] by (auto simp: kid_of_def)

lemma sort_out_addresses_query:
  assumes "length ps = length datas" and "query_ok datas"
  shows "sort_out_addresses (entries addr ps datas) = Return (map (\<lambda>(p, sd). (processor_key p, kid_of addr ps datas sd)) (zip ps datas))"
proof -
  have kid: "stage_addrs_of (entries addr ps datas) (sd_child_stage_ids sd) [] = Return (kid_of addr ps datas sd)" if "sd \<in> set datas" for sd
    using stage_addrs_of_query [OF assms that, of addr] by (auto simp: kid_of_def)
  have "map (\<lambda>(stage_key, isd). case stage_addrs_of (entries addr ps datas) (sd_child_stage_ids (isd_data isd)) [] of
         Raise e \<Rightarrow> Raise e | Return stage_addrs \<Rightarrow> Return (stage_key, stage_addrs)) (entries addr ps datas) =
      map Return (map (\<lambda>(p, sd). (processor_key p, kid_of addr ps datas sd)) (zip ps datas))"
    unfolding entries_def [of addr ps datas] map_map
  proof (intro map_cong refl)
    fix x
    assume member: "x \<in> set (zip ps datas)"
    obtain p sd where x: "x = (p, sd)" by (cases x)
    have sd: "sd \<in> set datas" using member x by (auto dest: set_zip_rightD)
    from kid [OF sd] show "((\<lambda>(stage_key, isd). case stage_addrs_of (map (\<lambda>(p, sd). (processor_key p,
       \<lparr>isd_data = sd, isd_remote_processor = p, isd_remote_addr = addr (processor_key p)\<rparr>)) (zip ps datas)) (sd_child_stage_ids (isd_data isd)) [] of
         Raise e \<Rightarrow> Raise e | Return stage_addrs \<Rightarrow> Return (stage_key, stage_addrs)) \<circ> (\<lambda>(p, sd). (processor_key p,
       \<lparr>isd_data = sd, isd_remote_processor = p, isd_remote_addr = addr (processor_key p)\<rparr>))) x =
       (Return \<circ> (\<lambda>(p, sd). (processor_key p, kid_of addr ps datas sd))) x"
      by (simp add: x entries_def)
  qed
  then show ?thesis by (simp only: sort_out_addresses_def collect_outcomes_map)
qed

lemma updates_of_entries:
  assumes "length ps = length datas" and "distinct (map processor_key ps)"
  shows "map (update_of (map (\<lambda>(p, sd). (processor_key p, kid_of addr ps datas sd)) (zip ps datas))) (entries addr ps datas) =
    map Return (updates_of addr ps datas)"
proof -
  let ?abk = "map (\<lambda>(p, sd). (processor_key p, kid_of addr ps datas sd)) (zip ps datas)"
  have "map fst (map (\<lambda>(p, sd). (processor_key p, kid_of addr ps datas sd)) zs) = map processor_key (map fst zs)" for zs
    by (induction zs) auto
  then have keys: "distinct (map fst ?abk)" using assms by (simp only: map_fst_zip)
  have "dict_get ?abk (processor_key p) = Return (kid_of addr ps datas sd)" if "(p, sd) \<in> set (zip ps datas)" for p sd
  proof -
    have "(processor_key p, kid_of addr ps datas sd) \<in> set ?abk" using that by force
    from map_of_is_SomeI [OF keys this] show ?thesis by (simp add: dict_get_def)
  qed
  then have "update_of ?abk (processor_key p, \<lparr>isd_data = sd, isd_remote_processor = p, isd_remote_addr = addr (processor_key p)\<rparr>) =
      Return \<lparr>pu_processor = p, pu_stage_id = sd_stage_id sd, pu_child_addrs = kid_of addr ps datas sd,
        pu_partition_group = sd_partition_group sd, pu_plan_bytes = sd_plan_bytes sd\<rparr>" if "(p, sd) \<in> set (zip ps datas)" for p sd
    using that by (simp add: update_of_def)
  then show ?thesis unfolding entries_def updates_of_def map_map by (intro map_cong refl) (simp add: case_prod_unfold)
qed

lemma send_updates:
  assumes "map (update_of abk) es = map Return us"
  shows "py_map (\<lambda>stage. py_bind (py_outcome (update_of abk stage)) (\<lambda>u. py_bind (send_update u) (\<lambda>_. py_return (answer u)))) es sv =
    (Return (map answer us), sv\<lparr>sv_updates := sv_updates sv @ us\<rparr>)"
  using assms
proof (induction es arbitrary: us sv)
  case (Cons e es)
  then obtain u us' where us: "us = u # us'" "update_of abk e = Return u" "map (update_of abk) es = map Return us'" by (cases us) auto
  from Cons.IH [OF us(3), of "sv\<lparr>sv_updates := sv_updates sv @ [u]\<rparr>"] us(1,2) show ?case
    by (simp add: py_bind_def py_outcome_def py_return_def send_update_def py_update_def)
qed (simp add: py_return_def)

subsection \<open>Queries\<close>

text \<open>A supervisor whose pool is ready and whose stages run on exactly the acquired processors.\<close>

definition supervisor_ok :: "pool_env \<Rightarrow> supervisor \<Rightarrow> bool" where
  "supervisor_ok env sv \<longleftrightarrow> pool_good env (sv_pool sv) \<and> pl_processors_ready (sv_pool sv) \<and> distinct (map fst (sv_stages sv)) \<and>
     fst ` set (sv_stages sv) = set (pl_acquired (sv_pool sv))"

lemma pool_total_card: "pool_good env p \<Longrightarrow> pool_total p = card (keys_of p)"
  unfolding pool_good_def pool_inv_def pool_sets_ok_def pool_total_def by (metis card_Un_disjoint distinct_card List.finite_set)

lemma release_all:
  "pool_good env p \<Longrightarrow> distinct keys \<Longrightarrow> set keys \<subseteq> set (pl_acquired p) \<Longrightarrow>
    \<exists>av ac. release keys p = (Return (), p\<lparr>pl_available := av, pl_acquired := ac\<rparr>) \<and> set ac = set (pl_acquired p) - set keys \<and>
      pool_good env (p\<lparr>pl_available := av, pl_acquired := ac\<rparr>)"
proof (induction keys arbitrary: p)
  case Nil
  have same: "p\<lparr>pl_available := pl_available p, pl_acquired := pl_acquired p\<rparr> = p" by simp
  show ?case
  proof (intro exI conjI)
    show "release [] p = (Return (), p\<lparr>pl_available := pl_available p, pl_acquired := pl_acquired p\<rparr>)"
      unfolding same by (simp add: release_def py_return_def)
    show "set (pl_acquired p) = set (pl_acquired p) - set []" by simp
    show "pool_good env (p\<lparr>pl_available := pl_available p, pl_acquired := pl_acquired p\<rparr>)" unfolding same by (rule Nil(1))
  qed
next
  case (Cons key keys)
  define q where "q = p\<lparr>pl_available := set_add key (pl_available p), pl_acquired := remove1 key (pl_acquired p)\<rparr>"
  have sets: "distinct (pl_acquired p)" using Cons.prems(1) by (simp add: pool_good_def pool_inv_def pool_sets_ok_def)
  have one: "release_one key p = (Return (), q)" using Cons.prems(3) by (simp add: release_one_def q_def)
  have "pool_good env (snd (release [key] p))" by (rule keepsD [OF release_keeps Cons.prems(1)])
  then have good: "pool_good env q" using one by (simp add: release_def py_bind_def py_return_def)
  have acquired: "set (pl_acquired q) = set (pl_acquired p) - {key}" using sets by (simp add: q_def)
  then have "set keys \<subseteq> set (pl_acquired q)" using Cons.prems(2,3) by auto
  from Cons.IH [OF good _ this] Cons.prems(2) obtain av ac where
    rest: "release keys q = (Return (), q\<lparr>pl_available := av, pl_acquired := ac\<rparr>)" "set ac = set (pl_acquired q) - set keys"
      "pool_good env (q\<lparr>pl_available := av, pl_acquired := ac\<rparr>)" by auto
  have same: "q\<lparr>pl_available := av, pl_acquired := ac\<rparr> = p\<lparr>pl_available := av, pl_acquired := ac\<rparr>" by (simp add: q_def)
  have "release (key # keys) p = (Return (), p\<lparr>pl_available := av, pl_acquired := ac\<rparr>)"
    using one rest(1) unfolding same by (simp add: release_def py_bind_def)
  moreover have "set ac = set (pl_acquired p) - set (key # keys)" using rest(2) acquired by auto
  moreover note rest(3) [unfolded same]
  ultimately show ?case by (intro exI conjI)
qed

lemma release_recorded:
  assumes "pool_good env p" and "distinct keys" and "set keys = set (pl_acquired p)"
  shows "\<exists>q. release keys p = (Return (), q) \<and> pool_good env q \<and> pl_processors_ready q = pl_processors_ready p \<and> pl_acquired q = [] \<and>
      length (pl_available q) = pool_total p \<and> pl_max_workers q = pl_max_workers p \<and> pl_adjectives q = pl_adjectives p"
proof -
  from release_all [OF assms(1,2)] assms(3) obtain av ac where
    r: "release keys p = (Return (), p\<lparr>pl_available := av, pl_acquired := ac\<rparr>)" "set ac = {}"
      "pool_good env (p\<lparr>pl_available := av, pl_acquired := ac\<rparr>)" by auto
  define q where "q = p\<lparr>pl_available := av, pl_acquired := ac\<rparr>"
  have "pool_total q = pool_total p"
    using pool_total_card [OF assms(1)] pool_total_card [OF r(3)] by (simp add: q_def keys_of_def)
  then have "length (pl_available q) = pool_total p" using r(2) by (simp add: pool_total_def q_def)
  with r show ?thesis by (intro exI [of _ q]) (simp add: q_def)
qed

lemma release_nothing: "release [] p = (Return (), p)"
  by (simp add: release_def py_return_def)

lemma release_stages:
  assumes "supervisor_ok env sv"
  shows "\<exists>p. release_running sv = (Return (), sv\<lparr>sv_pool := p\<rparr>) \<and> pool_good env p \<and> pl_processors_ready p \<and> pl_acquired p = [] \<and>
      length (pl_available p) = pool_total (sv_pool sv) \<and> pl_max_workers p = pl_max_workers (sv_pool sv) \<and>
      pl_adjectives p = pl_adjectives (sv_pool sv)"
proof -
  have ok: "pool_good env (sv_pool sv)" "distinct (map fst (sv_stages sv))" "set (map fst (sv_stages sv)) = set (pl_acquired (sv_pool sv))"
    "pl_processors_ready (sv_pool sv)" using assms by (simp_all add: supervisor_ok_def)
  have "release_running sv = on_pool (release (map fst (sv_stages sv))) sv"
    by (simp add: release_running_def on_pool_def release_nothing)
  with release_recorded [OF ok(1-3)] ok(4) show ?thesis by (auto simp: on_pool_def)
qed

lemma entries_keys: "length ps = length datas \<Longrightarrow> map fst (entries addr ps datas) = map processor_key ps"
  by (induction ps datas rule: list_induct2) (simp_all add: entries_def)

lemma py_bind_Return: "m s = (Return x, t) \<Longrightarrow> py_bind m f s = f x t"
  by (simp add: py_bind_def)

text \<open>The run of a query on a released pool.\<close>

lemma new_query_runs:
  assumes "answering env addr" and "supervisor_ok env sv" and "query_ok datas" and "\<And>u. answer u = Return ()"
    and "int (length datas) \<le> pl_max_workers (sv_pool sv)" and "length datas \<le> pool_total (sv_pool sv) + length (pl_adjectives (sv_pool sv))"
  shows "\<exists>ps sv'. new_query env answer datas sv = (Return (), sv') \<and> length ps = length datas \<and> distinct (map processor_key ps) \<and>
    sv_stages sv' = entries addr ps datas \<and> sv_updates sv' = sv_updates sv @ updates_of addr ps datas \<and> supervisor_ok env sv' \<and>
    pl_max_workers (sv_pool sv') = pl_max_workers (sv_pool sv)"
proof -
  have env: "pool_env_ok env" using assms(1) by (simp add: answering_def)
  obtain p where p: "release_running sv = (Return (), sv\<lparr>sv_pool := p\<rparr>)"
    "pool_good env p" "pl_processors_ready p" "pl_acquired p = []" "length (pl_available p) = pool_total (sv_pool sv)"
    "pl_max_workers p = pl_max_workers (sv_pool sv)" "pl_adjectives p = pl_adjectives (sv_pool sv)"
    using release_stages [OF assms(2)] by blast
  have room: "int (length datas) + int (length (pl_acquired p)) \<le> pl_max_workers p" using assms(5) p(4,6) by simp
  have names: "length datas \<le> length (pl_available p) + length (pl_adjectives p)" using assms(6) p(5,7) by simp
  obtain ps keys q where q: "acquire env (length datas) p = (Return (ps, keys, map addr keys), q)" "map processor_key ps = keys"
    "length keys = length datas" "distinct keys" "set (pl_acquired q) = set (pl_acquired p) \<union> set keys" "pl_processors_ready q" "pool_good env q" "pl_max_workers q = pl_max_workers p"
    using acquire_gives [OF assms(1) p(2,3) room names] by blast
  have len: "length ps = length datas" and keys: "distinct (map processor_key ps)" using q(2-4) by auto
  have assigned: "assign_stages datas ps keys (map addr keys) [] = entries addr ps datas"
    using assign_stages_entries [OF len keys, of "[]" addr] q(2) by simp
  have sorted: "sort_out_addresses (entries addr ps datas) = Return (map (\<lambda>(p, sd). (processor_key p, kid_of addr ps datas sd)) (zip ps datas))"
    by (rule sort_out_addresses_query [OF len assms(3)])
  note sent = send_updates [where answer = answer, OF updates_of_entries [where addr = addr, OF len keys]]
  have "updates_of addr ps datas \<noteq> []" using assms(3) len by (cases ps; cases datas) (simp_all add: updates_of_def query_ok_def)
  then obtain rs where waited: "wait_for env (map answer (updates_of addr ps datas)) = Return rs"
    using wait_for_succeeds [OF env, of "map answer (updates_of addr ps datas)" "map (\<lambda>_. ()) (updates_of addr ps datas)"] assms(4) by auto
  define sv1 where "sv1 = sv\<lparr>sv_pool := q\<rparr>"
  define sv2 where "sv2 = sv1\<lparr>sv_stages := entries addr ps datas\<rparr>"
  define sv' where "sv' = sv2\<lparr>sv_updates := sv_updates sv @ updates_of addr ps datas\<rparr>"
  have "on_pool (acquire env (length datas)) (sv\<lparr>sv_pool := p\<rparr>) = (Return (ps, keys, map addr keys), sv1)"
    using q(1) by (simp add: on_pool_def sv1_def)
  moreover have "py_update (\<lambda>sv. sv\<lparr>sv_stages := assign_stages datas ps keys (map addr keys) []\<rparr>) sv1 = (Return (), sv2)"
    by (simp add: py_update_def sv2_def assigned)
  moreover have "py_outcome (sort_out_addresses (entries addr ps datas)) sv2 =
      (Return (map (\<lambda>(p, sd). (processor_key p, kid_of addr ps datas sd)) (zip ps datas)), sv2)"
    by (simp add: py_outcome_def sorted)
  moreover have "py_get sv_stages sv2 = (Return (entries addr ps datas), sv2)" by (simp add: py_get_def sv2_def)
  moreover have "sv_updates sv2 = sv_updates sv" by (simp add: sv2_def sv1_def)
  moreover have "py_outcome (wait_for env (map answer (updates_of addr ps datas))) sv' = (Return rs, sv')" by (simp add: py_outcome_def waited)
  ultimately have "new_query env answer datas sv = (Return (), sv')"
    by (simp only: new_query_def py_bind_def p(1) sent sv'_def [symmetric] prod.case outcome.case py_return_def)
  moreover have "supervisor_ok env sv'"
    using q(2,4-7) p(4) entries_keys [OF len, of addr] by (simp add: supervisor_ok_def sv'_def sv2_def sv1_def flip: list.set_map)
  ultimately show ?thesis using len keys q(8) p(6)
    by (intro exI [of _ ps] exI [of _ sv']) (simp add: sv'_def sv2_def sv1_def)
qed

text \<open>
  A query gives every piece of work to a processor of its own, with the addresses of the copies
  of the stages it reads.  On a supervisor whose pool is ready and answers, a query of at most the
  maximum number of pieces, whose stages read only stages of the query, succeeds.  Its pieces go
  to different processors, one update each, and for each stage that a piece reads the update lists
  under every output partition of that stage the addresses of its serving copies.  The supervisor
  is then ready for the next query.
\<close>

theorem new_query_reaches_copies:
  assumes "answering env addr" and "supervisor_ok env sv" and "query_ok datas" and "\<forall>u. answer u = Return ()"
    and "int (length datas) \<le> pl_max_workers (sv_pool sv)" and "length datas \<le> pool_total (sv_pool sv) + length (pl_adjectives (sv_pool sv))"
  shows "\<exists>ps us sv'. new_query env answer datas sv = (Return (), sv') \<and> sv_updates sv' = sv_updates sv @ us \<and> supervisor_ok env sv' \<and>
    length ps = length datas \<and> distinct (map processor_key ps) \<and>
    list_all2 (\<lambda>(p, sd) u. pu_processor u = p \<and> pu_stage_id u = sd_stage_id sd \<and> pu_plan_bytes u = sd_plan_bytes sd \<and>
      pu_partition_group u = sd_partition_group sd \<and> leads_to_copies addr ps datas sd (pu_child_addrs u)) (zip ps datas) us"
proof -
  obtain ps sv' where run: "new_query env answer datas sv = (Return (), sv')" "length ps = length datas" "distinct (map processor_key ps)"
    "sv_updates sv' = sv_updates sv @ updates_of addr ps datas" "supervisor_ok env sv'"
    using new_query_runs [of env addr sv datas answer] assms by blast
  note kid_leads_to_copies [OF run(2) assms(3), of _ addr]
  then have "list_all2 (\<lambda>(p, sd) u. pu_processor u = p \<and> pu_stage_id u = sd_stage_id sd \<and> pu_plan_bytes u = sd_plan_bytes sd \<and>
      pu_partition_group u = sd_partition_group sd \<and> leads_to_copies addr ps datas sd (pu_child_addrs u)) (zip ps datas) (updates_of addr ps datas)"
    by (auto simp: updates_of_def list_all2_map2 list.rel_refl_strong list_all2_same dest: set_zip_rightD)
  with run show ?thesis by blast
qed

text \<open>
  C29: a query that is too large breaks the supervisor for good.  The processors of the running query
  are released before the new ones are requested and stay on record when the request fails, so the
  release at the start of any later query fails with a key error and nothing changes any more.
\<close>

theorem too_large_query_breaks_supervisor:
  assumes "supervisor_ok env sv" and "sv_stages sv \<noteq> []" and "pl_max_workers (sv_pool sv) < int (length datas)"
  shows "\<exists>sv'. new_query env answer datas sv = (Raise (PyException ''Cannot allocate workers''), sv') \<and>
    (\<forall>datas'. new_query env answer datas' sv' = (Raise KeyError, sv'))"
proof -
  obtain p where p: "release_running sv = (Return (), sv\<lparr>sv_pool := p\<rparr>)"
    "pl_acquired p = []" "length (pl_available p) = pool_total (sv_pool sv)" "pl_max_workers p = pl_max_workers (sv_pool sv)"
    using release_stages [OF assms(1)] by blast
  have "acquire env (length datas) p = (Raise (PyException ''Cannot allocate workers''), p)"
    using assms(3) p(2-4) by (simp add: acquire_def Let_def)
  with p(1) have first: "new_query env answer datas sv = (Raise (PyException ''Cannot allocate workers''), sv\<lparr>sv_pool := p\<rparr>)"
    unfolding new_query_def by (simp add: py_bind_def on_pool_def)
  have "release (map fst (sv_stages sv)) p = (Raise KeyError, p)"
    using assms(2) p(2) by (cases "sv_stages sv") (simp_all add: release_def release_one_def py_bind_def)
  then have "new_query env answer datas' (sv\<lparr>sv_pool := p\<rparr>) = (Raise KeyError, sv\<lparr>sv_pool := p\<rparr>)" for datas'
    unfolding new_query_def using assms(2) by (simp add: py_bind_def on_pool_def release_running_def)
  with first show ?thesis by blast
qed

subsection \<open>A small query\<close>

text \<open>Two copies of stage 1 and one of stage 2, which reads stage 1, on a pool of up to three processors.\<close>

definition small_query :: "stage_data list" where
  "small_query = ray_stage_datas
     [\<lparr>dfs_stage_id = 1, dfs_plan_bytes = ''scan'', dfs_partition_groups = [[0], [1]], dfs_child_stage_ids = [],
       dfs_num_output_partitions = 2, dfs_full_partitions = False\<rparr>,
      \<lparr>dfs_stage_id = 2, dfs_plan_bytes = ''sort'', dfs_partition_groups = [[0, 1]], dfs_child_stage_ids = [1],
       dfs_num_output_partitions = 1, dfs_full_partitions = False\<rparr>]"

definition small_supervisor :: supervisor where
  "small_supervisor = snd (supervisor_start small_pool_env (snd (supervisor_new small_pool_env 1 3 [''red'', ''blue'', ''old''])))"

lemma small_query_ok: "query_ok small_query" "length small_query = 3"
  by code_simp+

lemma small_supervisor_updates: "sv_updates small_supervisor = []"
  by (simp add: small_supervisor_def supervisor_start_def supervisor_new_def on_pool_def case_prod_unfold)

lemma small_supervisor_ok:
  "supervisor_ok small_pool_env small_supervisor" "pl_max_workers (sv_pool small_supervisor) = 3" "pl_adjectives (sv_pool small_supervisor) = [''blue'', ''old'']"
  "pool_total (sv_pool small_supervisor) = 1"
proof -
  define p0 where "p0 = snd (pool_new small_pool_env 1 3 False [''red'', ''blue'', ''old''])"
  have "pool_initial small_pool_env p0" unfolding pool_initial_def p0_def
    by (intro exI [of _ 1] exI [of _ 3] exI [of _ False] exI [of _ "[''red'', ''blue'', ''old'']"]) simp
  then have "pool_good small_pool_env (snd (pool_start small_pool_env p0))"
    by (intro keepsD [OF start_keeps [OF small_pool_env_ok]] pool_new_good [OF small_pool_env_ok])
  moreover have "pl_processors_ready (snd (pool_start small_pool_env p0))" "pl_acquired (snd (pool_start small_pool_env p0)) = []"
    unfolding p0_def by code_simp+
  moreover have same: "small_supervisor = \<lparr>sv_pool = snd (pool_start small_pool_env p0), sv_stages = [], sv_updates = []\<rparr>"
    by (simp add: small_supervisor_def supervisor_start_def supervisor_new_def on_pool_def p0_def case_prod_unfold)
  ultimately show "supervisor_ok small_pool_env small_supervisor" unfolding supervisor_ok_def same by simp
  show "pl_max_workers (sv_pool small_supervisor) = 3" "pl_adjectives (sv_pool small_supervisor) = [''blue'', ''old'']"
    "pool_total (sv_pool small_supervisor) = 1" by code_simp+
qed

theorem new_query_reaches_copies_witness:
  "\<exists>sv'. new_query small_pool_env (\<lambda>_. Return ()) small_query small_supervisor = (Return (), sv') \<and> length (sv_updates sv') = 3"
proof -
  have fits: "int (length small_query) \<le> pl_max_workers (sv_pool small_supervisor)"
    "length small_query \<le> pool_total (sv_pool small_supervisor) + length (pl_adjectives (sv_pool small_supervisor))"
    by (simp_all add: small_query_ok small_supervisor_ok)
  from new_query_reaches_copies [OF small_pool_answers small_supervisor_ok(1) small_query_ok(1) _ fits, of "\<lambda>_. Return ()"]
  show ?thesis by (auto dest: list_all2_lengthD simp: small_supervisor_updates small_query_ok)
qed

theorem too_large_query_breaks_supervisor_witness:
  "\<exists>sv sv'. new_query small_pool_env (\<lambda>_. Return ()) small_query small_supervisor = (Return (), sv) \<and>
     new_query small_pool_env (\<lambda>_. Return ()) (small_query @ small_query) sv = (Raise (PyException ''Cannot allocate workers''), sv') \<and>
     new_query small_pool_env (\<lambda>_. Return ()) small_query sv' = (Raise KeyError, sv')"
proof -
  have fits: "int (length small_query) \<le> pl_max_workers (sv_pool small_supervisor)"
    "length small_query \<le> pool_total (sv_pool small_supervisor) + length (pl_adjectives (sv_pool small_supervisor))"
    by (simp_all add: small_query_ok small_supervisor_ok)
  obtain ps sv where run: "new_query small_pool_env (\<lambda>_. Return ()) small_query small_supervisor = (Return (), sv)"
    "length ps = length small_query" "sv_stages sv = entries (\<lambda>key. key @ '':1'') ps small_query" "supervisor_ok small_pool_env sv"
    "pl_max_workers (sv_pool sv) = pl_max_workers (sv_pool small_supervisor)"
    using new_query_runs [OF small_pool_answers small_supervisor_ok(1) small_query_ok(1) refl fits] by blast
  have max: "pl_max_workers (sv_pool sv) = 3" by (simp add: run(5) small_supervisor_ok)
  have "length (sv_stages sv) = 3" using run(2) by (simp add: run(3) entries_def small_query_ok)
  then have some: "sv_stages sv \<noteq> []" by auto
  have large: "pl_max_workers (sv_pool sv) < int (length (small_query @ small_query))" by (simp add: max small_query_ok)
  from too_large_query_breaks_supervisor [OF run(4) some large, of "\<lambda>_. Return ()"] run(1) show ?thesis by blast
qed

subsection \<open>From a query to its readers\<close>

text \<open>
  The plan of a piece of work on its processor: it reads only the stages the piece reads, and its
  object stores can be registered.
\<close>

lemma handler_of_update:
  assumes "leads_to_copies addr ps datas sd kid" and "\<forall>key. make_client (addr key) = Ok (client (addr key))"
    and "set (reader_stages plan) \<subseteq> set (sd_child_stage_ids sd)" and "register_object_store_for_paths_in_plan plan [] = Ok stores"
  shows "\<exists>inner. handler_update_plan make_client (map_of kid) plan partition_group old = (Ok (), Some inner) \<and> hi_plan inner = plan \<and>
    (\<forall>c part. c \<in> set (reader_stages plan) \<and> part < output_parts datas c \<longrightarrow>
      stage_reader_execute do_get merge (Some (se_clients (hi_ctx inner))) c part =
        Ok (stage_reader_stream do_get merge (map client (map addr (serving_copies ps datas c))) part))"
proof -
  have out: "map_of kid c = None" if "c \<notin> set (sd_child_stage_ids sd)" for c using assms(1) that by (simp add: leads_to_copies_def)
  have inside: "\<exists>d. map_of kid c = Some d \<and> distinct (map fst d) \<and>
      (\<forall>part. map_of d part = (if part < output_parts datas c then Some (map addr (serving_copies ps datas c)) else None))"
    if "c \<in> set (sd_child_stage_ids sd)" for c using assms(1) that by (simp add: leads_to_copies_def)
  have known: "\<forall>i \<in> set (reader_stages plan). map_of kid i \<noteq> None" using inside assms(3) by (metis option.distinct(1) subsetD)
  have dicts: "\<forall>i parts. map_of kid i = Some parts \<longrightarrow> distinct (map fst parts)" using inside out by (metis option.distinct(1) option.inject)
  have reach: "\<forall>i \<in> set (reader_stages plan). \<forall>parts. map_of kid i = Some parts \<longrightarrow>
      (\<forall>(part, addrs) \<in> set parts. \<forall>a \<in> set addrs. make_client a = Ok (client a))"
  proof (intro ballI allI impI, clarify)
    fix c parts part addrs a
    assume c: "c \<in> set (reader_stages plan)" "map_of kid c = Some parts" and a: "(part, addrs) \<in> set parts" "a \<in> set addrs"
    from c assms(3) have "c \<in> set (sd_child_stage_ids sd)" by blast
    from inside [OF this] c(2) a(1) have "addrs = map addr (serving_copies ps datas c)"
      by (metis (no_types, lifting) map_of_is_SomeI option.distinct(1) option.inject)
    with a(2) assms(2) show "make_client a = Ok (client a)" by auto
  qed
  obtain inner where inner: "handler_update_plan make_client (map_of kid) plan partition_group old = (Ok (), Some inner)" "hi_plan inner = plan"
    "\<forall>i parts part addrs. i \<in> set (reader_stages plan) \<and> map_of kid i = Some parts \<and> (part, addrs) \<in> set parts \<longrightarrow>
      se_clients (hi_ctx inner) (i, part) = Some (map client addrs)"
    using handler_clients [OF reach known dicts assms(4), of partition_group old] by blast
  have "se_clients (hi_ctx inner) (c, part) = Some (map client (map addr (serving_copies ps datas c)))"
    if c: "c \<in> set (reader_stages plan)" and part: "part < output_parts datas c" for c part
  proof -
    obtain d where d: "map_of kid c = Some d" "map_of d part = Some (map addr (serving_copies ps datas c))"
      using inside [OF subsetD [OF assms(3) c]] part by auto
    from inner(3) [rule_format, OF conjI [OF c conjI [OF d(1) map_of_SomeD [OF d(2)]]]] show ?thesis .
  qed
  with inner(1,2) show ?thesis by (intro exI [of _ inner]) (simp add: stage_reader_execute_def)
qed

text \<open>
  The update \<open>u\<close> makes its processor read the copies: whatever plan for the piece \<open>sd\<close> it installs, its
  readers of an output partition combine the streams of the processors with the serving copies.
\<close>

definition reads_copies where
  "reads_copies make_client client do_get merge addr ps datas sd u \<longleftrightarrow> (\<forall>plan stores old.
     set (reader_stages plan) \<subseteq> set (sd_child_stage_ids sd) \<and> register_object_store_for_paths_in_plan plan [] = Ok stores \<longrightarrow>
     (\<exists>inner. handler_update_plan make_client (map_of (pu_child_addrs u)) plan (pu_partition_group u) old = (Ok (), Some inner) \<and>
       hi_plan inner = plan \<and> (\<forall>c part. c \<in> set (reader_stages plan) \<and> part < output_parts datas c \<longrightarrow>
         stage_reader_execute do_get merge (Some (se_clients (hi_ctx inner))) c part =
           Ok (stage_reader_stream do_get merge (map client (map addr (serving_copies ps datas c))) part))))"

text \<open>
  C26: the readers of a query read the copies of the stage they name.  After a query every processor
  that installs a plan which reads only the stages of its piece of work answers a reader of an
  output partition of such a stage with the combination of the streams of all processors that run
  a copy of that stage, in the order of the query; only when the last copy has full partitions
  is it the stream of that copy alone.
\<close>

theorem query_readers_read_copies:
  assumes "answering env addr" and "supervisor_ok env sv" and "query_ok datas" and "\<forall>u. answer u = Return ()"
    and "int (length datas) \<le> pl_max_workers (sv_pool sv)" and "length datas \<le> pool_total (sv_pool sv) + length (pl_adjectives (sv_pool sv))"
    and "\<forall>key. make_client (addr key) = Ok (client (addr key))"
  shows "\<exists>ps us sv'. new_query env answer datas sv = (Return (), sv') \<and> sv_updates sv' = sv_updates sv @ us \<and>
    length ps = length datas \<and> distinct (map processor_key ps) \<and>
    list_all2 (\<lambda>(p, sd) u. pu_processor u = p \<and> reads_copies make_client client do_get merge addr ps datas sd u) (zip ps datas) us"
proof -
  obtain ps sv' where run: "new_query env answer datas sv = (Return (), sv')" "length ps = length datas" "distinct (map processor_key ps)"
    "sv_updates sv' = sv_updates sv @ updates_of addr ps datas"
    using new_query_runs [of env addr sv datas answer] assms(1-6) by blast
  have reads: "reads_copies make_client client do_get merge addr ps datas sd u" if "sd \<in> set datas" "pu_child_addrs u = kid_of addr ps datas sd" for sd u
    unfolding reads_copies_def that(2)
    using handler_of_update [OF kid_leads_to_copies [where addr = addr, OF run(2) assms(3) that(1)] assms(7)] by blast
  have "list_all2 (\<lambda>(p, sd) u. pu_processor u = p \<and> reads_copies make_client client do_get merge addr ps datas sd u)
      (zip ps datas) (updates_of addr ps datas)"
    unfolding updates_of_def list_all2_map2 by (rule list.rel_refl_strong) (auto intro: reads dest: set_zip_rightD)
  with run show ?thesis by blast
qed

theorem query_readers_read_copies_witness:
  "\<exists>ps (us :: plan_update list) sv'. new_query small_pool_env (\<lambda>_. Return ()) small_query small_supervisor = (Return (), sv') \<and>
     list_all2 (\<lambda>(p, sd) u. pu_processor u = p \<and>
       reads_copies Ok id (\<lambda>a part. Some [Ok (a, part)]) concat (\<lambda>key. key @ '':1'') ps small_query sd u) (zip ps small_query) us \<and>
     length (zip ps small_query) = 3"
proof -
  have fits: "int (length small_query) \<le> pl_max_workers (sv_pool small_supervisor)"
    "length small_query \<le> pool_total (sv_pool small_supervisor) + length (pl_adjectives (sv_pool small_supervisor))"
    by (simp_all add: small_query_ok small_supervisor_ok)
  have clients: "\<forall>key. Ok (key @ '':1'') = Ok (id (key @ '':1''))" by simp
  have answers: "\<forall>u. (\<lambda>_. Return ()) u = Return ()" by simp
  from query_readers_read_copies [OF small_pool_answers small_supervisor_ok(1) small_query_ok(1) answers fits clients,
    of "\<lambda>a part. Some [Ok (a, part)]" concat]
  obtain ps and us :: "plan_update list" and sv' where run: "new_query small_pool_env (\<lambda>_. Return ()) small_query small_supervisor = (Return (), sv')"
    "length ps = length small_query" "list_all2 (\<lambda>(p, sd) u. pu_processor u = p \<and>
       reads_copies Ok id (\<lambda>a part. Some [Ok (a, part)]) concat (\<lambda>key. key @ '':1'') ps small_query sd u) (zip ps small_query) us"
    by blast
  moreover have "length (zip ps small_query) = 3" by (simp add: run(2) small_query_ok)
  ultimately show ?thesis by blast
qed

text \<open>Every output stream of a streaming query is mapped to the address of the processor that produces it.\<close>

lemma output_stream_addresses:
  assumes "distinct (map (\<lambda>(_, isd). ssd_output_stream_id (issd_data isd)) all_stages)" and "(key, isd) \<in> set all_stages"
  shows "map_of (output_stream_address_map all_stages) (ssd_output_stream_id (issd_data isd)) = Some (issd_remote_addr isd)"
proof -
  have "map_of (fold (\<lambda>(_, isd). dict_set (ssd_output_stream_id (issd_data isd)) (issd_remote_addr isd)) xs d) sid =
      (if sid \<in> (\<lambda>(_, isd). ssd_output_stream_id (issd_data isd)) ` set xs
       then map_of (map (\<lambda>(_, isd). (ssd_output_stream_id (issd_data isd), issd_remote_addr isd)) xs) sid else map_of d sid)"
    if "distinct (map (\<lambda>(_, isd). ssd_output_stream_id (issd_data isd)) xs)" for xs d sid
    using that by (induction xs arbitrary: d) (auto simp: case_prod_unfold)
  note this [OF assms(1), of "[]" "ssd_output_stream_id (issd_data isd)"]
  moreover have "map_of (map (\<lambda>(_, isd). (ssd_output_stream_id (issd_data isd), issd_remote_addr isd)) all_stages) (ssd_output_stream_id (issd_data isd)) =
      Some (issd_remote_addr isd)"
    by (rule map_of_is_SomeI) (use assms in \<open>force simp: comp_def case_prod_unfold\<close>)+
  ultimately show ?thesis using assms(2) by (force simp: output_stream_address_map_def)
qed

subsection \<open>Streaming queries\<close>

definition stream_entries :: "(string \<Rightarrow> string) \<Rightarrow> actor list \<Rightarrow> streaming_stage_data list \<Rightarrow> (string \<times> internal_streaming_stage_data) list" where
  "stream_entries addr ps datas = map (\<lambda>(p, sd). (processor_key p,
     \<lparr>issd_data = sd, issd_remote_processor = p, issd_remote_addr = addr (processor_key p)\<rparr>)) (zip ps datas)"

definition streaming_supervisor_ok :: "pool_env \<Rightarrow> streaming_supervisor \<Rightarrow> bool" where
  "streaming_supervisor_ok env sv \<longleftrightarrow> pool_good env (ss_pool sv) \<and> pl_processors_ready (ss_pool sv) \<and>
     distinct (map fst (ss_streaming_stages sv)) \<and> fst ` set (ss_streaming_stages sv) = set (pl_acquired (ss_pool sv))"

lemma assign_streaming_stages_entries:
  assumes "length ps = length datas" and "distinct (map processor_key ps)" and "set (map processor_key ps) \<inter> fst ` set acc = {}"
  shows "assign_streaming_stages datas ps (map processor_key ps) (map addr (map processor_key ps)) acc = acc @ stream_entries addr ps datas"
  using assms
proof (induction datas arbitrary: ps acc)
  case (Cons sd datas)
  then obtain p ps' where ps: "ps = p # ps'" by (cases ps) auto
  define e where "e = \<lparr>issd_data = sd, issd_remote_processor = p, issd_remote_addr = addr (processor_key p)\<rparr>"
  have "dict_set (processor_key p) e acc = acc @ [(processor_key p, e)]"
    by (rule dict_set_new) (use Cons.prems(3) ps in auto)
  with Cons.IH [of ps' "acc @ [(processor_key p, e)]"] Cons.prems ps show ?case by (auto simp: stream_entries_def e_def)
qed (simp add: stream_entries_def)

lemma stream_entries_keys: "length ps = length datas \<Longrightarrow> map fst (stream_entries addr ps datas) = map processor_key ps"
  by (induction ps datas rule: list_induct2) (simp_all add: stream_entries_def)

lemma release_streams:
  assumes "streaming_supervisor_ok env sv"
  shows "\<exists>p. release_running_streams sv = (Return (), sv\<lparr>ss_pool := p\<rparr>) \<and> pool_good env p \<and> pl_processors_ready p \<and> pl_acquired p = [] \<and>
      length (pl_available p) = pool_total (ss_pool sv) \<and> pl_max_workers p = pl_max_workers (ss_pool sv) \<and>
      pl_adjectives p = pl_adjectives (ss_pool sv)"
proof -
  have ok: "pool_good env (ss_pool sv)" "distinct (map fst (ss_streaming_stages sv))"
    "set (map fst (ss_streaming_stages sv)) = set (pl_acquired (ss_pool sv))"
    "pl_processors_ready (ss_pool sv)" using assms by (simp_all add: streaming_supervisor_ok_def)
  have "release_running_streams sv = on_streaming_pool (release (map fst (ss_streaming_stages sv))) sv"
    by (simp add: release_running_streams_def on_streaming_pool_def release_nothing)
  with release_recorded [OF ok(1-3)] ok(4) show ?thesis by (auto simp: on_streaming_pool_def)
qed

lemma send_streaming_updates:
  "py_map (\<lambda>u. py_bind (py_update (\<lambda>sv. sv\<lparr>ss_updates := ss_updates sv @ [u]\<rparr>)) (\<lambda>_. py_return (answer u))) us sv =
    (Return (map answer us), sv\<lparr>ss_updates := ss_updates sv @ us\<rparr>)"
  by (induction us arbitrary: sv) (simp_all add: py_defs)

lemma update_plan_missing: "stream_processor_update_plan = (\<lambda>_. Raise (AttributeError ''update_plan''))"
  by (simp add: fun_eq_iff stream_processor_update_plan_def py_getattr_def streaming_service_methods_def)

lemma wait_for_raises:
  assumes "pool_env_ok env" and "us \<noteq> []"
  shows "wait_for env (map (\<lambda>_. Raise e) us) = Raise e"
proof -
  have "mset (pe_done env (length us)) = mset [0..<length us]" using assms(1) by (simp add: pool_env_ok_def)
  then have "set (pe_done env (length us)) = {0..<length us}" by (metis set_mset_mset set_upt)
  moreover from this obtain i rest where "pe_done env (length us) = i # rest"
    using assms(2) by (cases "pe_done env (length us)") auto
  ultimately have "pe_done env (length us) = i # rest" "i < length us" by auto
  with assms(2) show ?thesis by (simp add: wait_for_def)
qed

text \<open>No streaming query succeeds, on any pool: the updates, if it comes to them, raise.\<close>

lemma streaming_query_raises:
  assumes "pool_env_ok env"
  shows "\<exists>e sv'. run_streaming_query env datas sv = (Raise e, sv')"
proof -
  have "\<exists>e. wait_for env (map stream_processor_update_plan us) = Raise e" for us
    unfolding update_plan_missing using wait_for_raises [OF assms, of us] by (cases "us = []") (auto simp: wait_for_def)
  then show ?thesis
    by (auto simp: run_streaming_query_def py_bind_def [where m = release_running_streams] send_streaming_updates py_bind_def
        py_outcome_def py_update_def py_get_def simp del: map_map split: outcome.split prod.split) (metis outcome.distinct(1))
qed

text \<open>On a pool that is ready it comes to the updates: every stage has a processor, which is told all addresses.\<close>

lemma streaming_query_updates:
  assumes "answering env addr" and "streaming_supervisor_ok env sv" and "datas \<noteq> []"
    and "int (length datas) \<le> pl_max_workers (ss_pool sv)" and "length datas \<le> pool_total (ss_pool sv) + length (pl_adjectives (ss_pool sv))"
  shows "\<exists>ps sv'. run_streaming_query env datas sv = (Raise (AttributeError ''update_plan''), sv') \<and> length ps = length datas \<and>
    distinct (map processor_key ps) \<and> ss_streaming_stages sv' = stream_entries addr ps datas \<and> streaming_supervisor_ok env sv' \<and>
    ss_updates sv' = ss_updates sv @
      map (streaming_update_of (output_stream_address_map (stream_entries addr ps datas))) (stream_entries addr ps datas)"
proof -
  have env: "pool_env_ok env" using assms(1) by (simp add: answering_def)
  obtain p where p: "release_running_streams sv = (Return (), sv\<lparr>ss_pool := p\<rparr>)"
    "pool_good env p" "pl_processors_ready p" "pl_acquired p = []" "length (pl_available p) = pool_total (ss_pool sv)"
    "pl_max_workers p = pl_max_workers (ss_pool sv)" "pl_adjectives p = pl_adjectives (ss_pool sv)"
    using release_streams [OF assms(2)] by blast
  have room: "int (length datas) + int (length (pl_acquired p)) \<le> pl_max_workers p" using assms(4) p(4,6) by simp
  have names: "length datas \<le> length (pl_available p) + length (pl_adjectives p)" using assms(5) p(5,7) by simp
  obtain ps keys q where q: "acquire env (length datas) p = (Return (ps, keys, map addr keys), q)" "map processor_key ps = keys"
    "length keys = length datas" "distinct keys" "set (pl_acquired q) = set (pl_acquired p) \<union> set keys" "pl_processors_ready q" "pool_good env q"
    using acquire_gives [OF assms(1) p(2,3) room names] by blast
  have len: "length ps = length datas" and keys: "distinct (map processor_key ps)" using q(2-4) by auto
  define es where "es = stream_entries addr ps datas"
  define us where "us = map (streaming_update_of (output_stream_address_map es)) es"
  have assigned: "assign_streaming_stages datas ps keys (map addr keys) [] = es"
    using assign_streaming_stages_entries [OF len keys, of "[]" addr] q(2) by (simp add: es_def)
  have "us \<noteq> []" using assms(3) len by (cases ps; cases datas) (simp_all add: us_def es_def stream_entries_def)
  then have waited: "wait_for env (map stream_processor_update_plan us) = Raise (AttributeError ''update_plan'')"
    unfolding update_plan_missing by (rule wait_for_raises [OF env])
  define sv1 where "sv1 = sv\<lparr>ss_pool := q\<rparr>"
  define sv2 where "sv2 = sv1\<lparr>ss_streaming_stages := es\<rparr>"
  define sv' where "sv' = sv2\<lparr>ss_updates := ss_updates sv2 @ us\<rparr>"
  have "on_streaming_pool (acquire env (length datas)) (sv\<lparr>ss_pool := p\<rparr>) = (Return (ps, keys, map addr keys), sv1)"
    using q(1) by (simp add: on_streaming_pool_def sv1_def)
  moreover have "py_update (\<lambda>sv. sv\<lparr>ss_streaming_stages := assign_streaming_stages datas ps keys (map addr keys) []\<rparr>) sv1 = (Return (), sv2)"
    by (simp add: py_update_def sv2_def assigned)
  moreover have "py_get ss_streaming_stages sv2 = (Return es, sv2)" by (simp add: py_get_def sv2_def)
  moreover have "py_outcome (wait_for env (map stream_processor_update_plan us)) sv' = (Raise (AttributeError ''update_plan''), sv')"
    by (simp add: py_outcome_def waited)
  ultimately have "run_streaming_query env datas sv = (Raise (AttributeError ''update_plan''), sv')"
    by (simp only: run_streaming_query_def py_bind_def [where m = release_running_streams] py_bind_Return p(1) send_streaming_updates
      us_def [symmetric] sv'_def [symmetric] prod.case outcome.case py_bind_def [where m = "py_outcome r" for r])
  moreover have "streaming_supervisor_ok env sv'"
    using q(2,4-7) p(4) stream_entries_keys [OF len, of addr]
    by (simp add: streaming_supervisor_ok_def sv'_def sv2_def sv1_def es_def flip: list.set_map)
  ultimately show ?thesis using len keys
    by (intro exI [of _ ps] exI [of _ sv']) (simp add: sv'_def sv2_def sv1_def us_def es_def)
qed

end
