(* ===== verification/Data_Frame.thy ===== *)
theory Data_Frame
  imports Supervisor
begin

text \<open>
  The user's side of the batch engine: \<open>DFRayContext\<close> and \<open>DFRayDataFrame\<close> of
  \<open>datafusion_ray/core.py\<close> with the session of \<open>context.rs\<close> under them.

  A data frame holds its two supervisors, the options of its context and three caches: the stages,
  the streaming stages and the batches of the result.  A cache that is \<open>None\<close> or empty counts as
  not filled.  The planner behind a data frame (the Rust class \<open>DFRayDataFrame\<close>, whose methods are
  commented out) is the record \<open>planner\<close> of the answers to the calls that are made.  The SQL
  front end of the session and its table providers are parameters.  A call of an actor is run in
  its supervisor, and its outcome is handed to \<open>wait_for\<close>.

  The theorems show that \<open>collect\<close> runs its query once and reads the result from a processor that
  was given the last stage, that \<open>collect_streaming\<close> never computes a result, and which results are
  computed again or mixed up.
\<close>

subsection \<open>State\<close>

record streaming_dataframe_stage =
  sfs_stage_id :: nat
  sfs_output_stream_id :: string
  sfs_plan_bytes :: string

record 'b planner =
  pn_stages :: "nat \<Rightarrow> nat \<Rightarrow> nat option \<Rightarrow> dataframe_stage list outcome"
  pn_streaming_stages :: "streaming_dataframe_stage list outcome"
  pn_read_final_stage :: "nat \<Rightarrow> string \<Rightarrow> 'b list outcome"
  pn_read_final_streaming_stage :: "nat \<Rightarrow> string \<Rightarrow> string \<Rightarrow> 'b list outcome"

record 'b data_frame =
  df_supervisor :: supervisor
  df_streaming_supervisor :: streaming_supervisor
  df_stages :: "dataframe_stage list option"
  df_streaming_stages :: "streaming_dataframe_stage list option"
  df_batches :: "'b list option"
  df_batch_size :: nat
  df_partitions_per_worker :: "nat option"
  df_prefetch_buffer_size :: nat

text \<open>What the pool and the processors do.\<close>

record actors =
  ac_pool :: pool_env
  ac_answer :: "plan_update \<Rightarrow> unit outcome"

definition falsy :: "'a list option \<Rightarrow> bool" where
  "falsy cache \<longleftrightarrow> cache = None \<or> cache = Some []"

definition py_max :: "nat list \<Rightarrow> nat outcome" where
  "py_max xs = (if xs = [] then Raise (ValueError ''max() arg is an empty sequence'') else Return (Max (set xs)))"

definition py_min :: "nat list \<Rightarrow> nat outcome" where
  "py_min xs = (if xs = [] then Raise (ValueError ''min() arg is an empty sequence'') else Return (Min (set xs)))"

definition py_first :: "'a list \<Rightarrow> 'a outcome" where
  "py_first xs = (case xs of [] \<Rightarrow> Raise IndexError | x # _ \<Rightarrow> Return x)"

subsection \<open>Data frames\<close>

definition data_frame_new :: "supervisor \<Rightarrow> streaming_supervisor \<Rightarrow> nat \<Rightarrow> nat option \<Rightarrow> nat \<Rightarrow> 'b data_frame" where
  "data_frame_new supervisor streaming_supervisor batch_size partitions_per_worker prefetch_buffer_size =
     \<lparr>df_supervisor = supervisor, df_streaming_supervisor = streaming_supervisor, df_stages = None, df_streaming_stages = None,
      df_batches = None, df_batch_size = batch_size, df_partitions_per_worker = partitions_per_worker,
      df_prefetch_buffer_size = prefetch_buffer_size\<rparr>"

definition frame_stages :: "'b planner \<Rightarrow> ('b data_frame, dataframe_stage list) py" where
  "frame_stages pn f =
     (if falsy (df_stages f)
      then (case pn_stages pn (df_batch_size f) (df_prefetch_buffer_size f) (df_partitions_per_worker f) of
              Raise e \<Rightarrow> (Raise e, f)
            | Return s \<Rightarrow> (Return s, f\<lparr>df_stages := Some s\<rparr>))
      else (Return (the (df_stages f)), f))"

definition frame_streaming_stages :: "'b planner \<Rightarrow> ('b data_frame, streaming_dataframe_stage list) py" where
  "frame_streaming_stages pn f =
     (if falsy (df_streaming_stages f)
      then (case pn_streaming_stages pn of
              Raise e \<Rightarrow> (Raise e, f)
            | Return s \<Rightarrow> (Return s, f\<lparr>df_streaming_stages := Some s\<rparr>))
      else (Return (the (df_streaming_stages f)), f))"

text \<open>A call of an actor and the wait for its outcome.\<close>

definition call_supervisor :: "actors \<Rightarrow> (supervisor, unit) py \<Rightarrow> ('b data_frame, unit) py" where
  "call_supervisor ac m f =
     (case m (df_supervisor f) of (r, sv) \<Rightarrow>
        (case wait_for (ac_pool ac) [r] of Raise e \<Rightarrow> Raise e | Return _ \<Rightarrow> Return (), f\<lparr>df_supervisor := sv\<rparr>))"

definition call_streaming_supervisor :: "actors \<Rightarrow> (streaming_supervisor, unit) py \<Rightarrow> ('b data_frame, unit) py" where
  "call_streaming_supervisor ac m f =
     (case m (df_streaming_supervisor f) of (r, sv) \<Rightarrow>
        (case wait_for (ac_pool ac) [r] of Raise e \<Rightarrow> Raise e | Return _ \<Rightarrow> Return (), f\<lparr>df_streaming_supervisor := sv\<rparr>))"

definition create_ray_stages :: "actors \<Rightarrow> 'b planner \<Rightarrow> ('b data_frame, unit) py" where
  "create_ray_stages ac pn =
     py_bind (frame_stages pn) (\<lambda>all_stages.
     call_supervisor ac (new_query (ac_pool ac) (ac_answer ac) (ray_stage_datas all_stages)))"

definition streaming_stage_datas :: "streaming_dataframe_stage list \<Rightarrow> streaming_stage_data list" where
  "streaming_stage_datas = map (\<lambda>stage.
     \<lparr>ssd_stage_id = sfs_stage_id stage, ssd_output_stream_id = sfs_output_stream_id stage, ssd_plan_bytes = sfs_plan_bytes stage\<rparr>)"

definition create_ray_streaming_stages :: "actors \<Rightarrow> 'b planner \<Rightarrow> ('b data_frame, unit) py" where
  "create_ray_streaming_stages ac pn =
     py_bind (frame_streaming_stages pn) (\<lambda>all_stages.
     call_streaming_supervisor ac (run_streaming_query (ac_pool ac) (streaming_stage_datas all_stages)))"

definition store_batches :: "'b list \<Rightarrow> ('b data_frame, 'b list) py" where
  "store_batches batches f = (Return batches, f\<lparr>df_batches := Some batches\<rparr>)"

definition collect_frame :: "actors \<Rightarrow> 'b planner \<Rightarrow> ('b data_frame, 'b list) py" where
  "collect_frame ac pn f =
     (if falsy (df_batches f)
      then py_bind (frame_stages pn) (\<lambda>all_stages.
        py_bind (py_outcome (py_max (map dfs_stage_id all_stages))) (\<lambda>last_stage_id.
        py_bind (create_ray_stages ac pn) (\<lambda>_.
        py_bind (py_get (\<lambda>f. get_stage_addrs last_stage_id (df_supervisor f))) (\<lambda>last_stage_addrs.
        py_bind (py_outcome (py_first last_stage_addrs)) (\<lambda>addr.
        py_bind (py_outcome (pn_read_final_stage pn last_stage_id addr)) store_batches))))) f
      else (Return (the (df_batches f)), f))"

definition collect_streaming :: "actors \<Rightarrow> 'b planner \<Rightarrow> ('b data_frame, 'b list) py" where
  "collect_streaming ac pn f =
     (if falsy (df_batches f)
      then py_bind (frame_streaming_stages pn) (\<lambda>all_stages.
        py_bind (py_outcome (py_min (map sfs_stage_id all_stages))) (\<lambda>last_stage_id.
        py_bind (create_ray_streaming_stages ac pn) (\<lambda>_.
        py_bind (py_get (\<lambda>f. get_streaming_stage_addrs last_stage_id (df_streaming_supervisor f))) (\<lambda>last_stage_addrs.
        py_bind (py_outcome (py_first last_stage_addrs)) (\<lambda>(addr, output_stream_id).
        py_bind (py_outcome (pn_read_final_streaming_stage pn last_stage_id addr output_stream_id)) store_batches))))) f
      else (Return (the (df_batches f)), f))"

subsection \<open>The session\<close>

text \<open>
  The Rust \<open>DFRayContext\<close>: its object stores, registered tables and options.  Reading urls, creating
  the table providers, planning a query and setting an option belong to DataFusion and are arguments.
\<close>

datatype table = ParquetTable string string | CsvTable string string | ListingTable string string string

record 'o ray_session =
  sn_stores :: store_registry
  sn_tables :: "table list"
  sn_options :: 'o

definition register_table :: "(string \<Rightarrow> url result) \<Rightarrow> (table \<Rightarrow> 'o ray_session \<Rightarrow> unit result) \<Rightarrow> string \<Rightarrow> table \<Rightarrow> 'o ray_session \<Rightarrow> unit result \<times> 'o ray_session" where
  "register_table parse provider path t s =
     (case bind_result (parse path) (\<lambda>u. maybe_register_object_store u (sn_stores s)) of
        Err e \<Rightarrow> (Err e, s)
      | Ok stores \<Rightarrow>
          (let s' = s\<lparr>sn_stores := stores\<rparr>
           in case provider t s' of Err e \<Rightarrow> (Err e, s') | Ok _ \<Rightarrow> (Ok (), s'\<lparr>sn_tables := sn_tables s' @ [t]\<rparr>)))"

definition register_parquet :: "(string \<Rightarrow> url result) \<Rightarrow> (table \<Rightarrow> 'o ray_session \<Rightarrow> unit result) \<Rightarrow> string \<Rightarrow> string \<Rightarrow> 'o ray_session \<Rightarrow> unit result \<times> 'o ray_session" where
  "register_parquet parse provider name path = register_table parse provider path (ParquetTable name path)"

definition register_csv :: "(string \<Rightarrow> url result) \<Rightarrow> (table \<Rightarrow> 'o ray_session \<Rightarrow> unit result) \<Rightarrow> string \<Rightarrow> string \<Rightarrow> 'o ray_session \<Rightarrow> unit result \<times> 'o ray_session" where
  "register_csv parse provider name path = register_table parse provider path (CsvTable name path)"

definition register_listing_table ::
  "(string \<Rightarrow> url result) \<Rightarrow> (table \<Rightarrow> 'o ray_session \<Rightarrow> unit result) \<Rightarrow> string \<Rightarrow> string \<Rightarrow> string \<Rightarrow> 'o ray_session \<Rightarrow> unit result \<times> 'o ray_session" where
  "register_listing_table parse provider name path file_extension =
     (let path = path @ ''/'' in register_table parse provider path (ListingTable name path file_extension))"

definition session_sql :: "(string \<Rightarrow> 'o ray_session \<Rightarrow> 'p outcome) \<Rightarrow> string \<Rightarrow> 'o ray_session \<Rightarrow> 'b planner outcome" where
  "session_sql sql query s =
     (case sql query s of Raise e \<Rightarrow> Raise e
      | Return _ \<Rightarrow> Raise (NotImplementedError ''DFRayDataFrame is not implemented yet''))"

definition session_set :: "(string \<Rightarrow> string \<Rightarrow> 'o \<Rightarrow> 'o result) \<Rightarrow> string \<Rightarrow> string \<Rightarrow> 'o ray_session \<Rightarrow> unit result \<times> 'o ray_session" where
  "session_set assign_option opt val s =
     (case assign_option opt val (sn_options s) of Err e \<Rightarrow> (Err e, s) | Ok os \<Rightarrow> (Ok (), s\<lparr>sn_options := os\<rparr>))"

subsection \<open>Contexts\<close>

record 'o ray_context =
  rc_ctx :: "'o ray_session"
  rc_supervisor :: supervisor
  rc_streaming_supervisor :: streaming_supervisor
  rc_batch_size :: nat
  rc_partitions_per_worker :: "nat option"
  rc_prefetch_buffer_size :: nat

text \<open>A call of an actor fails like its constructor when that failed.\<close>

definition started :: "pool_env \<Rightarrow> unit outcome \<times> 's \<Rightarrow> ('s, unit) py \<Rightarrow> unit outcome \<times> 's" where
  "started env created start =
     (case created of (Raise e, s) \<Rightarrow> (Raise e, s)
      | (Return _, s) \<Rightarrow> (case start s of (r, s') \<Rightarrow> (case wait_for env [r] of Raise e \<Rightarrow> Raise e | Return _ \<Rightarrow> Return (), s')))"

definition context_new :: "pool_env \<Rightarrow> string list \<Rightarrow> nat \<Rightarrow> nat \<Rightarrow> nat option \<Rightarrow> int \<Rightarrow> int \<Rightarrow> 'o ray_session \<Rightarrow> 'o ray_context outcome" where
  "context_new env adjectives batch_size prefetch_buffer_size partitions_per_worker worker_pool_min worker_pool_max ctx =
     (case started env (supervisor_new env worker_pool_min worker_pool_max adjectives) (supervisor_start env) of
        (Raise e, _) \<Rightarrow> Raise e
      | (Return _, sv) \<Rightarrow>
          (case started env (streaming_supervisor_new env worker_pool_min worker_pool_max adjectives) (streaming_supervisor_start env) of
             (Raise e, _) \<Rightarrow> Raise e
           | (Return _, ssv) \<Rightarrow> Return \<lparr>rc_ctx = ctx, rc_supervisor = sv, rc_streaming_supervisor = ssv, rc_batch_size = batch_size,
               rc_partitions_per_worker = partitions_per_worker, rc_prefetch_buffer_size = prefetch_buffer_size\<rparr>))"

definition context_sql :: "(string \<Rightarrow> 'o ray_session \<Rightarrow> 'p outcome) \<Rightarrow> string \<Rightarrow> 'o ray_context \<Rightarrow> ('b planner \<times> 'b data_frame) outcome" where
  "context_sql sql query c =
     (case session_sql sql query (rc_ctx c) of Raise e \<Rightarrow> Raise e
      | Return df \<Rightarrow> Return (df, data_frame_new (rc_supervisor c) (rc_streaming_supervisor c) (rc_batch_size c) (rc_partitions_per_worker c)
          (rc_prefetch_buffer_size c)))"

definition context_del :: "pool_env \<Rightarrow> ('o ray_context, unit) py" where
  "context_del env c =
     (case started env (Return (), rc_supervisor c) (supervisor_all_done env) of
        (Raise e, sv) \<Rightarrow> (Raise e, c\<lparr>rc_supervisor := sv\<rparr>)
      | (Return _, sv) \<Rightarrow>
          (case started env (Return (), rc_streaming_supervisor c) (streaming_supervisor_all_done env) of
             (r, ssv) \<Rightarrow> (r, c\<lparr>rc_supervisor := sv, rc_streaming_supervisor := ssv\<rparr>)))"

subsection \<open>Facts on data frames\<close>

lemma wait_for_one: "pool_env_ok env \<Longrightarrow> wait_for env [r] = (case r of Raise e \<Rightarrow> Raise e | Return x \<Rightarrow> Return [x])"
proof -
  assume "pool_env_ok env"
  then have "mset (pe_done env 1) = {#0#}" by (simp add: pool_env_ok_def)
  then have "pe_done env 1 = [0]" by simp
  then show ?thesis by (simp add: wait_for_def split: outcome.split)
qed

text \<open>A result that is not empty is kept; an empty one is computed again.\<close>

lemma collect_cached: "df_batches f = Some (b # bs) \<Longrightarrow> collect_frame ac pn f = (Return (b # bs), f)"
  by (simp add: collect_frame_def falsy_def)

lemma collect_streaming_cached: "df_batches f = Some (b # bs) \<Longrightarrow> collect_streaming ac pn f = (Return (b # bs), f)"
  by (simp add: collect_streaming_def falsy_def)

text \<open>No query of a context ever gives a data frame.\<close>

lemma sql_never_returns: "\<exists>e. context_sql sql query c = Raise e"
  by (simp add: context_sql_def session_sql_def split: outcome.split)

text \<open>The object store of a table stays registered when its provider cannot be created.\<close>

lemma failed_table_keeps_store:
  assumes "parse path = Ok u" and "maybe_register_object_store u (sn_stores s) = Ok stores"
    and "provider t (s\<lparr>sn_stores := stores\<rparr>) = Err e"
  shows "register_table parse provider path t s = (Err e, s\<lparr>sn_stores := stores\<rparr>)"
  using assms by (simp add: register_table_def result_simps)

subsection \<open>Collecting\<close>

lemma stage_addrs_of_entries:
  "get_stage_addrs i sv = map addr (copies_of ps datas i)" if "sv_stages sv = entries addr ps datas"
  by (simp add: get_stage_addrs_def that entries_def copies_of_def filter_map comp_def case_prod_unfold)

lemma stage_ids_of_datas:
  assumes "list_all (\<lambda>stage. dfs_partition_groups stage \<noteq> []) all_stages"
  shows "sd_stage_id ` set (ray_stage_datas all_stages) = dfs_stage_id ` set all_stages"
  using assms by (induction all_stages) (auto simp: ray_stage_datas_def image_Un image_image neq_Nil_conv)

lemma first_copy:
  assumes "length ps = length datas" and "i \<in> sd_stage_id ` set datas"
  shows "\<exists>u \<in> set (updates_of addr ps datas). pu_stage_id u = i \<and> py_first (map addr (copies_of ps datas i)) = Return (addr (processor_key (pu_processor u)))"
proof -
  define found where "found = filter (\<lambda>(_, sd). sd_stage_id sd = i) (zip ps datas)"
  have "snd ` set (zip ps datas) = set datas" using assms(1) by (metis map_snd_zip list.set_map)
  with assms(2) have "found \<noteq> []" by (force simp: found_def filter_empty_conv)
  then obtain p sd rest where first: "found = (p, sd) # rest" by (cases found) auto
  then have "(p, sd) \<in> set found" by simp
  then have member: "(p, sd) \<in> set (zip ps datas)" "sd_stage_id sd = i" by (auto simp: found_def)
  have "py_first (map addr (copies_of ps datas i)) = Return (addr (processor_key p))"
    by (simp add: copies_of_def found_def [symmetric] first py_first_def)
  with member show ?thesis by (force simp: updates_of_def)
qed

lemma frame_stages_kept:
  assumes "frame_stages pn f = (Return all_stages, g)" and "all_stages \<noteq> []"
  shows "frame_stages pn g = (Return all_stages, g)"
  using assms by (auto simp: frame_stages_def falsy_def split: if_splits outcome.splits)

text \<open>
  C27: collecting a data frame runs its query and reads the result where the last stage runs.  On a
  frame without a result, whose stages form a query that its supervisor can run and each have a
  piece of work, \<open>collect\<close> sends one update per piece, reads the stage with the largest number at the
  address of a processor that was given this stage, and keeps what it read.  When that is not
  empty, collecting again returns it and changes nothing.
\<close>

theorem collect_reads_last_stage:
  assumes "answering (ac_pool ac) addr" and "supervisor_ok (ac_pool ac) (df_supervisor f)" and "falsy (df_batches f)"
    and "frame_stages pn f = (Return all_stages, g)" and "list_all (\<lambda>stage. dfs_partition_groups stage \<noteq> []) all_stages"
    and "query_ok (ray_stage_datas all_stages)" and "\<forall>u. ac_answer ac u = Return ()"
    and "int (length (ray_stage_datas all_stages)) \<le> pl_max_workers (sv_pool (df_supervisor f))"
    and "length (ray_stage_datas all_stages) \<le> pool_total (sv_pool (df_supervisor f)) + length (pl_adjectives (sv_pool (df_supervisor f)))"
  shows "\<exists>us u h. collect_frame ac pn f =
      py_bind (py_outcome (pn_read_final_stage pn (Max (dfs_stage_id ` set all_stages)) (addr (processor_key (pu_processor u))))) store_batches h \<and>
    sv_updates (df_supervisor h) = sv_updates (df_supervisor f) @ us \<and> length us = length (ray_stage_datas all_stages) \<and>
    u \<in> set us \<and> pu_stage_id u = Max (dfs_stage_id ` set all_stages) \<and> supervisor_ok (ac_pool ac) (df_supervisor h) \<and>
    (\<forall>b bs k. collect_frame ac pn f = (Return (b # bs), k) \<longrightarrow> collect_frame ac pn k = (Return (b # bs), k))"
proof -
  let ?datas = "ray_stage_datas all_stages" and ?last = "Max (dfs_stage_id ` set all_stages)"
  have env: "pool_env_ok (ac_pool ac)" using assms(1) by (simp add: answering_def)
  have some: "all_stages \<noteq> []" using assms(6) by (auto simp: query_ok_def ray_stage_datas_def)
  have same: "df_supervisor g = df_supervisor f" using assms(4) by (auto simp: frame_stages_def split: if_splits outcome.splits)
  obtain ps sv where run: "new_query (ac_pool ac) (ac_answer ac) ?datas (df_supervisor g) = (Return (), sv)" "length ps = length ?datas"
    "sv_stages sv = entries addr ps ?datas" "sv_updates sv = sv_updates (df_supervisor f) @ updates_of addr ps ?datas"
    "supervisor_ok (ac_pool ac) sv"
    using new_query_runs [OF assms(1,2,6) _ assms(8,9), of "ac_answer ac"] assms(7) same by auto
  have "?last \<in> dfs_stage_id ` set all_stages" using some by (intro Max_in) auto
  then have "?last \<in> sd_stage_id ` set ?datas" by (simp only: stage_ids_of_datas [OF assms(5)])
  from first_copy [OF run(2) this, of addr] obtain u where
    u: "u \<in> set (updates_of addr ps ?datas)" "pu_stage_id u = ?last"
      "py_first (map addr (copies_of ps ?datas ?last)) = Return (addr (processor_key (pu_processor u)))" by blast
  define h where "h = g\<lparr>df_supervisor := sv\<rparr>"
  have created: "create_ray_stages ac pn g = (Return (), h)"
    by (simp add: create_ray_stages_def py_bind_Return [where m = "frame_stages pn", OF frame_stages_kept [OF assms(4) some]]
      call_supervisor_def run(1) wait_for_one [OF env] h_def)
  have max: "py_max (map dfs_stage_id all_stages) = Return ?last" using some by (simp add: py_max_def)
  have addrs: "get_stage_addrs ?last (df_supervisor h) = map addr (copies_of ps ?datas ?last)"
    by (simp add: h_def stage_addrs_of_entries [OF run(3)])
  have read: "collect_frame ac pn f = py_bind (py_outcome (pn_read_final_stage pn ?last (addr (processor_key (pu_processor u))))) store_batches h"
    by (simp only: collect_frame_def assms(3,4) if_True py_bind_def max created py_outcome_def py_get_def addrs u(3) prod.case outcome.case)
  have again: "collect_frame ac pn k = (Return (b # bs), k)" if "collect_frame ac pn f = (Return (b # bs), k)" for b bs k
    by (rule collect_cached) (use that read in \<open>auto simp: py_bind_def py_outcome_def store_batches_def split: outcome.splits\<close>)
  have "length (updates_of addr ps ?datas) = length ?datas" using run(2) by (simp add: updates_of_def)
  moreover have "df_supervisor h = sv" by (simp add: h_def)
  ultimately show ?thesis using run(4,5)
    by (intro exI [of _ "updates_of addr ps ?datas"] exI [of _ u] exI [of _ h] conjI allI impI read u(1,2) again) simp_all
qed

text \<open>An empty result does not fill the cache: the query is run again.\<close>

lemma empty_result_not_kept:
  assumes "collect_frame ac pn f = (Return [], k)"
  shows "falsy (df_batches k)"
proof (cases "falsy (df_batches f)")
  case True
  then show ?thesis using assms
    by (auto simp: collect_frame_def py_bind_def store_batches_def falsy_def split: prod.splits outcome.splits)
next
  case False
  then show ?thesis using assms by (auto simp: collect_frame_def falsy_def)
qed

subsection \<open>Collecting a streaming query\<close>

lemma frame_streaming_stages_kept:
  assumes "frame_streaming_stages pn f = (Return all_stages, g)" and "all_stages \<noteq> []"
  shows "frame_streaming_stages pn g = (Return all_stages, g)"
  using assms by (auto simp: frame_streaming_stages_def falsy_def split: if_splits outcome.splits)

lemma stream_ids_of_entries:
  "length ps = length datas \<Longrightarrow> map (\<lambda>(_, isd). ssd_output_stream_id (issd_data isd)) (stream_entries addr ps datas) = map ssd_output_stream_id datas"
  by (induction ps datas rule: list_induct2) (simp_all add: stream_entries_def)

lemma streaming_update_keys:
  "length ps = length datas \<Longrightarrow>
    map (processor_key \<circ> su_processor) (map (streaming_update_of address_map) (stream_entries addr ps datas)) = map processor_key ps"
  by (induction ps datas rule: list_induct2) (simp_all add: stream_entries_def streaming_update_of_def)

lemma streaming_updates_tell:
  assumes "length ps = length datas" and "distinct (map ssd_output_stream_id datas)" and "(p, sd) \<in> set (zip ps datas)"
    and "u \<in> set (map (streaming_update_of (output_stream_address_map (stream_entries addr ps datas))) (stream_entries addr ps datas))"
  shows "map_of (su_output_stream_address_map u) (ssd_output_stream_id sd) = Some (addr (processor_key p))"
proof -
  have ids: "distinct (map (\<lambda>(_, isd). ssd_output_stream_id (issd_data isd)) (stream_entries addr ps datas))"
    using assms(2) by (simp only: stream_ids_of_entries [OF assms(1)])
  have "(processor_key p, \<lparr>issd_data = sd, issd_remote_processor = p, issd_remote_addr = addr (processor_key p)\<rparr>) \<in> set (stream_entries addr ps datas)"
    using assms(3) by (force simp: stream_entries_def)
  from output_stream_addresses [OF ids this] assms(4) show ?thesis by (auto simp: streaming_update_of_def)
qed

text \<open>
  The updates \<open>us\<close> give every stage to a processor of its own and tell all processors, for the output
  stream of every stage, the address of the processor that was given the stage.
\<close>

definition all_told :: "(string \<Rightarrow> string) \<Rightarrow> streaming_dataframe_stage list \<Rightarrow> streaming_update list \<Rightarrow> bool" where
  "all_told addr all_stages us \<longleftrightarrow> length us = length all_stages \<and> distinct (map (processor_key \<circ> su_processor) us) \<and>
     (\<forall>(stage, u) \<in> set (zip all_stages us). \<forall>u' \<in> set us.
        map_of (su_output_stream_address_map u') (sfs_output_stream_id stage) = Some (addr (processor_key (su_processor u))))"

lemma updates_told:
  assumes "length ps = length all_stages" and "distinct (map processor_key ps)" and "distinct (map sfs_output_stream_id all_stages)"
    and es: "es = stream_entries addr ps (streaming_stage_datas all_stages)"
  shows "all_told addr all_stages (map (streaming_update_of (output_stream_address_map es)) es)"
proof -
  let ?datas = "streaming_stage_datas all_stages" and ?us = "map (streaming_update_of (output_stream_address_map es)) es"
  have len: "length ps = length ?datas" using assms(1) by (simp add: streaming_stage_datas_def)
  have ids: "distinct (map ssd_output_stream_id ?datas)" using assms(3) by (simp add: streaming_stage_datas_def comp_def)
  have keys: "distinct (map (processor_key \<circ> su_processor) ?us)" unfolding es streaming_update_keys [OF len] by (rule assms(2))
  have lens: "length ?us = length all_stages" using assms(1) by (simp add: es stream_entries_def streaming_stage_datas_def)
  have "map_of (su_output_stream_address_map u') (sfs_output_stream_id (all_stages ! i)) = Some (addr (processor_key (su_processor (?us ! i))))"
    if i: "i < length all_stages" and u': "u' \<in> set ?us" for i u'
  proof -
    have "(ps ! i, ?datas ! i) \<in> set (zip ps ?datas)" using i assms(1) len by (auto simp: set_zip)
    from streaming_updates_tell [OF len ids this u' [unfolded es]] i assms(1) len show ?thesis
      by (simp add: es stream_entries_def streaming_update_of_def streaming_stage_datas_def)
  qed
  then have "\<forall>(stage, u) \<in> set (zip all_stages ?us). \<forall>u' \<in> set ?us.
      map_of (su_output_stream_address_map u') (sfs_output_stream_id stage) = Some (addr (processor_key (su_processor u)))"
    by (auto simp: set_zip simp del: set_map)
  with keys lens show ?thesis unfolding all_told_def by blast
qed

lemma frame_streaming_stages_batches: "frame_streaming_stages pn f = (r, g) \<Longrightarrow> df_batches g = df_batches f"
  by (auto simp: frame_streaming_stages_def split: if_splits outcome.splits)

lemma create_streaming_raises:
  assumes "pool_env_ok (ac_pool ac)"
  shows "\<exists>e h. create_ray_streaming_stages ac pn f = (Raise e, h) \<and> df_batches h = df_batches f"
proof (cases "frame_streaming_stages pn f")
  case (Pair r g)
  note batches = frame_streaming_stages_batches [OF Pair]
  show ?thesis
  proof (cases r)
    case (Raise e)
    with Pair batches show ?thesis by (simp add: create_ray_streaming_stages_def py_bind_def)
  next
    case (Return all_stages)
    obtain e sv where "run_streaming_query (ac_pool ac) (streaming_stage_datas all_stages) (df_streaming_supervisor g) = (Raise e, sv)"
      using streaming_query_raises [OF assms] by blast
    with Pair Return batches show ?thesis
      by (simp add: create_ray_streaming_stages_def py_bind_def call_streaming_supervisor_def wait_for_one [OF assms])
  qed
qed

lemma create_streaming_updates:
  assumes "answering (ac_pool ac) addr" and "streaming_supervisor_ok (ac_pool ac) (df_streaming_supervisor f)"
    and "frame_streaming_stages pn f = (Return all_stages, g)" and "all_stages \<noteq> []" and "distinct (map sfs_output_stream_id all_stages)"
    and "int (length all_stages) \<le> pl_max_workers (ss_pool (df_streaming_supervisor f))"
    and "length all_stages \<le> pool_total (ss_pool (df_streaming_supervisor f)) + length (pl_adjectives (ss_pool (df_streaming_supervisor f)))"
  shows "\<exists>us h. create_ray_streaming_stages ac pn g = (Raise (AttributeError ''update_plan''), h) \<and>
    streaming_supervisor_ok (ac_pool ac) (df_streaming_supervisor h) \<and>
    ss_updates (df_streaming_supervisor h) = ss_updates (df_streaming_supervisor f) @ us \<and> all_told addr all_stages us"
proof -
  let ?datas = "streaming_stage_datas all_stages"
  have env: "pool_env_ok (ac_pool ac)" using assms(1) by (simp add: answering_def)
  have lens: "length ?datas = length all_stages" "?datas \<noteq> []" using assms(4) by (simp_all add: streaming_stage_datas_def)
  have same: "df_streaming_supervisor g = df_streaming_supervisor f"
    using assms(3) by (auto simp: frame_streaming_stages_def split: if_splits outcome.splits)
  obtain ps sv where query: "run_streaming_query (ac_pool ac) ?datas (df_streaming_supervisor g) = (Raise (AttributeError ''update_plan''), sv)"
    "length ps = length ?datas" "distinct (map processor_key ps)" "streaming_supervisor_ok (ac_pool ac) sv"
    "ss_updates sv = ss_updates (df_streaming_supervisor f) @
      map (streaming_update_of (output_stream_address_map (stream_entries addr ps ?datas))) (stream_entries addr ps ?datas)"
    using streaming_query_updates [OF assms(1,2) lens(2)] assms(6,7) same lens(1) by auto
  have "create_ray_streaming_stages ac pn g = (Raise (AttributeError ''update_plan''), g\<lparr>df_streaming_supervisor := sv\<rparr>)"
    by (simp add: create_ray_streaming_stages_def call_streaming_supervisor_def query(1) wait_for_one [OF env]
      py_bind_Return [where m = "frame_streaming_stages pn", OF frame_streaming_stages_kept [OF assms(3,4)]])
  moreover have "length ps = length all_stages" using query(2) lens(1) by simp
  note updates_told [OF this query(3) assms(5) refl, of addr]
  moreover have "df_streaming_supervisor (g\<lparr>df_streaming_supervisor := sv\<rparr>) = sv" by simp
  ultimately show ?thesis using query(4,5) by metis
qed

text \<open>
  C28: collecting a streaming query never computes a result.  On a frame without a result
  \<open>collect_streaming\<close> raises, whatever the planner and the pool do, and the frame keeps its batches.
  When the pool is ready and the stages fit, what fails is only the last step: every stage
  has been given to a processor of its own, all processors have been told the right address for
  every output stream, and the calls of \<open>update_plan\<close> raise because the Rust service of a stream
  processor has no such method.
\<close>

theorem collect_streaming_raises:
  assumes "pool_env_ok (ac_pool ac)" and "falsy (df_batches f)"
  shows "\<exists>e h. collect_streaming ac pn f = (Raise e, h) \<and> df_batches h = df_batches f \<and>
    (\<forall>addr all_stages g. answering (ac_pool ac) addr \<and> streaming_supervisor_ok (ac_pool ac) (df_streaming_supervisor f) \<and>
       frame_streaming_stages pn f = (Return all_stages, g) \<and> all_stages \<noteq> [] \<and> distinct (map sfs_output_stream_id all_stages) \<and>
       int (length all_stages) \<le> pl_max_workers (ss_pool (df_streaming_supervisor f)) \<and>
       length all_stages \<le> pool_total (ss_pool (df_streaming_supervisor f)) + length (pl_adjectives (ss_pool (df_streaming_supervisor f))) \<longrightarrow>
     e = AttributeError ''update_plan'' \<and> streaming_supervisor_ok (ac_pool ac) (df_streaming_supervisor h) \<and>
     (\<exists>us. ss_updates (df_streaming_supervisor h) = ss_updates (df_streaming_supervisor f) @ us \<and> all_told addr all_stages us))"
proof -
  obtain r g where stages: "frame_streaming_stages pn f = (r, g)" by fastforce
  note batches = frame_streaming_stages_batches [OF stages]
  consider e where "r = Raise e" | "r = Return []" | all_stages where "r = Return all_stages" "all_stages \<noteq> []"
    by (cases r) auto
  then show ?thesis
  proof cases
    case 1
    with stages assms(2) batches show ?thesis by (simp add: collect_streaming_def py_bind_def)
  next
    case 2
    with stages assms(2) batches show ?thesis by (simp add: collect_streaming_def py_bind_def py_outcome_def py_min_def)
  next
    case 3
    have min: "py_min (map sfs_stage_id all_stages) = Return (Min (sfs_stage_id ` set all_stages))" using 3(2) by (simp add: py_min_def)
    obtain e h where create: "create_ray_streaming_stages ac pn g = (Raise e, h)" "df_batches h = df_batches g"
      using create_streaming_raises [OF assms(1)] by blast
    then have run: "collect_streaming ac pn f = (Raise e, h)" "df_batches h = df_batches f"
      using stages 3 assms(2) min batches by (simp_all add: collect_streaming_def py_bind_def py_outcome_def)
    have "e = AttributeError ''update_plan'' \<and> streaming_supervisor_ok (ac_pool ac) (df_streaming_supervisor h) \<and>
        (\<exists>us. ss_updates (df_streaming_supervisor h) = ss_updates (df_streaming_supervisor f) @ us \<and> all_told addr all_stages us)"
      if "answering (ac_pool ac) addr" "streaming_supervisor_ok (ac_pool ac) (df_streaming_supervisor f)"
        "distinct (map sfs_output_stream_id all_stages)" "int (length all_stages) \<le> pl_max_workers (ss_pool (df_streaming_supervisor f))"
        "length all_stages \<le> pool_total (ss_pool (df_streaming_supervisor f)) + length (pl_adjectives (ss_pool (df_streaming_supervisor f)))" for addr
      using create_streaming_updates [OF that(1,2) stages [unfolded 3(1)] 3(2) that(3-5)] create(1) by auto
    moreover have "s = all_stages" if "frame_streaming_stages pn f = (Return s, g')" for s g' using that stages 3(1) by simp
    ultimately show ?thesis using run by (intro exI [of _ e] exI [of _ h]) blast
  qed
qed

subsection \<open>A small data frame\<close>

definition small_stages :: "dataframe_stage list" where
  "small_stages =
     [\<lparr>dfs_stage_id = 1, dfs_plan_bytes = ''scan'', dfs_partition_groups = [[0], [1]], dfs_child_stage_ids = [],
       dfs_num_output_partitions = 2, dfs_full_partitions = False\<rparr>,
      \<lparr>dfs_stage_id = 2, dfs_plan_bytes = ''sort'', dfs_partition_groups = [[0, 1]], dfs_child_stage_ids = [1],
       dfs_num_output_partitions = 1, dfs_full_partitions = False\<rparr>]"

definition small_streams :: "streaming_dataframe_stage list" where
  "small_streams =
     [\<lparr>sfs_stage_id = 1, sfs_output_stream_id = ''result'', sfs_plan_bytes = ''count''\<rparr>,
      \<lparr>sfs_stage_id = 2, sfs_output_stream_id = ''source'', sfs_plan_bytes = ''scan''\<rparr>]"

definition small_planner :: "string planner" where
  "small_planner = \<lparr>pn_stages = (\<lambda>_ _ _. Return small_stages), pn_streaming_stages = Return small_streams,
     pn_read_final_stage = (\<lambda>_ address. Return [address]), pn_read_final_streaming_stage = (\<lambda>_ _ stream_id. Return [stream_id])\<rparr>"

definition small_actors :: actors where
  "small_actors = \<lparr>ac_pool = small_pool_env, ac_answer = (\<lambda>_. Return ())\<rparr>"

definition small_streaming_supervisor :: streaming_supervisor where
  "small_streaming_supervisor =
     snd (streaming_supervisor_start small_pool_env (snd (streaming_supervisor_new small_pool_env 1 3 [''red'', ''blue'', ''old''])))"

definition small_frame :: "string data_frame" where
  "small_frame = data_frame_new small_supervisor small_streaming_supervisor 8192 None 0"

lemma small_planner_reads:
  "pn_read_final_stage small_planner i address = Return [address]"
  "pn_read_final_streaming_stage small_planner i address stream_id = Return [stream_id]"
  by (simp_all add: small_planner_def)

lemma small_datas: "ray_stage_datas small_stages = small_query"
  by (simp add: small_stages_def small_query_def)

lemma small_frame_fields:
  "df_supervisor small_frame = small_supervisor" "df_streaming_supervisor small_frame = small_streaming_supervisor"
  "df_batches small_frame = None"
  by (simp_all add: small_frame_def data_frame_new_def)

lemma small_frame_stages:
  "frame_stages small_planner small_frame = (Return small_stages, small_frame\<lparr>df_stages := Some small_stages\<rparr>)"
  "frame_streaming_stages small_planner small_frame = (Return small_streams, small_frame\<lparr>df_streaming_stages := Some small_streams\<rparr>)"
  by (simp_all add: frame_stages_def frame_streaming_stages_def falsy_def small_frame_def data_frame_new_def small_planner_def)

lemma small_streaming_supervisor_ok:
  "streaming_supervisor_ok small_pool_env small_streaming_supervisor" "pl_max_workers (ss_pool small_streaming_supervisor) = 3"
  "pl_adjectives (ss_pool small_streaming_supervisor) = [''blue'', ''old'']" "pool_total (ss_pool small_streaming_supervisor) = 1"
proof -
  define p0 where "p0 = snd (pool_new small_pool_env 1 3 True [''red'', ''blue'', ''old''])"
  have "pool_initial small_pool_env p0" unfolding pool_initial_def p0_def
    by (intro exI [of _ 1] exI [of _ 3] exI [of _ True] exI [of _ "[''red'', ''blue'', ''old'']"]) simp
  then have "pool_good small_pool_env (snd (pool_start small_pool_env p0))"
    by (intro keepsD [OF start_keeps [OF small_pool_env_ok]] pool_new_good [OF small_pool_env_ok])
  moreover have "pl_processors_ready (snd (pool_start small_pool_env p0))" "pl_acquired (snd (pool_start small_pool_env p0)) = []"
    unfolding p0_def by code_simp+
  moreover have same: "small_streaming_supervisor = \<lparr>ss_pool = snd (pool_start small_pool_env p0), ss_streaming_stages = [], ss_updates = []\<rparr>"
    by (simp add: small_streaming_supervisor_def streaming_supervisor_start_def streaming_supervisor_new_def on_streaming_pool_def p0_def case_prod_unfold)
  ultimately show "streaming_supervisor_ok small_pool_env small_streaming_supervisor" unfolding streaming_supervisor_ok_def same by simp
  show "pl_max_workers (ss_pool small_streaming_supervisor) = 3" "pl_adjectives (ss_pool small_streaming_supervisor) = [''blue'', ''old'']"
    "pool_total (ss_pool small_streaming_supervisor) = 1" by code_simp+
qed

theorem collect_reads_last_stage_witness:
  "\<exists>address k. collect_frame small_actors small_planner small_frame = (Return [address], k) \<and>
     collect_frame small_actors small_planner k = (Return [address], k) \<and> length (sv_updates (df_supervisor k)) = 3"
proof -
  have side: "answering (ac_pool small_actors) (\<lambda>key. key @ '':1'')" "supervisor_ok (ac_pool small_actors) (df_supervisor small_frame)"
    "list_all (\<lambda>stage. dfs_partition_groups stage \<noteq> []) small_stages" "query_ok (ray_stage_datas small_stages)" "\<forall>u. ac_answer small_actors u = Return ()"
    "int (length (ray_stage_datas small_stages)) \<le> pl_max_workers (sv_pool (df_supervisor small_frame))"
    "length (ray_stage_datas small_stages) \<le> pool_total (sv_pool (df_supervisor small_frame)) + length (pl_adjectives (sv_pool (df_supervisor small_frame)))"
    using small_pool_answers small_supervisor_ok small_query_ok
    by (simp_all add: small_actors_def small_frame_fields small_datas) (simp add: small_stages_def)
  have falsy: "falsy (df_batches small_frame)" by (simp add: falsy_def small_frame_fields)
  obtain us and u :: plan_update and h where run: "collect_frame small_actors small_planner small_frame =
      py_bind (py_outcome (pn_read_final_stage small_planner (Max (dfs_stage_id ` set small_stages)) (processor_key (pu_processor u) @ '':1''))) store_batches h"
    "sv_updates (df_supervisor h) = sv_updates (df_supervisor small_frame) @ us" "length us = length (ray_stage_datas small_stages)"
    "\<forall>b bs k. collect_frame small_actors small_planner small_frame = (Return (b # bs), k) \<longrightarrow>
      collect_frame small_actors small_planner k = (Return (b # bs), k)"
    using collect_reads_last_stage [OF side(1,2) falsy small_frame_stages(1) side(3-7)] by blast
  define k where "k = h\<lparr>df_batches := Some [processor_key (pu_processor u) @ '':1'']\<rparr>"
  have "collect_frame small_actors small_planner small_frame = (Return [processor_key (pu_processor u) @ '':1''], k)"
    by (simp add: run(1) py_bind_def py_outcome_def store_batches_def small_planner_reads k_def)
  moreover have "length (sv_updates (df_supervisor k)) = 3"
    using run(2,3) by (simp add: k_def small_frame_fields small_supervisor_updates small_datas small_query_ok)
  ultimately show ?thesis using run(4) by blast
qed

theorem collect_streaming_raises_witness:
  "\<exists>us h. collect_streaming small_actors small_planner small_frame = (Raise (AttributeError ''update_plan''), h) \<and>
     df_batches h = None \<and> ss_updates (df_streaming_supervisor h) = us \<and> length us = 2 \<and> all_told (\<lambda>key. key @ '':1'') small_streams us"
proof -
  have side: "answering (ac_pool small_actors) (\<lambda>key. key @ '':1'')"
    "streaming_supervisor_ok (ac_pool small_actors) (df_streaming_supervisor small_frame)"
    "frame_streaming_stages small_planner small_frame = (Return small_streams, small_frame\<lparr>df_streaming_stages := Some small_streams\<rparr>)"
    "small_streams \<noteq> []" "distinct (map sfs_output_stream_id small_streams)"
    "int (length small_streams) \<le> pl_max_workers (ss_pool (df_streaming_supervisor small_frame))"
    "length small_streams \<le> pool_total (ss_pool (df_streaming_supervisor small_frame)) +
       length (pl_adjectives (ss_pool (df_streaming_supervisor small_frame)))"
    using small_pool_answers small_streaming_supervisor_ok small_frame_stages(2)
    by (simp_all add: small_actors_def small_frame_fields small_streams_def)
  have env: "pool_env_ok (ac_pool small_actors)" using side(1) by (simp add: answering_def)
  have falsy: "falsy (df_batches small_frame)" by (simp add: falsy_def small_frame_fields)
  obtain e h where run: "collect_streaming small_actors small_planner small_frame = (Raise e, h)" "df_batches h = df_batches small_frame"
    "e = AttributeError ''update_plan''"
    "\<exists>us. ss_updates (df_streaming_supervisor h) = ss_updates (df_streaming_supervisor small_frame) @ us \<and>
      all_told (\<lambda>key. key @ '':1'') small_streams us"
    using collect_streaming_raises [OF env falsy, of small_planner] side by blast
  moreover have "ss_updates small_streaming_supervisor = []" by code_simp
  ultimately obtain us where "ss_updates (df_streaming_supervisor h) = us" "all_told (\<lambda>key. key @ '':1'') small_streams us"
    by (auto simp: small_frame_fields)
  moreover from this have "length us = 2" by (simp add: all_told_def small_streams_def)
  ultimately show ?thesis using run(1-3) by (auto simp: small_frame_fields)
qed

end
