(* ===== verification/Checkpoint_Manager.thy ===== *)
theory Checkpoint_Manager
  imports Prelude
begin

text \<open>
  The in-memory store of operator states of \<open>src/streaming/checkpoint_storage_manager.rs\<close>.

  The tasks of an operator write their states for a checkpoint one after the other, each with the
  partitions it covers; a state is a batch whose first column holds the hash of a row's key.  A
  reader asks for some partitions and gets the rows whose hash falls into them.  Batches \<open>'b\<close>
  and schemas \<open>'s\<close> belong to the arrow library, of which \<open>state_lib\<close> has what the code calls.
  The lock around the map is held for the whole of each call, so a call is one step.

  The theorems show that the states written for a checkpoint come back: each reader gets exactly
  the rows of its partitions, in the order they were written, and readers whose partitions
  together are all ten get every row exactly once.
\<close>

subsection \<open>State and library\<close>

record ('b, 's) state_lib =
  sl_num_columns :: "'b \<Rightarrow> nat"
  sl_num_rows :: "'b \<Rightarrow> nat"
  sl_schema :: "'b \<Rightarrow> 's"
  sl_field_types :: "'s \<Rightarrow> string list"
  sl_concat_batches :: "'s \<Rightarrow> 'b list \<Rightarrow> 'b result"
  sl_uint64_column :: "'b \<Rightarrow> nat \<Rightarrow> u64 option list option"
  sl_filter_record_batch :: "'b \<Rightarrow> bool list \<Rightarrow> 'b result"

record checkpoint_identifier =
  ci_checkpoint_id :: string
  ci_marker_index :: u64

record 'b checkpoint =
  ck_written_partitions :: "usize list"
  ck_data :: 'b

type_synonym 'b checkpoint_storage_manager = "checkpoint_identifier \<Rightarrow> 'b checkpoint option"

definition manager_new :: "'b checkpoint_storage_manager" where
  "manager_new = Map.empty"

subsection \<open>Operations\<close>

definition field_type :: "string list \<Rightarrow> nat \<Rightarrow> string result" where
  "field_type types i = (if i < length types then Ok (types ! i) else Err (Panic ''index out of bounds''))"

definition write_checkpoint_state ::
  "('b, 's) state_lib \<Rightarrow> string \<Rightarrow> usize list \<Rightarrow> u64 \<Rightarrow> 'b \<Rightarrow> 'b checkpoint_storage_manager \<Rightarrow> 'b checkpoint_storage_manager result" where
  "write_checkpoint_state lib checkpoint_id partitions marker_index state m =
     (if sl_num_columns lib state = 0 \<and> sl_num_rows lib state = 0 then Ok m
      else
        let id = \<lparr>ci_checkpoint_id = checkpoint_id, ci_marker_index = marker_index\<rparr> in
        case m id of
          Some checkpoint \<Rightarrow>
            let schema = sl_schema lib (ck_data checkpoint) in
            if schema \<noteq> sl_schema lib state then Err (Execution ''Schema did not match existing checkpoint schema'')
            else bind_result (sl_concat_batches lib schema [ck_data checkpoint, state]) (\<lambda>data.
              Ok (m(id \<mapsto> \<lparr>ck_written_partitions = ck_written_partitions checkpoint @ partitions, ck_data = data\<rparr>)))
        | None \<Rightarrow>
            let types = sl_field_types lib (sl_schema lib state) in
            if types = [] \<or> types ! 0 \<noteq> ''UInt64''
            then bind_result (field_type types 0) (\<lambda>found. Err (Execution ''Invalid checkpoint schema''))
            else Ok (m(id \<mapsto> \<lparr>ck_written_partitions = partitions, ck_data = state\<rparr>)))"

definition max_partitions :: usize where
  "max_partitions = 10"

definition matches_partition :: "usize list \<Rightarrow> u64 option \<Rightarrow> bool result" where
  "matches_partition partitions hash =
     (case hash of
        None \<Rightarrow> Err (Panic ''called Option::unwrap on a None value'')
      | Some h \<Rightarrow> Ok (h mod max_partitions \<in> set partitions))"

definition get_checkpoint_state ::
  "('b, 's) state_lib \<Rightarrow> string \<Rightarrow> usize list \<Rightarrow> u64 \<Rightarrow> 'b checkpoint_storage_manager \<Rightarrow> 'b option result" where
  "get_checkpoint_state lib checkpoint_id partitions marker_index m =
     (case m \<lparr>ci_checkpoint_id = checkpoint_id, ci_marker_index = marker_index\<rparr> of
        None \<Rightarrow> Ok None
      | Some checkpoint \<Rightarrow>
          if \<not> list_all (\<lambda>p. p \<in> set (ck_written_partitions checkpoint)) partitions
          then Err (Panic ''Not all partitions have been written to checkpoint'')
          else
            bind_result (ok_or (sl_uint64_column lib (ck_data checkpoint) 0) (Panic ''called Option::unwrap on a None value'')) (\<lambda>partition_numbers.
            bind_result (collect_results (map (matches_partition partitions) partition_numbers)) (\<lambda>match_partition_array.
            bind_result (case sl_filter_record_batch lib (ck_data checkpoint) match_partition_array of
                Err e \<Rightarrow> Err (Panic ''called Result::unwrap on an Err value'')
              | Ok matched_state \<Rightarrow> Ok matched_state) (\<lambda>matched_state.
            Ok (Some matched_state)))))"

subsection \<open>What the library promises\<close>

text \<open>
  A state has rows with a hash each; the hash column holds no nulls, on which the reader panics.
  Concatenation of batches of one schema appends their rows and a
  filter keeps the rows whose flag is set.
\<close>

definition state_lib_ok :: "('b, 's) state_lib \<Rightarrow> ('b \<Rightarrow> (u64 \<times> 'r) list) \<Rightarrow> bool" where
  "state_lib_ok lib rows \<longleftrightarrow>
     (\<forall>b. sl_num_rows lib b = length (rows b)) \<and>
     (\<forall>b. sl_num_columns lib b = length (sl_field_types lib (sl_schema lib b))) \<and>
     (\<forall>b ts. sl_field_types lib (sl_schema lib b) = ''UInt64'' # ts \<longrightarrow> sl_uint64_column lib b 0 = Some (map (\<lambda>(h, _). Some h) (rows b))) \<and>
     (\<forall>s bs. (\<forall>b \<in> set bs. sl_schema lib b = s) \<longrightarrow>
        (\<exists>b. sl_concat_batches lib s bs = Ok b \<and> sl_schema lib b = s \<and> rows b = concat (map rows bs))) \<and>
     (\<forall>b flags. length flags = length (rows b) \<longrightarrow>
        (\<exists>b'. sl_filter_record_batch lib b flags = Ok b' \<and> rows b' = map fst (filter snd (zip (rows b) flags))))"

lemma state_lib_facts:
  assumes "state_lib_ok lib rows"
  shows "sl_num_columns lib b = length (sl_field_types lib (sl_schema lib b))"
    and "sl_field_types lib (sl_schema lib b) = ''UInt64'' # ts \<Longrightarrow> sl_uint64_column lib b 0 = Some (map (\<lambda>(h, _). Some h) (rows b))"
    and "\<forall>b \<in> set bs. sl_schema lib b = s \<Longrightarrow> \<exists>b. sl_concat_batches lib s bs = Ok b \<and> sl_schema lib b = s \<and> rows b = concat (map rows bs)"
    and "length flags = length (rows b) \<Longrightarrow> \<exists>b'. sl_filter_record_batch lib b flags = Ok b' \<and> rows b' = map fst (filter snd (zip (rows b) flags))"
  using assms by (simp_all add: state_lib_ok_def)

subsection \<open>States come back\<close>

definition rows_of_partitions :: "usize list \<Rightarrow> (u64 \<times> 'r) list \<Rightarrow> (u64 \<times> 'r) list" where
  "rows_of_partitions partitions xs = filter (\<lambda>(h, _). h mod max_partitions \<in> set partitions) xs"

text \<open>The writes of the tasks of an operator for one checkpoint.\<close>

definition write_all ::
  "('b, 's) state_lib \<Rightarrow> string \<Rightarrow> u64 \<Rightarrow> (usize list \<times> 'b) list \<Rightarrow> 'b checkpoint_storage_manager \<Rightarrow> 'b checkpoint_storage_manager result" where
  "write_all lib checkpoint_id marker_index writes m =
     fold_result (\<lambda>m (partitions, state). write_checkpoint_state lib checkpoint_id partitions marker_index state m) m writes"

lemma write_all_appends:
  assumes "state_lib_ok lib rows" and "sl_field_types lib schema = ''UInt64'' # ts"
  shows "m \<lparr>ci_checkpoint_id = cid, ci_marker_index = mi\<rparr> = Some ck \<Longrightarrow> sl_schema lib (ck_data ck) = schema \<Longrightarrow>
    \<forall>(ps, b) \<in> set writes. sl_schema lib b = schema \<Longrightarrow>
    \<exists>b. sl_schema lib b = schema \<and> rows b = rows (ck_data ck) @ concat (map (\<lambda>w. rows (snd w)) writes) \<and>
      write_all lib cid mi writes m = Ok (m(\<lparr>ci_checkpoint_id = cid, ci_marker_index = mi\<rparr> \<mapsto>
        \<lparr>ck_written_partitions = ck_written_partitions ck @ concat (map fst writes), ck_data = b\<rparr>))"
proof (induction writes arbitrary: m ck)
  case Nil
  have "\<lparr>ck_written_partitions = ck_written_partitions ck, ck_data = ck_data ck\<rparr> = ck" by simp
  with Nil show ?case by (intro exI [of _ "ck_data ck"]) (auto simp: write_all_def)
next
  case (Cons w writes)
  let ?id = "\<lparr>ci_checkpoint_id = cid, ci_marker_index = mi\<rparr>"
  obtain ps b where w: "w = (ps, b)" by (cases w)
  have b: "sl_schema lib b = schema" using Cons.prems(3) w by auto
  have "\<forall>x \<in> set [ck_data ck, b]. sl_schema lib x = schema" using Cons.prems(2) b by simp
  from state_lib_facts(3) [OF assms(1) this] obtain d where d: "sl_concat_batches lib schema [ck_data ck, b] = Ok d" "sl_schema lib d = schema"
    "rows d = rows (ck_data ck) @ rows b" by auto
  have columns: "sl_num_columns lib b \<noteq> 0" using assms(2) b by (simp add: state_lib_facts(1) [OF assms(1)])
  define ck' where "ck' = \<lparr>ck_written_partitions = ck_written_partitions ck @ ps, ck_data = d\<rparr>"
  have "write_checkpoint_state lib cid ps mi b m = Ok (m(?id \<mapsto> ck'))"
    using Cons.prems(1,2) b d(1) columns by (simp add: write_checkpoint_state_def Let_def ck'_def)
  moreover have "(m(?id \<mapsto> ck')) ?id = Some ck'" "sl_schema lib (ck_data ck') = schema" "\<forall>(ps, b) \<in> set writes. sl_schema lib b = schema"
    using d(2) Cons.prems(3) by (simp_all add: ck'_def)
  from Cons.IH [where m = "m(?id \<mapsto> ck')", OF this] obtain b' where "sl_schema lib b' = schema" "rows b' = rows (ck_data ck') @ concat (map (\<lambda>w. rows (snd w)) writes)"
    "write_all lib cid mi writes (m(?id \<mapsto> ck')) = Ok ((m(?id \<mapsto> ck'))(?id \<mapsto>
      \<lparr>ck_written_partitions = ck_written_partitions ck' @ concat (map fst writes), ck_data = b'\<rparr>))" by blast
  ultimately show ?case using d(3) by (intro exI [of _ b']) (simp add: w write_all_def ck'_def del: fun_upd_apply)
qed

text \<open>A sequence of writes into a manager without the checkpoint.\<close>

lemma write_all_result:
  assumes "state_lib_ok lib rows" and "sl_field_types lib schema = ''UInt64'' # ts" and "\<forall>(ps, b) \<in> set writes. sl_schema lib b = schema"
    and "writes \<noteq> []" and "m \<lparr>ci_checkpoint_id = cid, ci_marker_index = mi\<rparr> = None"
  shows "\<exists>b. sl_schema lib b = schema \<and> rows b = concat (map (\<lambda>w. rows (snd w)) writes) \<and>
    write_all lib cid mi writes m = Ok (m(\<lparr>ci_checkpoint_id = cid, ci_marker_index = mi\<rparr> \<mapsto>
      \<lparr>ck_written_partitions = concat (map fst writes), ck_data = b\<rparr>))"
proof -
  let ?id = "\<lparr>ci_checkpoint_id = cid, ci_marker_index = mi\<rparr>"
  obtain ps b rest where writes: "writes = (ps, b) # rest" using assms(4) by (cases writes) auto
  have b: "sl_schema lib b = schema" using assms(3) writes by auto
  define ck where "ck = \<lparr>ck_written_partitions = ps, ck_data = b\<rparr>"
  have columns: "sl_num_columns lib b \<noteq> 0" using assms(2) b by (simp add: state_lib_facts(1) [OF assms(1)])
  have "write_checkpoint_state lib cid ps mi b m = Ok (m(?id \<mapsto> ck))"
    using assms(2,5) b columns by (simp add: write_checkpoint_state_def Let_def ck_def)
  moreover have "(m(?id \<mapsto> ck)) ?id = Some ck" "sl_schema lib (ck_data ck) = schema" "\<forall>(ps, b) \<in> set rest. sl_schema lib b = schema"
    using b assms(3) writes by (simp_all add: ck_def)
  from write_all_appends [where m = "m(?id \<mapsto> ck)" and cid = cid and mi = mi, OF assms(1,2) this] obtain b' where "sl_schema lib b' = schema" "rows b' = rows (ck_data ck) @ concat (map (\<lambda>w. rows (snd w)) rest)"
    "write_all lib cid mi rest (m(?id \<mapsto> ck)) = Ok ((m(?id \<mapsto> ck))(?id \<mapsto>
      \<lparr>ck_written_partitions = ck_written_partitions ck @ concat (map fst rest), ck_data = b'\<rparr>))" by blast
  ultimately show ?thesis by (intro exI [of _ b']) (simp add: writes write_all_def ck_def del: fun_upd_apply)
qed

lemma filter_flags: "map fst (filter snd (zip xs (map f xs))) = filter f xs"
  by (induction xs) auto

lemma get_rows:
  assumes "state_lib_ok lib rows" and "sl_field_types lib (sl_schema lib (ck_data ck)) = ''UInt64'' # ts"
    and "m \<lparr>ci_checkpoint_id = cid, ci_marker_index = mi\<rparr> = Some ck" and "set partitions \<subseteq> set (ck_written_partitions ck)"
  shows "\<exists>b. get_checkpoint_state lib cid partitions mi m = Ok (Some b) \<and> rows b = rows_of_partitions partitions (rows (ck_data ck))"
proof -
  let ?flags = "map (\<lambda>(h, _). h mod max_partitions \<in> set partitions) (rows (ck_data ck))"
  have column: "sl_uint64_column lib (ck_data ck) 0 = Some (map (\<lambda>(h, _). Some h) (rows (ck_data ck)))"
    by (rule state_lib_facts(2) [OF assms(1,2)])
  have flags: "collect_results (map (matches_partition partitions) (map (\<lambda>(h, _). Some h) (rows (ck_data ck)))) = Ok ?flags"
    by (simp add: matches_partition_def comp_def case_prod_unfold)
  obtain b where b: "sl_filter_record_batch lib (ck_data ck) ?flags = Ok b" "rows b = map fst (filter snd (zip (rows (ck_data ck)) ?flags))"
    using state_lib_facts(4) [OF assms(1), of ?flags "ck_data ck"] by auto
  have "get_checkpoint_state lib cid partitions mi m = Ok (Some b)"
    using assms(3,4) column flags b(1) by (auto simp: get_checkpoint_state_def list_all_iff)
  then show ?thesis using b(2) by (simp add: filter_flags rows_of_partitions_def)
qed

text \<open>
  C31: the states written for a checkpoint come back.  If tasks write states of one schema with a hash
  column without nulls for a checkpoint that has none yet, every write succeeds, and a reader of written
  partitions gets exactly the rows whose hash falls into them, in the order of the writes.  Other
  checkpoints keep what they have.
\<close>

theorem written_states_come_back:
  assumes "state_lib_ok lib rows" and "sl_field_types lib schema = ''UInt64'' # ts" and "\<forall>(ps, b) \<in> set writes. sl_schema lib b = schema"
    and "writes \<noteq> []" and "m \<lparr>ci_checkpoint_id = cid, ci_marker_index = mi\<rparr> = None"
  shows "\<exists>m'. write_all lib cid mi writes m = Ok m' \<and>
    (\<forall>partitions. set partitions \<subseteq> set (concat (map fst writes)) \<longrightarrow>
      (\<exists>b. get_checkpoint_state lib cid partitions mi m' = Ok (Some b) \<and>
        rows b = rows_of_partitions partitions (concat (map (\<lambda>w. rows (snd w)) writes)))) \<and>
    (\<forall>id. id \<noteq> \<lparr>ci_checkpoint_id = cid, ci_marker_index = mi\<rparr> \<longrightarrow> m' id = m id)"
proof -
  let ?id = "\<lparr>ci_checkpoint_id = cid, ci_marker_index = mi\<rparr>"
  obtain b where b: "sl_schema lib b = schema" "rows b = concat (map (\<lambda>w. rows (snd w)) writes)"
    "write_all lib cid mi writes m = Ok (m(?id \<mapsto> \<lparr>ck_written_partitions = concat (map fst writes), ck_data = b\<rparr>))"
    using write_all_result [where m = m and cid = cid and mi = mi, OF assms] by blast
  define ck where "ck = \<lparr>ck_written_partitions = concat (map fst writes), ck_data = b\<rparr>"
  have ck: "sl_field_types lib (sl_schema lib (ck_data ck)) = ''UInt64'' # ts" "(m(?id \<mapsto> ck)) ?id = Some ck"
    using assms(2) b(1) by (simp_all add: ck_def)
  have "\<exists>b'. get_checkpoint_state lib cid partitions mi (m(?id \<mapsto> ck)) = Ok (Some b') \<and>
      rows b' = rows_of_partitions partitions (concat (map (\<lambda>w. rows (snd w)) writes))" if "set partitions \<subseteq> set (concat (map fst writes))" for partitions
    using get_rows [where m = "m(?id \<mapsto> ck)", OF assms(1) ck, of partitions] that b(2) by (simp add: ck_def)
  moreover have "(m(?id \<mapsto> ck)) id = m id" if "id \<noteq> ?id" for id using that by simp
  ultimately show ?thesis using b(3) unfolding ck_def [symmetric] by blast
qed

text \<open>A library whose batches are a schema with the rows.\<close>

definition list_state_lib :: "(string list \<times> (u64 \<times> nat) list, string list) state_lib" where
  "list_state_lib = \<lparr>sl_num_columns = length \<circ> fst, sl_num_rows = length \<circ> snd, sl_schema = fst, sl_field_types = id,
     sl_concat_batches = (\<lambda>s bs. Ok (s, concat (map snd bs))),
     sl_uint64_column = (\<lambda>b i. if i = 0 then Some (map (\<lambda>(h, _). Some h) (snd b)) else None),
     sl_filter_record_batch = (\<lambda>b flags. Ok (fst b, map fst (filter snd (zip (snd b) flags))))\<rparr>"

lemma list_state_lib_ok: "state_lib_ok list_state_lib snd"
  by (auto simp: state_lib_ok_def list_state_lib_def)

theorem written_states_come_back_witness:
  "\<exists>m'. write_all list_state_lib ''count'' 7 [([0, 1], ([''UInt64'', ''UInt64''], [(20, 5), (31, 6)])), ([2], ([''UInt64'', ''UInt64''], [(42, 7)]))] manager_new = Ok m' \<and>
     (\<exists>b. get_checkpoint_state list_state_lib ''count'' [1, 2] 7 m' = Ok (Some b) \<and> snd b = [(31, 6), (42, 7)])"
proof -
  let ?writes = "[([0, 1], ([''UInt64'', ''UInt64''], [(20, 5), (31, 6)])), ([2], ([''UInt64'', ''UInt64''], [(42, 7)]))]
    :: (usize list \<times> (string list \<times> (u64 \<times> nat) list)) list"
  have "sl_field_types list_state_lib [''UInt64'', ''UInt64''] = ''UInt64'' # [''UInt64'']"
    "\<forall>(ps, b) \<in> set ?writes. sl_schema list_state_lib b = [''UInt64'', ''UInt64'']" "?writes \<noteq> []"
    "manager_new \<lparr>ci_checkpoint_id = ''count'', ci_marker_index = 7\<rparr> = None"
    by (simp_all add: list_state_lib_def manager_new_def)
  from written_states_come_back [where m = manager_new and cid = "''count''" and mi = 7, OF list_state_lib_ok this] obtain m' where m': "write_all list_state_lib ''count'' 7 ?writes manager_new = Ok m'"
    "\<forall>partitions. set partitions \<subseteq> set (concat (map fst ?writes)) \<longrightarrow>
      (\<exists>b. get_checkpoint_state list_state_lib ''count'' partitions 7 m' = Ok (Some b) \<and>
        snd b = rows_of_partitions partitions (concat (map (\<lambda>w. snd (snd w)) ?writes)))" by blast
  have "set [1, 2] \<subseteq> set (concat (map fst ?writes))" by simp
  from m'(2) [rule_format, OF this] m'(1) show ?thesis by (auto simp: rows_of_partitions_def max_partitions_def)
qed

text \<open>Readers whose partitions are all partitions, each in one of them, together get every row once.\<close>

lemma partition_groups_share_rows:
  assumes "mset (concat groups) = mset [0..<max_partitions]"
  shows "mset (concat (map (\<lambda>g. rows_of_partitions g xs) groups)) = mset xs"
proof (induction xs)
  case Nil
  have "concat (map (\<lambda>g. rows_of_partitions g []) groups) = []" by (simp add: rows_of_partitions_def)
  then show ?case by simp
next
  case (Cons x xs)
  obtain h r where x: "x = (h, r)" by (cases x)
  have dist: "distinct (concat groups)" unfolding mset_eq_imp_distinct_iff [OF assms] by simp
  have "set (concat groups) = {..<max_partitions}" using mset_eq_setD [OF assms] by auto
  then have hash: "h mod max_partitions \<in> set (concat groups)" by (simp add: max_partitions_def)
  have "mset (concat (map (\<lambda>g. rows_of_partitions g (x # xs)) gs)) =
      replicate_mset (length (filter (\<lambda>g. h mod max_partitions \<in> set g) gs)) x + mset (concat (map (\<lambda>g. rows_of_partitions g xs) gs))" for gs
    by (induction gs) (auto simp: rows_of_partitions_def x)
  moreover have once: "length (filter (\<lambda>g. k \<in> set g) gs) = (if k \<in> set (concat gs) then 1 else 0)" if "distinct (concat gs)" for gs k
    using that by (induction gs) (auto simp: filter_empty_conv)
  from once [OF dist, of "h mod max_partitions"] hash have "length (filter (\<lambda>g. h mod max_partitions \<in> set g) groups) = 1" by (simp only: if_True)
  ultimately show ?case using Cons.IH by simp
qed

text \<open>
  A state without columns but with rows is rejected with a panic and not with the error that is being
  built: the text of the error looks at the first column.
\<close>

lemma write_without_columns_panics:
  "m \<lparr>ci_checkpoint_id = cid, ci_marker_index = mi\<rparr> = None \<Longrightarrow> sl_field_types lib (sl_schema lib b) = [] \<Longrightarrow> sl_num_rows lib b \<noteq> 0 \<Longrightarrow>
    write_checkpoint_state lib cid ps mi b m = Err (Panic ''index out of bounds'')"
  by (simp add: write_checkpoint_state_def field_type_def Let_def)

end
