(* ===== verification/Operator_Serde.thy ===== *)
theory Operator_Serde
  imports Partitioning "HOL-Library.Word"
begin

text \<open>
  How operators and their parts are written and read: the serde helpers of
  \<open>src/streaming/utils/serde_serialization.rs\<close>, the exchange output operator of
  \<open>src/streaming/operators/remote_exchange.rs\<close> that uses them, and the protobuf conversions of
  \<open>src/streaming/operators/serialization.rs\<close>, \<open>projection.rs\<close>, \<open>filter.rs\<close>, \<open>identity.rs\<close> and
  \<open>union.rs\<close>.

  A serializer turns a value into a tree of the serde data model, \<open>sval\<close>; the flexbuffers format that
  stores such trees is not part of this theory.  The arrow stream format, the protobuf messages of
  schemas and expressions and their conversions are the records \<open>serde_lib\<close> and \<open>proto_lib\<close>.
  Expressions can only be read with the schema of their input at hand; the code passes it in a
  thread local variable, which is the state of the functions here.

  The theorems show that an exchange output operator is read back as it was written and that
  reading one, successfully or not, leaves no schema behind; that a batch survives; and that the
  protobuf conversions return the operator they were given.  The last are instances of one
  interface, the locale \<open>proto_serializer\<close>.
\<close>

subsection \<open>Serde values\<close>

type_synonym bytes = "8 word list"

datatype sval =
    SBytes bytes
  | SU8 "8 word"
  | SStr string
  | SSeq "sval list"
  | SStruct "(string \<times> sval) list"
  | SNone
  | SSome sval

definition serde_error :: "string \<Rightarrow> 'a result" where
  "serde_error text = Err (Execution text)"

fun de_bytes :: "sval \<Rightarrow> bytes result" where
  "de_bytes (SBytes bs) = Ok bs"
| "de_bytes _ = serde_error ''invalid type''"

fun de_string :: "sval \<Rightarrow> string result" where
  "de_string (SStr s) = Ok s"
| "de_string _ = serde_error ''invalid type''"

fun de_u8 :: "sval \<Rightarrow> 8 word result" where
  "de_u8 (SU8 b) = Ok b"
| "de_u8 _ = serde_error ''invalid type''"

fun de_seq :: "(sval \<Rightarrow> 'a result) \<Rightarrow> sval \<Rightarrow> 'a list result" where
  "de_seq f (SSeq vs) = collect_results (map f vs)"
| "de_seq f _ = serde_error ''invalid type''"

fun de_field :: "string \<Rightarrow> sval \<Rightarrow> sval result" where
  "de_field name (SStruct members) = ok_or (map_of members name) (Execution ''missing field'')"
| "de_field name _ = serde_error ''invalid type''"

subsection \<open>Batches, schemas and expressions\<close>

record ('b, 's, 'w, 'sp, 'e, 'n) serde_lib =
  sx_batch_schema :: "'b \<Rightarrow> 's"
  sx_writer_new :: "'s \<Rightarrow> 'w result"
  sx_writer_write :: "'w \<Rightarrow> 'b \<Rightarrow> 'w result"
  sx_writer_finish :: "'w \<Rightarrow> bytes result"
  sx_reader_new :: "bytes \<Rightarrow> 'b result list result"
  sx_schema_to_proto :: "'s \<Rightarrow> 'sp result"
  sx_schema_encode :: "'sp \<Rightarrow> bytes"
  sx_schema_decode :: "bytes \<Rightarrow> 'sp result"
  sx_schema_from_proto :: "'sp \<Rightarrow> 's result"
  sx_serialize_exprs :: "'e list \<Rightarrow> 'n list result"
  sx_node_encode :: "'n \<Rightarrow> bytes"
  sx_node_decode :: "bytes \<Rightarrow> 'n result"
  sx_parse_exprs :: "'n list \<Rightarrow> 's \<Rightarrow> 'e list result"

definition record_batches_serialize :: "('b, 's, 'w, 'sp, 'e, 'n) serde_lib \<Rightarrow> 'b list \<Rightarrow> sval result" where
  "record_batches_serialize lib batches =
     (case batches of
        [] \<Rightarrow> Ok (SBytes [])
      | record_batch # _ \<Rightarrow>
          bind_result (sx_writer_new lib (sx_batch_schema lib record_batch)) (\<lambda>writer.
          bind_result (fold_result (sx_writer_write lib) writer batches) (\<lambda>writer.
          bind_result (sx_writer_finish lib writer) (\<lambda>buffer.
          Ok (SBytes buffer)))))"

definition record_batches_deserialize :: "('b, 's, 'w, 'sp, 'e, 'n) serde_lib \<Rightarrow> sval \<Rightarrow> 'b list result" where
  "record_batches_deserialize lib v =
     bind_result (de_bytes v) (\<lambda>bs.
     bind_result (sx_reader_new lib bs) (\<lambda>reader.
     fold_result (\<lambda>batches r. case r of
         Ok batch \<Rightarrow> Ok (batches @ [batch])
       | Err e \<Rightarrow> serde_error ''Failed to read record batch'') [] reader))"

definition record_batch_serialize :: "('b, 's, 'w, 'sp, 'e, 'n) serde_lib \<Rightarrow> 'b \<Rightarrow> sval result" where
  "record_batch_serialize lib batch = record_batches_serialize lib [batch]"

definition record_batch_deserialize :: "('b, 's, 'w, 'sp, 'e, 'n) serde_lib \<Rightarrow> sval \<Rightarrow> 'b result" where
  "record_batch_deserialize lib v =
     bind_result (record_batches_deserialize lib v) (\<lambda>batches.
       case batches of
         [batch] \<Rightarrow> Ok batch
       | [] \<Rightarrow> serde_error ''Cannot deserialize a record batch from an empty stream''
       | _ \<Rightarrow> serde_error ''Found more than one record batch when deserializing the stream'')"

definition schema_serialize :: "('b, 's, 'w, 'sp, 'e, 'n) serde_lib \<Rightarrow> 's \<Rightarrow> sval result" where
  "schema_serialize lib schema =
     bind_result (sx_schema_to_proto lib schema) (\<lambda>proto_schema. Ok (SBytes (sx_schema_encode lib proto_schema)))"

definition schema_deserialize :: "('b, 's, 'w, 'sp, 'e, 'n) serde_lib \<Rightarrow> sval \<Rightarrow> 's result" where
  "schema_deserialize lib v =
     bind_result (de_bytes v) (\<lambda>bs.
     bind_result (sx_schema_decode lib bs) (\<lambda>proto_schema.
     sx_schema_from_proto lib proto_schema))"

text \<open>The thread local schema.\<close>

type_synonym 's schema_context = "'s option"

definition set_context :: "'s \<Rightarrow> 's schema_context \<Rightarrow> unit result \<times> 's schema_context" where
  "set_context schema ctx =
     (case ctx of
        Some _ \<Rightarrow> (Err (Internal ''Input schema already set in this thread''), ctx)
      | None \<Rightarrow> (Ok (), Some schema))"

definition get_context :: "'s schema_context \<Rightarrow> 's result" where
  "get_context ctx = ok_or ctx (Internal ''No input schema set in this thread'')"

definition drop_guard :: "'s schema_context \<Rightarrow> 's schema_context" where
  "drop_guard ctx = None"

definition exprs_serialize :: "('b, 's, 'w, 'sp, 'e, 'n) serde_lib \<Rightarrow> 'e list \<Rightarrow> sval result" where
  "exprs_serialize lib exprs =
     bind_result (sx_serialize_exprs lib exprs) (\<lambda>nodes.
     Ok (SSeq (map (\<lambda>n. SSeq (map SU8 (sx_node_encode lib n))) nodes)))"

definition exprs_deserialize_with :: "('b, 's, 'w, 'sp, 'e, 'n) serde_lib \<Rightarrow> 's \<Rightarrow> sval \<Rightarrow> 'e list result" where
  "exprs_deserialize_with lib input_schema v =
     bind_result (de_seq (de_seq de_u8) v) (\<lambda>buffers.
     bind_result (collect_results (map (sx_node_decode lib) buffers)) (\<lambda>nodes.
     sx_parse_exprs lib nodes input_schema))"

definition exprs_deserialize :: "('b, 's, 'w, 'sp, 'e, 'n) serde_lib \<Rightarrow> 's schema_context \<Rightarrow> sval \<Rightarrow> 'e list result" where
  "exprs_deserialize lib ctx v = bind_result (get_context ctx) (\<lambda>input_schema. exprs_deserialize_with lib input_schema v)"

subsection \<open>The exchange output operator\<close>

record ('s, 'e) remote_exchange_operator =
  rxo_output_stream_id :: string
  rxo_schema :: 's
  rxo_partitioning :: "'e partitioning_spec option"

definition partitioning_serialize :: "('b, 's, 'w, 'sp, 'e, 'n) serde_lib \<Rightarrow> 'e partitioning_spec option \<Rightarrow> sval result" where
  "partitioning_serialize lib partitioning =
     (case partitioning of
        None \<Rightarrow> Ok SNone
      | Some spec \<Rightarrow> bind_result (exprs_serialize lib (expressions spec)) (\<lambda>v. Ok (SSome (SStruct [(''expressions'', v)]))))"

fun partitioning_deserialize :: "('b, 's, 'w, 'sp, 'e, 'n) serde_lib \<Rightarrow> 's schema_context \<Rightarrow> sval \<Rightarrow> 'e partitioning_spec option result" where
  "partitioning_deserialize lib ctx SNone = Ok None"
| "partitioning_deserialize lib ctx (SSome v) =
     bind_result (de_field ''expressions'' v) (\<lambda>field.
     bind_result (exprs_deserialize lib ctx field) (\<lambda>exprs. Ok (Some \<lparr>expressions = exprs\<rparr>)))"
| "partitioning_deserialize lib ctx _ = serde_error ''invalid type''"

definition exchange_serialize :: "('b, 's, 'w, 'sp, 'e, 'n) serde_lib \<Rightarrow> ('s, 'e) remote_exchange_operator \<Rightarrow> sval result" where
  "exchange_serialize lib op =
     bind_result (schema_serialize lib (rxo_schema op)) (\<lambda>schema.
     bind_result (partitioning_serialize lib (rxo_partitioning op)) (\<lambda>partitioning.
     Ok (SSeq [SStruct [(''output_stream_id'', SStr (rxo_output_stream_id op)), (''schema'', schema)],
               SStruct [(''partitioning'', partitioning)]])))"

definition initial_deserialize :: "('b, 's, 'w, 'sp, 'e, 'n) serde_lib \<Rightarrow> sval \<Rightarrow> (string \<times> 's) result" where
  "initial_deserialize lib v =
     bind_result (de_field ''output_stream_id'' v) (\<lambda>id_field.
     bind_result (de_string id_field) (\<lambda>output_stream_id.
     bind_result (de_field ''schema'' v) (\<lambda>schema_field.
     bind_result (schema_deserialize lib schema_field) (\<lambda>schema.
     Ok (output_stream_id, schema)))))"

text \<open>A missing field of an optional type is read as none.\<close>

definition content_deserialize :: "('b, 's, 'w, 'sp, 'e, 'n) serde_lib \<Rightarrow> 's schema_context \<Rightarrow> sval \<Rightarrow> 'e partitioning_spec option result" where
  "content_deserialize lib ctx v =
     (case v of
        SStruct members \<Rightarrow> (case map_of members ''partitioning'' of None \<Rightarrow> Ok None | Some field \<Rightarrow> partitioning_deserialize lib ctx field)
      | _ \<Rightarrow> serde_error ''invalid type'')"

definition exchange_deserialize ::
  "('b, 's, 'w, 'sp, 'e, 'n) serde_lib \<Rightarrow> sval \<Rightarrow> 's schema_context \<Rightarrow> ('s, 'e) remote_exchange_operator result \<times> 's schema_context" where
  "exchange_deserialize lib v ctx =
     (case v of
        SSeq vs \<Rightarrow>
          (case vs of
             [] \<Rightarrow> (serde_error ''invalid length 0'', ctx)
           | first # rest \<Rightarrow>
               (case initial_deserialize lib first of
                  Err e \<Rightarrow> (Err e, ctx)
                | Ok (output_stream_id, schema) \<Rightarrow>
                    (case set_context schema ctx of
                       (Err e, ctx1) \<Rightarrow> (serde_error ''Failed to set context for deserialization'', ctx1)
                     | (Ok _, ctx1) \<Rightarrow>
                         (case rest of
                            [] \<Rightarrow> (serde_error ''invalid length 1'', drop_guard ctx1)
                          | second # _ \<Rightarrow>
                              (map_result (\<lambda>partitioning. \<lparr>rxo_output_stream_id = output_stream_id, rxo_schema = schema, rxo_partitioning = partitioning\<rparr>)
                                 (content_deserialize lib ctx1 second), drop_guard ctx1)))))
      | _ \<Rightarrow> (serde_error ''invalid type'', ctx))"

subsection \<open>Protobuf conversions\<close>

record ('s, 'e, 'sp, 'n, 'ctx) proto_lib =
  px_schema_to :: "'s \<Rightarrow> 'sp result"
  px_schema_from :: "'sp \<Rightarrow> 's result"
  px_expr_to :: "'e \<Rightarrow> 'n result"
  px_expr_from :: "'n \<Rightarrow> 'ctx \<Rightarrow> 's \<Rightarrow> 'e result"

definition vec_into_proto :: "('a \<Rightarrow> 'p result) \<Rightarrow> 'a list \<Rightarrow> 'p list result" where
  "vec_into_proto into_proto xs = collect_results (map into_proto xs)"

definition vec_from_proto :: "('c \<Rightarrow> 'p \<Rightarrow> 'a result) \<Rightarrow> 'c \<Rightarrow> 'p list \<Rightarrow> 'a list result" where
  "vec_from_proto from_proto context ps = collect_results (map (from_proto context) ps)"

definition expr_into_proto :: "('s, 'e, 'sp, 'n, 'ctx) proto_lib \<Rightarrow> 'e \<Rightarrow> 'n result" where
  "expr_into_proto lib expr = px_expr_to lib expr"

definition expr_from_proto :: "('s, 'e, 'sp, 'n, 'ctx) proto_lib \<Rightarrow> 'ctx \<times> 's \<Rightarrow> 'n \<Rightarrow> 'e result" where
  "expr_from_proto lib context node = px_expr_from lib node (fst context) (snd context)"

definition schema_into_proto :: "('s, 'e, 'sp, 'n, 'ctx) proto_lib \<Rightarrow> 's \<Rightarrow> 'sp result" where
  "schema_into_proto lib schema = px_schema_to lib schema"

definition schema_from_proto :: "('s, 'e, 'sp, 'n, 'ctx) proto_lib \<Rightarrow> unit \<Rightarrow> 'sp \<Rightarrow> 's result" where
  "schema_from_proto lib context proto = px_schema_from lib proto"

record 'e projection_expression =
  pe_expression :: 'e
  pe_alias :: string

record 'n proto_projection_expression =
  ppe_expression :: "'n option"
  ppe_alias :: string

definition projection_expression_into_proto :: "('s, 'e, 'sp, 'n, 'ctx) proto_lib \<Rightarrow> 'e projection_expression \<Rightarrow> 'n proto_projection_expression result" where
  "projection_expression_into_proto lib x =
     bind_result (expr_into_proto lib (pe_expression x)) (\<lambda>n. Ok \<lparr>ppe_expression = Some n, ppe_alias = pe_alias x\<rparr>)"

definition projection_expression_from_proto ::
  "('s, 'e, 'sp, 'n, 'ctx) proto_lib \<Rightarrow> 'ctx \<times> 's \<Rightarrow> 'n proto_projection_expression \<Rightarrow> 'e projection_expression result" where
  "projection_expression_from_proto lib context proto =
     bind_result (ok_or (ppe_expression proto) (Internal ''Expression is required for ProjectionExpression'')) (\<lambda>n.
     bind_result (expr_from_proto lib context n) (\<lambda>e. Ok \<lparr>pe_expression = e, pe_alias = ppe_alias proto\<rparr>))"

record ('s, 'e) projection_operator =
  po_schema :: 's
  po_expressions :: "'e projection_expression list"

record ('sp, 'n) proto_projection_operator =
  ppo_input_schema :: "'sp option"
  ppo_expressions :: "'n proto_projection_expression list"

definition projection_into_proto :: "('s, 'e, 'sp, 'n, 'ctx) proto_lib \<Rightarrow> ('s, 'e) projection_operator \<Rightarrow> ('sp, 'n) proto_projection_operator result" where
  "projection_into_proto lib op =
     bind_result (schema_into_proto lib (po_schema op)) (\<lambda>sp.
     bind_result (vec_into_proto (projection_expression_into_proto lib) (po_expressions op)) (\<lambda>es.
     Ok \<lparr>ppo_input_schema = Some sp, ppo_expressions = es\<rparr>))"

definition projection_from_proto ::
  "('s, 'e, 'sp, 'n, 'ctx) proto_lib \<Rightarrow> 'ctx \<Rightarrow> ('sp, 'n) proto_projection_operator \<Rightarrow> ('s, 'e) projection_operator result" where
  "projection_from_proto lib context proto =
     bind_result (ok_or (ppo_input_schema proto) (Internal ''Schema is required for ProjectionOperator'')) (\<lambda>sp.
     bind_result (schema_from_proto lib () sp) (\<lambda>input_schema.
     bind_result (vec_from_proto (projection_expression_from_proto lib) (context, input_schema) (ppo_expressions proto)) (\<lambda>es.
     Ok \<lparr>po_schema = input_schema, po_expressions = es\<rparr>)))"

record ('s, 'e) filter_operator =
  fo_input_schema :: 's
  fo_expression :: 'e

record ('sp, 'n) proto_filter_operator =
  pfo_input_schema :: "'sp option"
  pfo_expression :: "'n option"

definition filter_into_proto :: "('s, 'e, 'sp, 'n, 'ctx) proto_lib \<Rightarrow> ('s, 'e) filter_operator \<Rightarrow> ('sp, 'n) proto_filter_operator result" where
  "filter_into_proto lib op =
     bind_result (schema_into_proto lib (fo_input_schema op)) (\<lambda>sp.
     bind_result (expr_into_proto lib (fo_expression op)) (\<lambda>n.
     Ok \<lparr>pfo_input_schema = Some sp, pfo_expression = Some n\<rparr>))"

definition filter_from_proto :: "('s, 'e, 'sp, 'n, 'ctx) proto_lib \<Rightarrow> 'ctx \<Rightarrow> ('sp, 'n) proto_filter_operator \<Rightarrow> ('s, 'e) filter_operator result" where
  "filter_from_proto lib context proto =
     bind_result (ok_or (pfo_input_schema proto) (Internal ''Input schema is required for FilterOperator'')) (\<lambda>sp.
     bind_result (schema_from_proto lib () sp) (\<lambda>input_schema.
     bind_result (ok_or (pfo_expression proto) (Internal ''Expression is required for FilterOperator'')) (\<lambda>n.
     bind_result (expr_from_proto lib (context, input_schema) n) (\<lambda>e.
     Ok \<lparr>fo_input_schema = input_schema, fo_expression = e\<rparr>))))"

datatype identity_operator = IdentityOperator
datatype proto_identity_operator = ProtoIdentityOperator

definition identity_into_proto :: "identity_operator \<Rightarrow> proto_identity_operator result" where
  "identity_into_proto op = Ok ProtoIdentityOperator"

definition identity_from_proto :: "unit \<Rightarrow> proto_identity_operator \<Rightarrow> identity_operator result" where
  "identity_from_proto context proto = Ok IdentityOperator"

datatype union_operator = UnionOperator
datatype proto_union_operator = ProtoUnionOperator

definition union_into_proto :: "union_operator \<Rightarrow> proto_union_operator result" where
  "union_into_proto op = Ok ProtoUnionOperator"

definition union_from_proto :: "unit \<Rightarrow> proto_union_operator \<Rightarrow> union_operator result" where
  "union_from_proto context proto = Ok UnionOperator"

subsection \<open>What the libraries promise\<close>

text \<open>
  A stream of batches of one schema is read as it was written; schemas and expression nodes are decoded
  as they were encoded; expressions of a schema are parsed with it as they were serialized.  The
  predicate \<open>typed\<close> says which expressions belong to a schema.
\<close>

definition serde_lib_ok :: "('b, 's, 'w, 'sp, 'e, 'n) serde_lib \<Rightarrow> ('s \<Rightarrow> 'e \<Rightarrow> bool) \<Rightarrow> bool" where
  "serde_lib_ok lib typed \<longleftrightarrow>
     (\<forall>batches w w' bs s. (\<forall>b \<in> set batches. sx_batch_schema lib b = s) \<longrightarrow> sx_writer_new lib s = Ok w \<longrightarrow>
        fold_result (sx_writer_write lib) w batches = Ok w' \<longrightarrow> sx_writer_finish lib w' = Ok bs \<longrightarrow>
        sx_reader_new lib bs = Ok (map Ok batches)) \<and>
     (\<forall>s sp. sx_schema_to_proto lib s = Ok sp \<longrightarrow>
        sx_schema_decode lib (sx_schema_encode lib sp) = Ok sp \<and> sx_schema_from_proto lib sp = Ok s) \<and>
     (\<forall>n. sx_node_decode lib (sx_node_encode lib n) = Ok n) \<and>
     (\<forall>s es ns. list_all (typed s) es \<longrightarrow> sx_serialize_exprs lib es = Ok ns \<longrightarrow> sx_parse_exprs lib ns s = Ok es)"

definition proto_lib_ok :: "('s, 'e, 'sp, 'n, 'ctx) proto_lib \<Rightarrow> ('s \<Rightarrow> 'e \<Rightarrow> bool) \<Rightarrow> bool" where
  "proto_lib_ok lib typed \<longleftrightarrow>
     (\<forall>s sp. px_schema_to lib s = Ok sp \<longrightarrow> px_schema_from lib sp = Ok s) \<and>
     (\<forall>s e n ctx. typed s e \<longrightarrow> px_expr_to lib e = Ok n \<longrightarrow> px_expr_from lib n ctx s = Ok e)"

subsection \<open>Batches\<close>

lemma read_all_batches:
  "fold_result (\<lambda>batches r. case r of Ok batch \<Rightarrow> Ok (batches @ [batch]) | Err e \<Rightarrow> serde_error text) acc (map Ok bs) = Ok (acc @ bs)"
  by (induction bs arbitrary: acc) auto

lemma record_batches_round_trip:
  assumes "serde_lib_ok lib typed" and "batches \<noteq> []" and "\<forall>b \<in> set batches. sx_batch_schema lib b = s"
    and "record_batches_serialize lib batches = Ok v"
  shows "record_batches_deserialize lib v = Ok batches"
proof -
  obtain b rest where b: "batches = b # rest" using assms(2) by (cases batches) auto
  then have "sx_batch_schema lib b = s" using assms(3) by simp
  with assms(4) b obtain w w' bs where w: "sx_writer_new lib s = Ok w" "fold_result (sx_writer_write lib) w batches = Ok w'"
    "sx_writer_finish lib w' = Ok bs" "v = SBytes bs"
    by (auto simp: record_batches_serialize_def result_simps)
  with assms(1,3) have "sx_reader_new lib bs = Ok (map Ok batches)" unfolding serde_lib_ok_def by blast
  with w(4) show ?thesis by (simp add: record_batches_deserialize_def read_all_batches)
qed

text \<open>A batch that could be written is read back.\<close>

lemma record_batch_round_trip:
  "serde_lib_ok lib typed \<Longrightarrow> record_batch_serialize lib b = Ok v \<Longrightarrow> record_batch_deserialize lib v = Ok b"
  using record_batches_round_trip [of lib typed "[b]" "sx_batch_schema lib b" v]
  by (simp add: record_batch_serialize_def record_batch_deserialize_def)

text \<open>No batches are written as no bytes, which a reader that needs at least a header rejects.\<close>

lemma empty_batches_not_read:
  "sx_reader_new lib [] = Err e \<Longrightarrow> \<exists>v. record_batches_serialize lib [] = Ok v \<and> record_batches_deserialize lib v = Err e"
  by (simp add: record_batches_serialize_def record_batches_deserialize_def)

subsection \<open>Exchange outputs\<close>

lemma schema_round_trip: "serde_lib_ok lib typed \<Longrightarrow> schema_serialize lib s = Ok v \<Longrightarrow> schema_deserialize lib v = Ok s"
  by (auto simp: schema_serialize_def schema_deserialize_def serde_lib_ok_def result_simps)

lemma exprs_round_trip:
  assumes "serde_lib_ok lib typed" and "list_all (typed s) es" and "exprs_serialize lib es = Ok v"
  shows "exprs_deserialize lib (Some s) v = Ok es"
proof -
  obtain ns where ns: "sx_serialize_exprs lib es = Ok ns" "v = SSeq (map (\<lambda>n. SSeq (map SU8 (sx_node_encode lib n))) ns)"
    using assms(3) by (auto simp: exprs_serialize_def result_simps)
  have parsed: "sx_parse_exprs lib ns s = Ok es" "\<And>n. sx_node_decode lib (sx_node_encode lib n) = Ok n"
    using assms(1,2) ns(1) by (auto simp: serde_lib_ok_def)
  have buffers: "de_seq (de_seq de_u8) v = Ok (map (sx_node_encode lib) ns)" using ns(2) by (simp add: comp_def)
  have "collect_results (map (sx_node_decode lib) (map (sx_node_encode lib) ns)) = Ok ns"
    by (simp add: parsed(2) comp_def)
  with buffers parsed(1) show ?thesis by (simp add: exprs_deserialize_def get_context_def exprs_deserialize_with_def del: map_map)
qed

lemma partitioning_round_trip:
  assumes "serde_lib_ok lib typed" and "\<forall>spec. partitioning = Some spec \<longrightarrow> list_all (typed s) (expressions spec)"
    and "partitioning_serialize lib partitioning = Ok v"
  shows "partitioning_deserialize lib (Some s) v = Ok partitioning"
proof (cases partitioning)
  case None
  then show ?thesis using assms(3) by (simp add: partitioning_serialize_def)
next
  case (Some spec)
  then obtain u where u: "exprs_serialize lib (expressions spec) = Ok u" "v = SSome (SStruct [(''expressions'', u)])"
    using assms(3) by (auto simp: partitioning_serialize_def result_simps)
  have "exprs_deserialize lib (Some s) u = Ok (expressions spec)" using exprs_round_trip [OF assms(1) _ u(1)] assms(2) Some by simp
  then show ?thesis by (simp add: u(2) Some)
qed

text \<open>
  C30: an exchange output operator is read back as it was written, and reading leaves no schema behind.
  If the expressions of its partitioning belong to its schema, an operator that could be written is
  read, in a thread without a schema, as the same operator, and the thread has none afterwards.
\<close>

theorem exchange_operator_round_trip:
  assumes "serde_lib_ok lib typed" and "\<forall>spec. rxo_partitioning op = Some spec \<longrightarrow> list_all (typed (rxo_schema op)) (expressions spec)"
    and "exchange_serialize lib op = Ok v"
  shows "exchange_deserialize lib v None = (Ok op, None)"
proof -
  obtain sv pv where sv: "schema_serialize lib (rxo_schema op) = Ok sv" "partitioning_serialize lib (rxo_partitioning op) = Ok pv"
    "v = SSeq [SStruct [(''output_stream_id'', SStr (rxo_output_stream_id op)), (''schema'', sv)], SStruct [(''partitioning'', pv)]]"
    using assms(3) by (auto simp: exchange_serialize_def result_simps)
  have "schema_deserialize lib sv = Ok (rxo_schema op)" by (rule schema_round_trip [OF assms(1) sv(1)])
  moreover have "partitioning_deserialize lib (Some (rxo_schema op)) pv = Ok (rxo_partitioning op)"
    by (rule partitioning_round_trip [OF assms(1,2) sv(2)])
  ultimately show ?thesis
    by (simp add: sv(3) exchange_deserialize_def initial_deserialize_def content_deserialize_def set_context_def drop_guard_def)
qed

text \<open>Whatever is read, a thread without a schema has none afterwards, and one with a schema keeps it and gets an error.\<close>

lemma exchange_deserialize_context:
  "snd (exchange_deserialize lib v None) = None"
  "snd (exchange_deserialize lib v (Some s)) = Some s \<and> \<not> is_ok (fst (exchange_deserialize lib v (Some s)))"
  by (auto simp: exchange_deserialize_def set_context_def drop_guard_def serde_error_def split: sval.splits list.splits result.splits prod.splits)

text \<open>A library whose batches and expressions are single bytes.\<close>

definition byte_lib :: "(8 word, unit, bytes, unit, 8 word, 8 word) serde_lib" where
  "byte_lib = \<lparr>sx_batch_schema = (\<lambda>_. ()), sx_writer_new = (\<lambda>_. Ok []), sx_writer_write = (\<lambda>w b. Ok (w @ [b])), sx_writer_finish = Ok,
     sx_reader_new = (\<lambda>bs. Ok (map Ok bs)), sx_schema_to_proto = Ok, sx_schema_encode = (\<lambda>_. []), sx_schema_decode = (\<lambda>_. Ok ()),
     sx_schema_from_proto = Ok, sx_serialize_exprs = Ok, sx_node_encode = (\<lambda>n. [n]), sx_node_decode = (\<lambda>bs. Ok (hd bs)),
     sx_parse_exprs = (\<lambda>ns _. Ok ns)\<rparr>"

lemma byte_lib_ok: "serde_lib_ok byte_lib (\<lambda>_ _. True)"
proof -
  have "fold_result (\<lambda>w b. Ok (w @ [b])) w bs = Ok (w @ bs)" for w bs :: bytes
    by (induction bs arbitrary: w) auto
  then show ?thesis by (auto simp: serde_lib_ok_def byte_lib_def)
qed

theorem exchange_operator_round_trip_witness:
  "\<exists>v. exchange_serialize byte_lib \<lparr>rxo_output_stream_id = ''out'', rxo_schema = (), rxo_partitioning = Some \<lparr>expressions = [3, 4]\<rparr>\<rparr> = Ok v \<and>
     exchange_deserialize byte_lib v None =
       (Ok \<lparr>rxo_output_stream_id = ''out'', rxo_schema = (), rxo_partitioning = Some \<lparr>expressions = [3, 4]\<rparr>\<rparr>, None)"
proof -
  let ?op = "\<lparr>rxo_output_stream_id = ''out'', rxo_schema = (), rxo_partitioning = Some \<lparr>expressions = [3, 4 :: 8 word]\<rparr>\<rparr>"
  obtain v where v: "exchange_serialize byte_lib ?op = Ok v"
    by (simp add: exchange_serialize_def schema_serialize_def partitioning_serialize_def exprs_serialize_def byte_lib_def)
  have "\<forall>spec. rxo_partitioning ?op = Some spec \<longrightarrow> list_all (\<lambda>_. True) (expressions spec)" by (simp add: list_all_iff)
  from exchange_operator_round_trip [OF byte_lib_ok this v] v show ?thesis by blast
qed

subsection \<open>The interface of the protobuf conversions\<close>

text \<open>
  \<open>ProtoSerializer\<close>: what was converted to a message is converted back in a context that suits it.  A
  vector of such values has the same property.
\<close>

locale proto_serializer =
  fixes into_proto :: "'a \<Rightarrow> 'p result" and from_proto :: "'c \<Rightarrow> 'p \<Rightarrow> 'a result" and suits :: "'c \<Rightarrow> 'a \<Rightarrow> bool"
  assumes round_trip: "suits context x \<Longrightarrow> into_proto x = Ok p \<Longrightarrow> from_proto context p = Ok x"
begin

lemma vec_round_trip:
  assumes "\<forall>x \<in> set xs. suits context x" and "vec_into_proto into_proto xs = Ok ps"
  shows "vec_from_proto from_proto context ps = Ok xs"
proof -
  have "map into_proto xs = map Ok ps" using assms(2) by (simp add: vec_into_proto_def collect_results_Ok_iff)
  then have "length xs = length ps" and each: "\<forall>i < length ps. into_proto (xs ! i) = Ok (ps ! i)"
    by (auto dest: map_eq_imp_length_eq simp: list_eq_iff_nth_eq)
  then have "map (from_proto context) ps = map Ok xs"
    using assms(1) by (intro nth_equalityI) (auto intro!: round_trip)
  then show ?thesis by (simp add: vec_from_proto_def collect_results_Ok_iff)
qed

end

interpretation schema_proto: proto_serializer "schema_into_proto lib" "schema_from_proto lib" "\<lambda>_ _. proto_lib_ok lib typed"
  for lib :: "('s, 'e, 'sp, 'n, 'ctx) proto_lib" and typed
  by unfold_locales (auto simp: schema_into_proto_def schema_from_proto_def proto_lib_ok_def)

interpretation expr_proto: proto_serializer "expr_into_proto lib" "expr_from_proto lib" "\<lambda>c e. proto_lib_ok lib typed \<and> typed (snd c) e"
  for lib :: "('s, 'e, 'sp, 'n, 'ctx) proto_lib" and typed
  by unfold_locales (auto simp: expr_into_proto_def expr_from_proto_def proto_lib_ok_def)

interpretation projection_expression_proto: proto_serializer "projection_expression_into_proto lib" "projection_expression_from_proto lib"
    "\<lambda>c x. proto_lib_ok lib typed \<and> typed (snd c) (pe_expression x)"
  for lib :: "('s, 'e, 'sp, 'n, 'ctx) proto_lib" and typed
proof
  fix c :: "'ctx \<times> 's" and x :: "'e projection_expression" and p
  assume ok: "proto_lib_ok lib typed \<and> typed (snd c) (pe_expression x)" and "projection_expression_into_proto lib x = Ok p"
  then obtain n where n: "expr_into_proto lib (pe_expression x) = Ok n" "p = \<lparr>ppe_expression = Some n, ppe_alias = pe_alias x\<rparr>"
    by (auto simp: projection_expression_into_proto_def result_simps)
  have "expr_from_proto lib c n = Ok (pe_expression x)" by (rule expr_proto.round_trip [OF ok n(1)])
  then show "projection_expression_from_proto lib c p = Ok x" by (simp add: n(2) projection_expression_from_proto_def)
qed

interpretation projection_proto: proto_serializer "projection_into_proto lib" "projection_from_proto lib"
    "\<lambda>_ op. proto_lib_ok lib typed \<and> (\<forall>x \<in> set (po_expressions op). typed (po_schema op) (pe_expression x))"
  for lib :: "('s, 'e, 'sp, 'n, 'ctx) proto_lib" and typed
proof
  fix c :: 'ctx and op :: "('s, 'e) projection_operator" and p
  assume ok: "proto_lib_ok lib typed \<and> (\<forall>x \<in> set (po_expressions op). typed (po_schema op) (pe_expression x))"
    and "projection_into_proto lib op = Ok p"
  then obtain sp es where p: "schema_into_proto lib (po_schema op) = Ok sp"
    "vec_into_proto (projection_expression_into_proto lib) (po_expressions op) = Ok es" "p = \<lparr>ppo_input_schema = Some sp, ppo_expressions = es\<rparr>"
    by (auto simp: projection_into_proto_def result_simps)
  have "schema_from_proto lib () sp = Ok (po_schema op)" by (rule schema_proto.round_trip [where typed = typed, OF _ p(1)]) (use ok in blast)
  moreover have "vec_from_proto (projection_expression_from_proto lib) (c, po_schema op) es = Ok (po_expressions op)"
    by (rule projection_expression_proto.vec_round_trip [where typed = typed, OF _ p(2)]) (use ok in simp)
  ultimately show "projection_from_proto lib c p = Ok op" by (simp add: p(3) projection_from_proto_def)
qed

interpretation filter_proto: proto_serializer "filter_into_proto lib" "filter_from_proto lib"
    "\<lambda>_ op. proto_lib_ok lib typed \<and> typed (fo_input_schema op) (fo_expression op)"
  for lib :: "('s, 'e, 'sp, 'n, 'ctx) proto_lib" and typed
  by unfold_locales
    (auto simp: filter_into_proto_def filter_from_proto_def schema_into_proto_def schema_from_proto_def expr_into_proto_def expr_from_proto_def
      proto_lib_ok_def result_simps)

interpretation identity_proto: proto_serializer identity_into_proto identity_from_proto "\<lambda>_ _. True"
proof
  fix c x p
  show "identity_from_proto c p = Ok x" by (cases x) (simp add: identity_from_proto_def)
qed

interpretation union_proto: proto_serializer union_into_proto union_from_proto "\<lambda>_ _. True"
proof
  fix c x p
  show "union_from_proto c p = Ok x" by (cases x) (simp add: union_from_proto_def)
qed

text \<open>A projection whose expressions belong to its input schema is converted back as it was.\<close>

lemma projection_round_trip:
  assumes "proto_lib_ok lib typed" and "\<forall>x \<in> set (po_expressions op). typed (po_schema op) (pe_expression x)" and "projection_into_proto lib op = Ok p"
  shows "projection_from_proto lib context p = Ok op"
  using projection_proto.round_trip [OF conjI [OF assms(1,2)] assms(3)] .

end
