(* ===== verification/Services.thy ===== *)
theory Services
  imports Batch_Plans Exchange Task_Main
begin

text \<open>
  The lifetime of the two servers: \<open>DFRayProcessorService\<close> of \<open>src/processor_service.rs\<close>, which serves
  the partitions of a batch plan, and \<open>DataExchangeManager\<close> of
  \<open>src/streaming/runtime/exchange_manager/data_exchange_manager.rs\<close>, which serves the streams of
  a worker.

  Both are started on a listening socket and stopped by a signal.  The signal of the first is a
  message in a channel with room for one, whose receiver the server takes; the signal of the second
  is a one-shot channel, and the server also stops when its sender is dropped.  Binding a socket,
  finding the address of the host and decoding a plan are parameters, as is whether debug messages
  are on, since the message of an update asks for the address.

  The lemmas show the states a service goes through; the last lemma states that a service that was
  started, given a plan and told to stop serves until then, answers from its plan, and stops.
\<close>

subsection \<open>Flight requests\<close>

text \<open>\<open>FlightServ\<close> of \<open>src/flight.rs\<close>: one request for every method of the flight protocol.\<close>

datatype 'ticket flight_request =
    DoGet 'ticket | DoPut | Handshake | ListFlights | GetFlightInfo | PollFlightInfo | GetSchema | DoAction | ListActions | DoExchange

fun flight_serv :: "('ticket \<Rightarrow> flight_status + 't) \<Rightarrow> 'ticket flight_request \<Rightarrow> flight_status + 't" where
  "flight_serv handler (DoGet ticket) = handler ticket"
| "flight_serv handler DoPut = Inl (StatusUnimplemented ''Unimplemented: do put'')"
| "flight_serv handler Handshake = Inl (StatusUnimplemented ''Unimplemented: handshake'')"
| "flight_serv handler ListFlights = Inl (StatusUnimplemented ''Unimplemented: list_flights'')"
| "flight_serv handler GetFlightInfo = Inl (StatusUnimplemented ''Unimplemented: get_flight_info'')"
| "flight_serv handler PollFlightInfo = Inl (StatusUnimplemented ''Unimplemented: poll_flight_info'')"
| "flight_serv handler GetSchema = Inl (StatusUnimplemented ''Unimplemented: get_schema'')"
| "flight_serv handler DoAction = Inl (StatusUnimplemented ''Unimplemented: do action'')"
| "flight_serv handler ListActions = Inl (StatusUnimplemented ''Unimplemented: list_actions'')"
| "flight_serv handler DoExchange = Inl (StatusUnimplemented ''Unimplemented: do_exchange'')"

subsection \<open>The batch service\<close>

datatype shutdown_receiver = ReceiverHeld | ReceiverServing | ReceiverGone

record 'client processor_service =
  ps_name :: string
  ps_listener :: "string option"
  ps_handler :: "'client handler_inner option"
  ps_addr :: "string option"
  ps_all_done :: nat
  ps_receiver :: shutdown_receiver

definition processor_service_new :: "string \<Rightarrow> 'client processor_service" where
  "processor_service_new name =
     \<lparr>ps_name = ''['' @ name @ '']'', ps_listener = None, ps_handler = None, ps_addr = None, ps_all_done = 0, ps_receiver = ReceiverHeld\<rparr>"

definition processor_service_start_up ::
  "string result \<Rightarrow> (string \<Rightarrow> string result) \<Rightarrow> 'client processor_service \<Rightarrow> unit result \<times> 'client processor_service" where
  "processor_service_start_up local_ip bind s =
     (case bind_result local_ip (\<lambda>ip. bind (ip @ '':0'')) of
        Err e \<Rightarrow> (Err e, s)
      | Ok address \<Rightarrow> (Ok (), s\<lparr>ps_listener := Some address, ps_addr := Some address\<rparr>))"

definition processor_service_addr :: "'client processor_service \<Rightarrow> string result" where
  "processor_service_addr s = ok_or (ps_addr s) (Execution ''Couldn't get addr'')"

text \<open>The future of \<open>all_done\<close>, polled once: sending waits while the channel is full.\<close>

datatype send_poll = SendPending | SendDone "unit result"

definition processor_service_all_done :: "'client processor_service \<Rightarrow> send_poll \<times> 'client processor_service" where
  "processor_service_all_done s =
     (if ps_receiver s = ReceiverGone then (SendDone (Err (Execution ''channel closed'')), s)
      else if ps_all_done s < 1 then (SendDone (Ok ()), s\<lparr>ps_all_done := ps_all_done s + 1\<rparr>)
      else (SendPending, s))"

definition processor_service_update_plan ::
  "bool \<Rightarrow> ('bytes \<Rightarrow> plan result) \<Rightarrow> (string \<Rightarrow> 'client result) \<Rightarrow> (usize \<Rightarrow> (usize \<times> string list) list option) \<Rightarrow> usize list \<Rightarrow> 'bytes
     \<Rightarrow> 'client processor_service \<Rightarrow> unit result \<times> 'client processor_service" where
  "processor_service_update_plan debug_on bytes_to_physical_plan make_client stage_addrs partition_group plan_bytes s =
     (case bytes_to_physical_plan plan_bytes of
        Err e \<Rightarrow> (Err e, s)
      | Ok plan \<Rightarrow>
          if debug_on \<and> \<not> is_ok (processor_service_addr s) then (Err (Execution ''Couldn't get addr''), s)
          else
            (case handler_update_plan make_client stage_addrs plan partition_group (ps_handler s) of
               (r, handler) \<Rightarrow> (r, s\<lparr>ps_handler := handler\<rparr>)))"

text \<open>\<open>serve\<close> takes the receiver and then the listener; both are expected to be there.\<close>

definition processor_service_serve :: "'client processor_service \<Rightarrow> unit result \<times> 'client processor_service" where
  "processor_service_serve s =
     (if ps_receiver s \<noteq> ReceiverHeld then (Err (Panic ''called Option::unwrap on a None value''), s)
      else
        case ps_listener s of
          None \<Rightarrow> (Err (Panic ''called Option::unwrap on a None value''), s\<lparr>ps_receiver := ReceiverGone\<rparr>)
        | Some _ \<Rightarrow> (Ok (), s\<lparr>ps_receiver := ReceiverServing, ps_listener := None\<rparr>))"

text \<open>One poll of the running server: it ends when the signal has arrived.\<close>

definition processor_service_poll :: "'client processor_service \<Rightarrow> 'client processor_service" where
  "processor_service_poll s =
     (if ps_receiver s = ReceiverServing \<and> 0 < ps_all_done s then s\<lparr>ps_all_done := ps_all_done s - 1, ps_receiver := ReceiverGone\<rparr> else s)"

definition processor_service_request ::
  "('client handler_inner \<Rightarrow> usize \<Rightarrow> 't result) \<Rightarrow> ('ticket \<Rightarrow> usize option) \<Rightarrow> 'ticket flight_request \<Rightarrow> 'client processor_service
     \<Rightarrow> (flight_status + 't) option" where
  "processor_service_request execute extract_ticket request s =
     (if ps_receiver s = ReceiverServing then Some (flight_serv (handler_get_stream execute extract_ticket (ps_handler s)) request) else None)"

subsection \<open>The exchange manager\<close>

datatype close_signal = SignalOpen | SignalSent | SignalDropped

record ('b, 'e) data_exchange_manager =
  dem_listening_address :: string
  dem_exchange_channel_store :: "('b, 'e) exchange_channel_store"
  dem_close_signal_sender :: bool
  dem_signal :: close_signal
  dem_serving :: bool

definition exchange_manager_start ::
  "(string \<Rightarrow> string result) \<Rightarrow> string \<Rightarrow> ('b, 'e) data_exchange_manager result" where
  "exchange_manager_start bind local_ip_address =
     bind_result (bind (local_ip_address @ '':0'')) (\<lambda>listening_address.
     Ok \<lparr>dem_listening_address = listening_address, dem_exchange_channel_store = store_new, dem_close_signal_sender = True,
         dem_signal = SignalOpen, dem_serving = True\<rparr>)"

definition exchange_manager_create_channel ::
  "string \<Rightarrow> 'e channel_partitioning_details option \<Rightarrow> ('b, 'e) data_exchange_manager \<Rightarrow> channel_sender \<times> ('b, 'e) data_exchange_manager" where
  "exchange_manager_create_channel stream_id partitioning_details m =
     (case store_create stream_id partitioning_details (dem_exchange_channel_store m) of
        (_, sender, store) \<Rightarrow> (sender, m\<lparr>dem_exchange_channel_store := store\<rparr>))"

definition exchange_manager_close :: "('b, 'e) data_exchange_manager \<Rightarrow> ('b, 'e) data_exchange_manager" where
  "exchange_manager_close m =
     (if dem_close_signal_sender m
      then m\<lparr>dem_close_signal_sender := False, dem_signal := (if dem_serving m then SignalSent else dem_signal m)\<rparr>
      else m)"

text \<open>Dropping the manager drops a sender that was not used.\<close>

definition exchange_manager_drop :: "('b, 'e) data_exchange_manager \<Rightarrow> ('b, 'e) data_exchange_manager" where
  "exchange_manager_drop m =
     (if dem_close_signal_sender m then m\<lparr>dem_close_signal_sender := False, dem_signal := SignalDropped\<rparr> else m)"

definition exchange_manager_poll :: "('b, 'e) data_exchange_manager \<Rightarrow> ('b, 'e) data_exchange_manager" where
  "exchange_manager_poll m = (if dem_serving m \<and> dem_signal m \<noteq> SignalOpen then m\<lparr>dem_serving := False\<rparr> else m)"

subsection \<open>The runtime of a worker\<close>

text \<open>
  \<open>Runtime::start\<close> and the start of a worker.  A temporary directory is the path it was created at;
  creating one may fail.
\<close>

record ('b, 'e, 'client, 'c) runtime =
  rt_data_client_manager :: "'client client_map"
  rt_data_exchange_manager :: "('b, 'e) data_exchange_manager"
  rt_local_file_system :: "'c tempdir_storage"
  rt_remote_checkpoint_file_system :: "'c state_storage"

definition runtime_start ::
  "(string \<Rightarrow> string result) \<Rightarrow> string \<Rightarrow> 'c tempdir_storage \<Rightarrow> 'c state_storage \<Rightarrow> ('b, 'e, 'client, 'c) runtime result" where
  "runtime_start bind local_ip_address local_file_system remote_checkpoint_file_system =
     bind_result (exchange_manager_start bind local_ip_address) (\<lambda>manager.
     Ok \<lparr>rt_data_client_manager = Map.empty, rt_data_exchange_manager = manager, rt_local_file_system = local_file_system,
         rt_remote_checkpoint_file_system = remote_checkpoint_file_system\<rparr>)"

definition start_with_remote_file_system ::
  "string result \<Rightarrow> (string \<Rightarrow> path result) \<Rightarrow> (string \<Rightarrow> string result) \<Rightarrow> string \<Rightarrow> 'c state_storage
     \<Rightarrow> (string \<times> ('b, 'e, 'client, 'c) runtime \<times> ('b, 'e, 'k, 'db) worker_process) result" where
  "start_with_remote_file_system local_ip make_temp_dir bind name remote_state_store =
     (let name = ''['' @ name @ '']'' in
      bind_result (case local_ip of Ok ip \<Rightarrow> Ok ip | Err _ \<Rightarrow> Err (Internal ''Failed to get worker local ip'')) (\<lambda>local_ip_addr.
      bind_result (make_temp_dir (name @ ''-local'')) (\<lambda>dir.
      bind_result (runtime_start bind local_ip_addr (from_tempdir dir) remote_state_store) (\<lambda>runtime.
      Ok (name, runtime, worker_new)))))"

definition worker_start ::
  "string result \<Rightarrow> (string \<Rightarrow> path result) \<Rightarrow> (string \<Rightarrow> string result) \<Rightarrow> string
     \<Rightarrow> (string \<times> ('b, 'e, 'client, 'c) runtime \<times> ('b, 'e, 'k, 'db) worker_process) result" where
  "worker_start local_ip make_temp_dir bind name =
     bind_result (make_temp_dir (name @ ''-remote'')) (\<lambda>dir.
     start_with_remote_file_system local_ip make_temp_dir bind name
       \<lparr>ss_storage = tempdir_ops (from_tempdir dir), ss_root_dir = [''state'']\<rparr>)"

definition data_exchange_address :: "('b, 'e, 'client, 'c) runtime \<Rightarrow> string" where
  "data_exchange_address runtime = dem_listening_address (rt_data_exchange_manager runtime)"

subsection \<open>States of the batch service\<close>

text \<open>A service that is asked to serve before it is started loses its receiver and can never serve.\<close>

lemma serve_before_start_up:
  assumes "ps_receiver s = ReceiverHeld" and "ps_listener s = None"
  shows "\<exists>e s1. processor_service_serve s = (Err e, s1) \<and>
    (\<forall>local_ip bind r s2. processor_service_start_up local_ip bind s1 = (r, s2) \<longrightarrow> \<not> is_ok (fst (processor_service_serve s2)))"
  using assms by (auto simp: processor_service_serve_def processor_service_start_up_def split: result.splits)

text \<open>A second call of \<open>serve\<close> panics, and the second of two signals to a service that does not serve waits.\<close>

lemma serve_twice: "processor_service_serve s = (Ok (), s1) \<Longrightarrow> \<exists>text. processor_service_serve s1 = (Err (Panic text), s1)"
  by (auto simp: processor_service_serve_def split: if_splits option.splits)

lemma all_done_twice:
  "processor_service_all_done s = (SendDone (Ok ()), s1) \<Longrightarrow> fst (processor_service_all_done s1) = SendPending"
  by (auto simp: processor_service_all_done_def split: if_splits)

text \<open>A manager that is closed twice is as one that is closed once, and either end of it stops the server.\<close>

lemma close_idempotent: "exchange_manager_close (exchange_manager_close m) = exchange_manager_close m"
  by (simp add: exchange_manager_close_def)

lemma closed_manager_stops:
  "exchange_manager_start bind ip = Ok m \<Longrightarrow> \<not> dem_serving (exchange_manager_poll (exchange_manager_close m))"
  "exchange_manager_start bind ip = Ok m \<Longrightarrow> \<not> dem_serving (exchange_manager_poll (exchange_manager_drop m))"
  "exchange_manager_start bind ip = Ok m \<Longrightarrow> dem_serving (exchange_manager_poll m)"
  by (auto simp: exchange_manager_start_def exchange_manager_close_def exchange_manager_drop_def exchange_manager_poll_def result_simps)

text \<open>
  A service serves its plan from the start until it is told to stop.  After it was started and
  serves, an update with a plan that can be installed succeeds and requests are answered by
  executing that plan; the signal to stop is accepted at once, and at its next turn the server
  has ended and a further signal is refused.
\<close>

lemma service_serves_until_stopped:
  assumes "local_ip = Ok ip" and "bind (ip @ '':0'') = Ok address" and "bytes_to_physical_plan plan_bytes = Ok p"
    and "inner_new make_client stage_addrs p partition_group = Ok inner" and "extract_ticket ticket = Some part"
  shows "\<exists>s1 s2 s3 s4. processor_service_start_up local_ip bind (processor_service_new name) = (Ok (), s1) \<and>
    processor_service_addr s1 = Ok address \<and> processor_service_serve s1 = (Ok (), s2) \<and>
    processor_service_update_plan debug_on bytes_to_physical_plan make_client stage_addrs partition_group plan_bytes s2 = (Ok (), s3) \<and>
    processor_service_poll s3 = s3 \<and>
    processor_service_request execute extract_ticket (DoGet ticket) s3 = Some (make_stream execute inner part) \<and>
    processor_service_all_done s3 = (SendDone (Ok ()), s4) \<and>
    processor_service_request execute extract_ticket (DoGet ticket) (processor_service_poll s4) = None \<and>
    (\<exists>e. processor_service_all_done (processor_service_poll s4) = (SendDone (Err e), processor_service_poll s4))"
  using assms
  by (simp add: processor_service_start_up_def processor_service_new_def processor_service_addr_def processor_service_serve_def
      processor_service_update_plan_def processor_service_poll_def processor_service_request_def processor_service_all_done_def
      handler_update_plan_def handler_get_stream_def)

text \<open>Only a request for a stream reaches the handler of a server.\<close>

lemma flight_serv_refuses: "(\<forall>ticket. request \<noteq> DoGet ticket) \<Longrightarrow> \<exists>text. flight_serv handler request = Inl (StatusUnimplemented text)"
  by (cases request) auto

text \<open>
  A worker that started runs no task, serves at the address its listener was bound to, and keeps its
  local state and, when it was given none, its checkpoints in directories of its own.
\<close>

lemma worker_start_serves:
  assumes "worker_start local_ip make_temp_dir bind name = Ok (worker_name, runtime, worker)"
  shows "\<exists>ip dir. local_ip = Ok ip \<and> bind (ip @ '':0'') = Ok (data_exchange_address runtime) \<and>
    dem_serving (rt_data_exchange_manager runtime) \<and> wp_running_tasks worker = Map.empty \<and>
    make_temp_dir (''['' @ name @ '']-local'') = Ok (td_dir (rt_local_file_system runtime)) \<and>
    make_temp_dir (name @ ''-remote'') = Ok dir \<and> rt_remote_checkpoint_file_system runtime = \<lparr>ss_storage = prefixed_storage dir, ss_root_dir = [''state'']\<rparr>"
  using assms
  by (auto simp: worker_start_def start_with_remote_file_system_def runtime_start_def exchange_manager_start_def data_exchange_address_def
      worker_new_def from_tempdir_def tempdir_ops_prefixed [unfolded from_tempdir_def] result_simps Let_def split: result.splits)

end
