(* ===== verification/Spec2Isabelle.thy ===== *)
theory Spec2Isabelle
  imports Partitioning Generation Action_Stream Data_Channels Exchange File_System Checkpoint_Storage State_Backend
    Barrier Remote_Source Stream_Operators Count_Operators Flight_Encoder Operators Task_Main Coordinator
    Batch_Streams Batch_Plans Processor_Pool Supervisor Data_Frame Checkpoint_Manager Operator_Serde Services
begin

text \<open>
  A verification library for datafusion-ray: query engines that run Apache DataFusion on a Ray
  cluster.  The repository holds two of them.  The streaming engine (\<open>src/streaming\<close>, \<open>src/python\<close>)
  runs tasks of connected operators that exchange batches and checkpoint markers and recover from
  checkpoints.  The batch engine (the other files of \<open>src\<close>, and \<open>datafusion_ray/core.py\<close>) cuts a
  physical plan into stages whose partitions processors serve to each other.  Paths below are
  relative to the root of the repository.

  \<^bold>\<open>How the parts interact.\<close>  A coordinator starts processors, computes which address serves
  which partitions of which stream, and sends each processor its task.  A worker runs the task in a
  loop that initialises its operator, loads a checkpoint and runs it.  Operators read from remote
  sources, whose fibres meet at a barrier at every marker and follow the current generation of the
  schedule; they keep their state in a backend that takes numbered checkpoints and indexes them in
  remote storage; they write into exchange channels, which other workers read through the flight
  protocol.  In the batch engine a context owns two supervisors, a supervisor owns a pool of
  processors, and a data frame asks the supervisor to spread its stages over the pool and reads the
  last one.

  \<^bold>\<open>Conventions.\<close>  Rust's \<open>Result\<close> is \<open>result\<close>, and a panic is one of its errors.  A
  \<open>usize\<close> or \<open>u64\<close> is a natural number, with the wrap-around of the release profile
  written out where the code can leave the range.  A Python method is a function from the state to an
  outcome and the state after it, so that what was changed before an exception stays.  A critical section
  under one lock is one definition; where sections of different tasks can interleave they are steps
  of an inductive relation.  Random choices, the clock, fresh identifiers and the order in which
  futures complete are arguments.  Libraries outside the repository (Arrow, DataFusion, RocksDB,
  protobuf, JSON, flexbuffers, Ray, sockets) are records of functions; what the code relies on is
  a named predicate of such a record, and a concrete record shows that it can hold.

  \<^bold>\<open>Theories of the streaming engine.\<close>
  \<^item> \<open>Prelude\<close>: errors, results, word-size arithmetic, intervals that tile a range, and the locale
    \<open>invariant_system\<close> of transition systems with an invariant.
  \<^item> \<open>Partitioning\<close> (\<open>partitioning.rs\<close>): ranges, the hash test and the filter of batches; ranges
    that tile the partitions share out the rows of a batch (locale \<open>range_cover\<close>).
  \<^item> \<open>Generation\<close> (\<open>generation.rs\<close>, \<open>remote_source/utils.rs\<close>): the current generation at a marker and
    the addresses of its partitions.
  \<^item> \<open>Action_Stream\<close> (\<open>action_stream.rs\<close>): the merge of streams at markers is aligned and ends.
  \<^item> \<open>Data_Channels\<close> (\<open>data_channels.rs\<close>, \<open>once_notify.rs\<close>): sender and reader of a channel in every
    interleaving; prefixes, wake-ups, completion.
  \<^item> \<open>Exchange\<close> (the store of \<open>data_channels.rs\<close>, the handler of \<open>data_exchange_manager.rs\<close>,
    \<open>create_remote_stream.rs\<close>, \<open>data_client_manager.rs\<close>, \<open>retry.rs\<close>): a request reaches its channel
    and delivers the requested partitions.
  \<^item> \<open>File_System\<close> (\<open>state/file_system.rs\<close>): storages as interpretations of the locale \<open>file_storage\<close>;
    the copy between two storages (locale \<open>storage_pair\<close>).
  \<^item> \<open>Checkpoint_Storage\<close> (\<open>state/checkpoint_storage.rs\<close>): the index of checkpoints and the search for
    parts that cover a range.
  \<^item> \<open>State_Backend\<close> (\<open>state/state.rs\<close>): the backend refines a key-value store with snapshots, and a
    checkpoint can be restored on another disk.
  \<^item> \<open>Checkpoint_Manager\<close> (\<open>checkpoint_storage_manager.rs\<close>): states kept in memory come back by
    partition.
  \<^item> \<open>Barrier\<close> and \<open>Remote_Source\<close> (\<open>operators/remote_source\<close>): a round of the barrier; fibres take one
    decision at a marker.
  \<^item> \<open>Stream_Operators\<close>, \<open>Count_Operators\<close> (\<open>operators/*.rs\<close>): the operators; a source resumes at its
    checkpoint, counts survive an interruption.
  \<^item> \<open>Flight_Encoder\<close> (\<open>processor/flight_data_encoder.rs\<close>, \<open>stream_serialization.rs\<close>): what is decoded is
    what was encoded.
  \<^item> \<open>Operator_Serde\<close> (\<open>utils/serde_serialization.rs\<close>, \<open>operators/serialization.rs\<close> and the operators
    they serve): operators are read back as written (locale \<open>proto_serializer\<close>).
  \<^item> \<open>Operators\<close> (\<open>operator.rs\<close>, \<open>nested.rs\<close>, \<open>task_definition_2.rs\<close>): one datatype of operator functions,
    and nested operators as a sequence over named streams.
  \<^item> \<open>Task_Main\<close> (\<open>task_main_3.rs\<close>, \<open>worker_process.rs\<close>): the loop of a task and the tasks of a worker.
  \<^item> \<open>Coordinator\<close> (\<open>coordinator.rs\<close>, \<open>src/python\<close>): schedules, deployment and scaling.

  \<^bold>\<open>Theories of the batch engine.\<close>
  \<^item> \<open>Batch_Streams\<close> (\<open>util.rs\<close>, \<open>max_rows.rs\<close>, \<open>isolator.rs\<close>, \<open>pre_fetch.rs\<close>, \<open>stage_reader.rs\<close>): row limits,
    combined streams poll by poll, isolators and readers.
  \<^item> \<open>Batch_Plans\<close> (\<open>physical.rs\<close>, \<open>codec.rs\<close>, \<open>util.rs\<close>, \<open>processor_service.rs\<close>): the numbering of stages, the
    codec of plan nodes and the clients of a handler.
  \<^item> \<open>Services\<close> (\<open>processor_service.rs\<close>, \<open>flight.rs\<close>, and of the streaming engine \<open>data_exchange_manager.rs\<close>,
    \<open>runtime.rs\<close> and the start of a worker): the lifetime of the servers.
  \<^item> \<open>Processor_Pool\<close>, \<open>Supervisor\<close>, \<open>Data_Frame\<close> (\<open>datafusion_ray/core.py\<close>, \<open>friendly.py\<close>, \<open>context.rs\<close>): the
    pool is never overcommitted (an interpretation of \<open>invariant_system\<close>), a query gives every processor
    the addresses of the copies it reads, collecting reads the last stage where it runs, and
    collecting a streaming query always raises.

  This theory composes the streaming parts: rows travel from a source through its exchange to the
  scaled copies of its reader, each exactly once.

  \<^bold>\<open>Bounds and fuel.\<close>  The copy of a directory tree has fuel, and one unit for each directory
  of the source is enough (\<open>copy_dir_between_systems_exact\<close>).  The retry loop of a task has fuel, and
  one round is enough because no operator fails with an error the loop would retry
  (\<open>main_loop_one_round\<close>).  The outcome \<open>None\<close> of an operator stands for one that never returns, and
  theorems on results show that it does return.  Streams are finite lists of answers; a run of a merged or
  combined stream is shown to end.

  \<^bold>\<open>Not modelled.\<close>
  \<^item> Code that is commented out: the Rust data frame of \<open>dataframe.rs\<close> (its answers are the parameter
    \<open>planner\<close> of \<open>Data_Frame\<close>), \<open>translate_physical_plan.rs\<close>, \<open>stateful_operator.rs\<close>.
  \<^item> Code without behaviour of its own: trait declarations (\<open>task_function.rs\<close>), wrappers that only satisfy the
    borrow checker or forward a poll (\<open>sync_safe.rs\<close>, \<open>borrowed_stream.rs\<close>), the plan node of \<open>stage.rs\<close>, which is a
    constructor of plans here and cannot be executed, module lists, classes that only carry a value to
    Python, and \<open>close\<close> of the operators, which drops them.
  \<^item> Code the program does not call: \<open>lazy_operator.rs\<close>, \<open>test_utils.rs\<close>, \<open>run_tasks\<close> of \<open>py/entrypoint.py\<close>.
  \<^item> Output for people: the display of plans and batches, reports on slow streams, the logger of the
    coordinator, logging set-up.
  \<^item> The demonstration queries of \<open>run.rs\<close>, whose tasks are built from operators modelled here, the
    benchmark, release and example scripts, the build script and generated protobuf code beyond the messages that
    \<open>Batch_Plans\<close> and \<open>Operator_Serde\<close> use, and the word lists of \<open>friendly.py\<close>, which are an argument.
  \<^item> Time: delays, time-outs and the pause between attempts have no effect on the values.
\<close>

subsection \<open>From a source to the copies of its reader\<close>

lemma scaled_in_full:
  assumes "0 < k" and "k \<le> new_partition_cap" and "r \<in> set (scaled_ranges k)"
  shows "pr_partitions r = 34" and "pr_start r < pr_end r" and "pr_end r \<le> 34"
proof -
  note cover = scaled_cover [OF assms(1,2)]
  show "pr_partitions r = 34" using range_cover.same_np [OF cover assms(3)] by (simp add: new_partition_cap_def)
  have "(pr_start r, pr_end r) \<in> set (map range_bounds (scaled_ranges k))" using assms(3) by (force simp: range_bounds_def)
  with tiles_inside [OF range_cover.tiling [OF cover]] show "pr_start r < pr_end r" "pr_end r \<le> 34"
    by (auto simp: new_partition_cap_def)
qed

text \<open>A copy with a part of the partitions resolves a stream of a task that runs once over all of them.\<close>

lemma part_resolves:
  assumes "pr_partitions r = 34" and "pr_start r < pr_end r" and "pr_end r \<le> 34" and "cp < 2 ^ 32"
  shows "get_addresses_for_stream r cp \<lparr>gid_stream_id = sid, gid_locations = [single_location addr pr_full]\<rparr> = Ok [(sid, addr, r)]"
proof -
  have "pr_intersection r pr_full = r"
    using assms(1-3) by (cases r) (simp add: pr_intersection_def pr_full_value pr_new_def Let_def)
  moreover have "\<not> pr_is_empty r" "pr_size r < usize_limit" using assms(1-3) by (simp_all add: pr_is_empty_def pr_size_def usize_sub_def usize_limit_def)
  ultimately show ?thesis using assms(4)
    by (simp add: get_addresses_for_stream_def single_location_def location_active_def match_location_def usize_sum_def
      usize_add_def List.map_filter_def Let_def)
qed

lemma find_other_location:
  assumes "(td, copies) \<in> set tasks" and "td_task_id td \<noteq> task_id" and "sid \<in> set (exchange_outputs td)"
    and "\<forall>(td', copies') \<in> set tasks. sid \<in> set (exchange_outputs td') \<longrightarrow> copies' = copies"
  shows "find (\<lambda>d. gid_stream_id d = sid) (other_input_locations task_id tasks) =
    Some \<lparr>gid_stream_id = sid, gid_locations = map (\<lambda>(addr, _, prange). single_location addr prange) copies\<rparr>"
proof -
  let ?locs = "other_input_locations task_id tasks" and ?loc = "\<lambda>copies. map (\<lambda>(addr, _, prange). single_location addr prange) copies"
  have locs: "d \<in> set ?locs \<longleftrightarrow> (\<exists>td copies s. (td, copies) \<in> set tasks \<and> td_task_id td \<noteq> task_id \<and> s \<in> set (exchange_outputs td) \<and>
      d = \<lparr>gid_stream_id = s, gid_locations = ?loc copies\<rparr>)" for d
    by (auto simp: other_input_locations_def image_iff Bex_def split_beta)
  have "\<lparr>gid_stream_id = sid, gid_locations = ?loc copies\<rparr> \<in> set ?locs" unfolding locs using assms(1-3) by blast
  then obtain d where d: "find (\<lambda>d. gid_stream_id d = sid) ?locs = Some d"
    by (cases "find (\<lambda>d. gid_stream_id d = sid) ?locs") (auto simp: find_None_iff)
  then have "d \<in> set ?locs" "gid_stream_id d = sid" using find_Some_split [OF d] by auto
  with locs [of d] obtain td' copies' where "(td', copies') \<in> set tasks" "sid \<in> set (exchange_outputs td')"
    "d = \<lparr>gid_stream_id = sid, gid_locations = ?loc copies'\<rparr>" by auto
  moreover from this(1,2) assms(4) have "copies' = copies" by auto
  ultimately show ?thesis using d by simp
qed

lemma source_task_outputs: "td_operator td = source_task items n sid partitioning \<Longrightarrow> exchange_outputs td = [sid]"
  by (simp add: exchange_outputs_def source_task_def)

text \<open>
  C1: rows travel from a source to the copies of its reader, each exactly once.  A task that
  connects a source to an exchange output partitioned by some expressions is run, from a
  checkpoint, with a generation over the full range.  Its reader is scaled to \<open>k\<close> copies.  Then
  the task completes; every copy resolves the stream to the address of the task with exactly
  the range of the copy; the exchange accepts all their requests and points them to the
  channel of the task; following the channel yields the items the source emits from the
  checkpoint on, in order, and then ends; and of each of these items every copy gets its own
  part: the marker itself, or batches that together hold each row of a batch exactly once.
\<close>

theorem scaled_readers_share_rows:
  fixes env :: "('b, 'c, 'db, 'sst) op_env" and w :: "('b, 'e, 'c) op_world"
  assumes "interleaves (ev_merge env)" and "takes_rows A rows" and "hashes_rows A rows exprs h"
    and source: "source_load checkpoint (source_new items n) = Ok src" "max_marker items = Ok mm"
    and sizes: "\<forall>b. ItemBatch b \<in> set (emitted mm src) \<longrightarrow> length (rows b) \<le> 2 ^ 32"
    and scaled: "0 < k" "k \<le> new_partition_cap" "scale_partitions k = Ok ranges"
    and task: "(td, [(addr, processor, pr_full)]) \<in> set tasks" "td_operator td = source_task items n sid (Some \<lparr>expressions = exprs\<rparr>)"
      "td_task_id td \<noteq> reader_id"
      "\<forall>(td', copies) \<in> set tasks. sid \<in> set (exchange_outputs td') \<longrightarrow> copies = [(addr, processor, pr_full)]"
    and "gs_partitions generation = pr_full" and "cp < 2 ^ 32"
  shows "\<exists>w' a fs. operator_main_loop (Suc fuel) env (Some (generation # generations), details) state_id checkpoint
      (create_operator_function (od_spec (td_operator td)) :: ('b, 'e, 'c, 'db) operator_function) w = Some (Ok w') \<and>
    (\<forall>r \<in> set ranges. get_addresses r cp [sid] (other_input_locations reader_id tasks) = Ok [(sid, addr, r)]) \<and>
    map (\<lambda>r. store_stream sid r (ow_exchange w')) ranges = map (\<lambda>f. Ok (a, f)) fs \<and>
    (reader_step (es_heap (ow_exchange w') ! a) ^^ (2 * length (emitted mm src) + 1)) new_reader =
      \<lparr>rd_index = length (emitted mm src), rd_pc = Ended, rd_out = emitted mm src\<rparr> \<and>
    (\<forall>item \<in> set (emitted mm src). \<exists>parts. map (\<lambda>f. filter_item A f (Ok item)) fs = map Ok parts \<and>
       length parts = k \<and> split_of rows item parts)"
proof -
  let ?spec = "\<lparr>expressions = exprs\<rparr>" and ?a = "length (es_heap (ow_exchange w))"
  let ?f = "\<lambda>r. Some \<lparr>cpd_partitioning_spec = ?spec, cpd_partitions = r\<rparr>"
  have ranges: "ranges = scaled_ranges k" using scaled(3) by (simp add: scale_partitions_eq [OF scaled(1)])
  note cover = scaled_cover [OF scaled(1,2)] and inside = scaled_in_full [OF scaled(1,2), folded ranges]
  obtain w' ch where run: "operator_main_loop (Suc 0) env (Some (generation # generations), details) state_id checkpoint
      (create_operator_function (od_spec (source_task items n sid (Some ?spec))) :: ('b, 'e, 'c, 'db) operator_function) w = Some (Ok w')"
    and channels: "es_channels (ow_exchange w') = (es_channels (ow_exchange w))(sid \<mapsto>
      \<lparr>os_channel = ?a, os_partitioning_details = map_option (\<lambda>p. \<lparr>cpd_partitioning_spec = p, cpd_partitions = gs_partitions generation\<rparr>) (Some ?spec)\<rparr>)"
    and heap: "es_heap (ow_exchange w') = es_heap (ow_exchange w) @ [ch]"
    and read: "(reader_step ch ^^ (2 * length (emitted mm src) + 1)) new_reader =
      \<lparr>rd_index = length (emitted mm src), rd_pc = Ended, rd_out = emitted mm src\<rparr>"
    by (rule source_task_runs [OF assms(1) source, where partitioning = "Some ?spec"])
  have loop: "operator_main_loop (Suc fuel) env (Some (generation # generations), details) state_id checkpoint
      (create_operator_function (od_spec (td_operator td)) :: ('b, 'e, 'c, 'db) operator_function) w = Some (Ok w')"
    using run task(2) by (simp add: operator_main_loop_def main_loop_round del: main_loop_rounds.simps)
  have addresses: "get_addresses r cp [sid] (other_input_locations reader_id tasks) = Ok [(sid, addr, r)]" if "r \<in> set ranges" for r
    using find_other_location [OF task(1,3) _ task(4)] source_task_outputs [OF task(2)]
      part_resolves [OF inside [OF that] assms(15), of sid addr] by (simp add: get_addresses_def)
  have "store_stream sid r (ow_exchange w') = Ok (?a, ?f r)" if "r \<in> set ranges" for r
    by (rule store_stream_full [where np = 34]) (use channels assms(14) inside [OF that] in \<open>simp_all add: pr_full_value\<close>)
  then have accepted: "map (\<lambda>r. store_stream sid r (ow_exchange w')) ranges = map (\<lambda>f. Ok (?a, f)) (map ?f ranges)" by simp
  have "\<exists>parts. map (\<lambda>f. filter_item A f (Ok item)) (map ?f ranges) = map Ok parts \<and> length parts = k \<and> split_of rows item parts"
    if "item \<in> set (emitted mm src)" for item
  proof -
    have "\<forall>b. item = ItemBatch b \<longrightarrow> length (rows b) \<le> 2 ^ 32" using sizes that by blast
    moreover have "0 < new_partition_cap" "length ranges = k" using scaled(1,2) by (simp_all add: ranges scaled_ranges_def)
    ultimately show ?thesis
      using filter_item_split [OF assms(2,3) _ _ _ range_cover.tiling [OF cover, folded ranges], of item]
        range_cover.same_np [OF cover, folded ranges] by (simp add: comp_def)
  qed
  with loop addresses accepted read show ?thesis by (intro exI [of _ w'] exI [of _ ?a] exI [of _ "map ?f ranges"]) (simp add: heap)
qed

definition list_env :: "(nat list, small_file, path \<times> pairs, unit) op_env" where
  "list_env =
     \<lparr>ev_rocks = small_rocks, ev_json = small_json, ev_remote = example_remote, ev_remote_disk = Dir [],
      ev_local_fs = prefixed_storage [], ev_sst_dir = [], ev_fuel = 0, ev_uuid = (\<lambda>k n. replicate k CHR ''u'' @ replicate n CHR ''v''),
      ev_row_count = length, ev_count_batch = (\<lambda>n. [n]), ev_key_values = (\<lambda>_ _. Ok KeyOtherType),
      ev_counts_batch = (\<lambda>_. []), ev_entries = (\<lambda>_. []), ev_merge = concat, ev_receive = (\<lambda>_. [])\<rparr>"

theorem scaled_readers_share_rows_witness:
  "\<exists>w' a f g. operator_main_loop 1 list_env
      (Some [\<lparr>gs_id = ''g'', gs_partitions = pr_full, gs_start_conditions = []\<rparr>], None) ''state'' 0
      (create_operator_function (od_spec (td_operator small_source)) :: (nat list, unit, small_file, path \<times> pairs) operator_function)
      \<lparr>ow_disk = Dir [], ow_exchange = store_new, ow_calls = 0\<rparr> = Some (Ok w') \<and>
    store_stream ''rows'' (pr_new 0 17 34) (ow_exchange w') = Ok (a, f) \<and>
    store_stream ''rows'' (pr_new 17 34 34) (ow_exchange w') = Ok (a, g) \<and>
    (\<exists>x y. filter_item list_arrow f (Ok (ItemBatch [1, 2, 3])) = Ok x \<and> filter_item list_arrow g (Ok (ItemBatch [1, 2, 3])) = Ok y \<and>
      split_of (\<lambda>b. b) (ItemBatch [1, 2, 3]) [x, y])"
proof -
  let ?items = "[ItemBatch [1, 2, 3], ItemMarker (Marker 1)] :: nat list stream_item list"
  let ?src = "(source_new ?items 1)\<lparr>sof_offset := 0, sof_current_iteration := 0\<rparr>"
  let ?p = "\<lparr>rp_processor_object = 0, rp_addr = ''a''\<rparr>"
  let ?g = "\<lparr>gs_id = ''g'', gs_partitions = pr_full, gs_start_conditions = []\<rparr>"
  have source: "source_load 0 (source_new ?items 1) = Ok ?src" "max_marker ?items = Ok 1"
    by (simp_all add: source_load_def max_marker_def item_marker_def List.map_filter_def)
  have emitted: "emitted 1 ?src = ?items" by (simp add: emitted_def source_new_def)
  have sizes: "\<forall>b. ItemBatch b \<in> set (emitted 1 ?src) \<longrightarrow> length b \<le> 2 ^ 32" unfolding emitted by simp
  have ranges: "scale_partitions 2 = Ok [pr_new 0 17 34, pr_new 17 34 34]"
    by (simp add: scale_partitions_def usize_div_def usize_rem_def new_partition_cap_def scale_range_def upt_rec Let_def)
  have merge: "interleaves (ev_merge list_env)" by (simp add: interleaves_def list_env_def)
  have task: "(small_source, [(''a'', ?p, pr_full)]) \<in> set [(small_source, [(''a'', ?p, pr_full)])]"
    "td_operator small_source = source_task ?items 1 ''rows'' (Some \<lparr>expressions = [()]\<rparr>)" "td_task_id small_source \<noteq> ''sink''"
    "\<forall>(td', copies) \<in> set [(small_source, [(''a'', ?p, pr_full)])]. ''rows'' \<in> set (exchange_outputs td') \<longrightarrow> copies = [(''a'', ?p, pr_full)]"
    by (simp_all add: small_source_def)
  have cap: "0 < (2 :: nat)" "2 \<le> new_partition_cap" "(0 :: nat) < 2 ^ 32" by (simp_all add: new_partition_cap_def)
  have gen: "gs_partitions ?g = pr_full" by simp
  obtain w' :: "(nat list, unit, small_file) op_world" and a fs where
    run: "operator_main_loop (Suc 0) list_env (Some [?g], None) ''state'' 0
      (create_operator_function (od_spec (td_operator small_source)) :: (nat list, unit, small_file, path \<times> pairs) operator_function)
      \<lparr>ow_disk = Dir [], ow_exchange = store_new, ow_calls = 0\<rparr> = Some (Ok w')"
    and accepted: "map (\<lambda>r. store_stream ''rows'' r (ow_exchange w')) [pr_new 0 17 34, pr_new 17 34 34] = map (\<lambda>f. Ok (a, f)) fs"
    and parts: "\<forall>item \<in> set (emitted 1 ?src). \<exists>parts. map (\<lambda>f. filter_item list_arrow f (Ok item)) fs = map Ok parts \<and>
      length parts = 2 \<and> split_of (\<lambda>b. b) item parts"
    using scaled_readers_share_rows [OF merge list_arrow_takes_rows list_arrow_hashes_rows source sizes cap(1,2) ranges task gen cap(3),
      where generations = "[]" and details = None and state_id = "''state''" and fuel = 0
      and w = "\<lparr>ow_disk = Dir [], ow_exchange = store_new, ow_calls = 0\<rparr>"]
    by (elim exE conjE) (rule that)
  from accepted obtain f g where fs: "fs = [f, g]" "store_stream ''rows'' (pr_new 0 17 34) (ow_exchange w') = Ok (a, f)"
    "store_stream ''rows'' (pr_new 17 34 34) (ow_exchange w') = Ok (a, g)" by (auto simp: Cons_eq_map_conv)
  from parts have "\<exists>parts. map (\<lambda>f. filter_item list_arrow f (Ok (ItemBatch [1, 2, 3]))) fs = map Ok parts \<and>
      split_of (\<lambda>b. b) (ItemBatch [1, 2, 3]) parts" unfolding emitted by auto
  then obtain x y where "filter_item list_arrow f (Ok (ItemBatch [1, 2, 3])) = Ok x"
    "filter_item list_arrow g (Ok (ItemBatch [1, 2, 3])) = Ok y" "split_of (\<lambda>b. b) (ItemBatch [1, 2, 3]) [x, y]"
    unfolding fs(1) by (auto simp: Cons_eq_map_conv)
  with run fs(2,3) show ?thesis unfolding One_nat_def by blast
qed

end
